(* ===== verification/C_Prelude.thy ===== *)
theory C_Prelude
  imports Main "HOL-Library.Word"
begin

text \<open>
  What every component shares: the C integers of the x86-64 Linux ABI with their conversions,
  the error codes of \<^verbatim>\<open>include/xcp-ng/generic/global.h\<close>, the process state that system calls
  read and write, the control flow of a C \<^verbatim>\<open>do ... while\<close> loop whose body may return, and
  bounds-checked blocks of heap memory.
\<close>

section \<open>Collections of simplification rules\<close>

named_theorems cint_simps \<open>conversions between C integer types\<close>
named_theorems cmem_simps \<open>reads and writes of heap blocks\<close>

section \<open>C integers (LP64)\<close>

text \<open>
  Signed integers are \<^typ>\<open>int\<close> values and sizes are \<^typ>\<open>nat\<close> values; every conversion and
  every operation of the source that can leave the range of its type goes through one of these.
\<close>

definition u64 :: "int \<Rightarrow> nat" where
  "u64 x = nat (x mod 2 ^ 64)"

definition s64 :: "int \<Rightarrow> int" where
  "s64 x = (x + 2 ^ 63) mod 2 ^ 64 - 2 ^ 63"

definition s32 :: "int \<Rightarrow> int" where
  "s32 x = (x + 2 ^ 31) mod 2 ^ 32 - 2 ^ 31"

definition usz :: "nat \<Rightarrow> nat" where
  "usz n = n mod 2 ^ 64"

lemma u64_id [cint_simps]: "0 \<le> x \<Longrightarrow> x < 2 ^ 64 \<Longrightarrow> u64 x = nat x"
  by (simp add: u64_def)

lemma u64_of_nat [cint_simps]: "n < 2 ^ 64 \<Longrightarrow> u64 (int n) = n"
  by (simp add: u64_def)

lemma u64_diff [cint_simps]: "m \<le> n \<Longrightarrow> n < 2 ^ 64 \<Longrightarrow> u64 (int n - int m) = n - m"
  using u64_of_nat [of "n - m"] by (simp add: of_nat_diff)

lemma usz_id [cint_simps]: "n < 2 ^ 64 \<Longrightarrow> usz n = n"
  by (simp add: usz_def)

lemma usz_add_u64 [cint_simps]:
  "0 \<le> x \<Longrightarrow> m + nat x < 2 ^ 64 \<Longrightarrow> usz (m + u64 x) = m + nat x"
proof -
  assume "0 \<le> x" and lt: "m + nat x < 2 ^ 64"
  then have "nat x < 2 ^ 64" by linarith
  then have "x < 2 ^ 64" by (simp add: nat_less_iff)
  with \<open>0 \<le> x\<close> have "u64 x = nat x" by (rule u64_id)
  with lt show ?thesis by (simp only: usz_id)
qed

lemma s64_id [cint_simps]: "- (2 ^ 63) \<le> x \<Longrightarrow> x < 2 ^ 63 \<Longrightarrow> s64 x = x"
  by (simp add: s64_def)

lemma s64_range: "- (2 ^ 63) \<le> s64 x" "s64 x < 2 ^ 63"
  by (simp_all add: s64_def)

lemma s64_id_iff: "s64 x = x \<longleftrightarrow> - (2 ^ 63) \<le> x \<and> x < 2 ^ 63"
  using s64_id s64_range by metis

lemma s32_id [cint_simps]: "- (2 ^ 31) \<le> x \<Longrightarrow> x < 2 ^ 31 \<Longrightarrow> s32 x = x"
  by (simp add: s32_def)

lemma s32_range: "- (2 ^ 31) \<le> s32 x" "s32 x < 2 ^ 31"
  by (simp_all add: s32_def)

lemma s32_id_iff: "s32 x = x \<longleftrightarrow> - (2 ^ 31) \<le> x \<and> x < 2 ^ 31"
  using s32_id s32_range by metis

section \<open>Error codes and errno\<close>

text \<open>\<^verbatim>\<open>XcpError\<close> is \<^verbatim>\<open>ssize_t\<close>: a value that is not negative, or one of the codes below.\<close>

type_synonym XcpError = int

definition XCP_ERR_OK :: XcpError where
  "XCP_ERR_OK = 0"

definition XCP_ERR_ERRNO :: XcpError where
  "XCP_ERR_ERRNO = - 1"

definition XCP_ERR_TIMEOUT :: XcpError where
  "XCP_ERR_TIMEOUT = - 2"

lemmas xcp_err_defs = XCP_ERR_OK_def XCP_ERR_ERRNO_def XCP_ERR_TIMEOUT_def

text \<open>The \<^verbatim>\<open>errno\<close> values the sources compare with (\<^verbatim>\<open>EWOULDBLOCK\<close> is \<^verbatim>\<open>EAGAIN\<close> on Linux).\<close>

abbreviation EINTR :: int where
  "EINTR \<equiv> 4"

abbreviation EBADF :: int where
  "EBADF \<equiv> 9"

abbreviation EAGAIN :: int where
  "EAGAIN \<equiv> 11"

abbreviation EWOULDBLOCK :: int where
  "EWOULDBLOCK \<equiv> EAGAIN"

abbreviation ERANGE :: int where
  "ERANGE \<equiv> 34"

section \<open>The state of the process\<close>

text \<open>
  \<open>errno\<close> is the thread's error number, \<open>mem\<close> its memory as a map from addresses to bytes and
  \<open>kern\<close> whatever else a system call can observe or change. A system call is a parameter of the
  model: a function of its C arguments and of this state.
\<close>

type_synonym byte = "8 word"

record 'k sys =
  errno :: int
  mem :: "nat \<Rightarrow> byte"
  kern :: 'k

definition mem_bytes :: "(nat \<Rightarrow> byte) \<Rightarrow> nat \<Rightarrow> nat \<Rightarrow> byte list" where
  "mem_bytes m a n = map m [a..<a + n]"

definition mem_store :: "(nat \<Rightarrow> byte) \<Rightarrow> nat \<Rightarrow> byte list \<Rightarrow> nat \<Rightarrow> byte" where
  "mem_store m a bs = (\<lambda>x. if a \<le> x \<and> x < a + length bs then bs ! (x - a) else m x)"

lemma length_mem_bytes [simp]: "length (mem_bytes m a n) = n"
  by (simp add: mem_bytes_def)

lemma mem_bytes_0 [simp]: "mem_bytes m a 0 = []"
  by (simp add: mem_bytes_def)

lemma nth_mem_bytes [simp]: "i < n \<Longrightarrow> mem_bytes m a n ! i = m (a + i)"
  by (simp add: mem_bytes_def)

lemma mem_bytes_add: "mem_bytes m a (n + k) = mem_bytes m a n @ mem_bytes m (a + n) k"
  by (rule nth_equalityI) (auto simp: nth_append)

lemma take_mem_bytes: "n \<le> k \<Longrightarrow> take n (mem_bytes m a k) = mem_bytes m a n"
  by (simp add: mem_bytes_def take_map)

lemma mem_bytes_store [simp]: "mem_bytes (mem_store m a bs) a (length bs) = bs"
  by (rule nth_equalityI) (auto simp: mem_store_def)

lemma mem_store_outside: "x < a \<or> a + length bs \<le> x \<Longrightarrow> mem_store m a bs x = m x"
  by (auto simp: mem_store_def)

lemma mem_store_Nil [simp]: "mem_store m a [] = m"
  by (rule ext) (auto simp: mem_store_def)

lemma mem_store_append:
  "mem_store (mem_store m a xs) (a + length xs) ys = mem_store m a (xs @ ys)"
  by (rule ext) (auto simp: mem_store_def nth_append)

section \<open>Loops whose body may return\<close>

text \<open>
  One iteration of \<^verbatim>\<open>do { ... } while (c);\<close> either leaves the loop with a result (a
  \<^verbatim>\<open>return\<close> or \<^verbatim>\<open>break\<close> in the body, or the condition failing) or goes round again. The body
  itself may call something that never returns, hence its \<^typ>\<open>'a option\<close>; the loop is \<^const>\<open>None\<close>
  when it never returns.
\<close>

datatype ('r, 's) flow = Leave 'r 's | Again 's

partial_function (option) do_while ::
  "('s \<Rightarrow> ('r, 's) flow option) \<Rightarrow> 's \<Rightarrow> ('r \<times> 's) option" where
  "do_while body s =
     (case body s of
        None \<Rightarrow> None
      | Some fl \<Rightarrow> (case fl of Leave r s' \<Rightarrow> Some (r, s') | Again s' \<Rightarrow> do_while body s'))"

declare do_while.simps [code]

lemma do_while_Leave: "body s = Some (Leave r s') \<Longrightarrow> do_while body s = Some (r, s')"
  by (subst do_while.simps) simp

lemma do_while_Again: "body s = Some (Again s') \<Longrightarrow> do_while body s = do_while body s'"
  by (subst do_while.simps) simp

text \<open>Total correctness: an invariant the body keeps and a measure that every further round lowers.\<close>

lemma do_while_total:
  fixes \<mu> :: "'s \<Rightarrow> nat"
  assumes "I s"
    and body: "\<And>s. I s \<Longrightarrow> (\<exists>r s'. body s = Some (Leave r s') \<and> Q r s')
      \<or> (\<exists>s'. body s = Some (Again s') \<and> I s' \<and> \<mu> s' < \<mu> s)"
  shows "\<exists>r s'. do_while body s = Some (r, s') \<and> Q r s'"
  using \<open>I s\<close>
proof (induction "\<mu> s" arbitrary: s rule: less_induct)
  case less
  from body [OF less.prems] show ?case
  proof (elim disjE exE conjE)
    fix r s' assume "body s = Some (Leave r s')" "Q r s'"
    then show ?thesis by (simp add: do_while_Leave)
  next
    fix s' assume "body s = Some (Again s')" "I s'" "\<mu> s' < \<mu> s"
    then show ?thesis using less.hyps by (simp add: do_while_Again)
  qed
qed

text \<open>Partial correctness: what the invariant gives at the exit.\<close>

lemma do_while_partial:
  assumes run: "do_while body s = Some (r, t)"
    and "I s"
    and again: "\<And>s s'. I s \<Longrightarrow> body s = Some (Again s') \<Longrightarrow> I s'"
    and leave: "\<And>s r s'. I s \<Longrightarrow> body s = Some (Leave r s') \<Longrightarrow> Q r s'"
  shows "Q r t"
proof -
  have "I s \<longrightarrow> Q (fst (r, t)) (snd (r, t))"
  proof (rule do_while.raw_induct [OF _ run, where P = "\<lambda>b s rt. b = body \<longrightarrow> I s \<longrightarrow> Q (fst rt) (snd rt)",
        THEN mp, OF _ refl])
    fix f b s rt
    assume IH: "\<And>b s rt. f b s = Some rt \<Longrightarrow> b = body \<longrightarrow> I s \<longrightarrow> Q (fst rt) (snd rt)"
      and eq: "(case b s of None \<Rightarrow> None
          | Some (Leave r s') \<Rightarrow> Some (r, s') | Some (Again s') \<Rightarrow> f b s') = Some rt"
    show "b = body \<longrightarrow> I s \<longrightarrow> Q (fst rt) (snd rt)"
      using eq by (auto split: option.splits flow.splits dest: leave again IH)
  qed
  with \<open>I s\<close> show ?thesis by simp
qed

text \<open>A loop that never leaves does not return.\<close>

lemma do_while_diverges:
  assumes "I s" and "\<And>s. I s \<Longrightarrow> body s = None \<or> (\<exists>s'. body s = Some (Again s') \<and> I s')"
  shows "do_while body s = None"
proof (rule ccontr)
  assume "do_while body s \<noteq> None"
  then obtain r t where run: "do_while body s = Some (r, t)" by auto
  show False
    by (rule do_while_partial [OF run, where I = I and Q = "\<lambda>_ _. False"])
      (use assms in force)+
qed

text \<open>
  \<open>goes_round body s t\<close>: having started in \<open>s\<close>, the loop stands before its body in state \<open>t\<close>, after any
  number of rounds. With it the loops that do not return are located: a loop whose rounds keep
  an invariant and lower a measure can only fail to return inside its body.
\<close>

inductive goes_round :: "('s \<Rightarrow> ('r, 's) flow option) \<Rightarrow> 's \<Rightarrow> 's \<Rightarrow> bool" for body where
  goes_round_refl: "goes_round body s s"
| goes_round_step: "body s = Some (Again s') \<Longrightarrow> goes_round body s' t \<Longrightarrow> goes_round body s t"

lemma goes_round_trans: "goes_round body s t \<Longrightarrow> goes_round body t u \<Longrightarrow> goes_round body s u"
  by (induction rule: goes_round.induct) (auto intro: goes_round_step)

lemma do_while_goes_round: "goes_round body s t \<Longrightarrow> do_while body s = do_while body t"
  by (induction rule: goes_round.induct) (simp_all add: do_while_Again)

lemma do_while_stuck: "goes_round body s t \<Longrightarrow> body t = None \<Longrightarrow> do_while body s = None"
  by (subst do_while_goes_round, assumption, subst do_while.simps) simp

lemma goes_round_keeps:
  assumes "goes_round body s t" and "I s" and "\<And>s s'. I s \<Longrightarrow> body s = Some (Again s') \<Longrightarrow> I s'"
  shows "I t"
  using assms by (induction rule: goes_round.induct) auto

lemma goes_round_same_body:
  assumes "goes_round body s' t" and "body s = body s'" 
  shows "\<exists>t'. goes_round body s t' \<and> body t' = body t"
  using assms
  by (cases rule: goes_round.cases) (metis goes_round_refl, metis goes_round_step)

lemma do_while_None_iff:
  fixes \<mu> :: "'s \<Rightarrow> nat"
  assumes "I s"
    and again: "\<And>s s'. I s \<Longrightarrow> body s = Some (Again s') \<Longrightarrow> I s' \<and> \<mu> s' < \<mu> s"
  shows "do_while body s = None \<longleftrightarrow> (\<exists>t. goes_round body s t \<and> body t = None)"
proof
  assume "do_while body s = None"
  with \<open>I s\<close> show "\<exists>t. goes_round body s t \<and> body t = None"
  proof (induction "\<mu> s" arbitrary: s rule: less_induct)
    case less
    show ?case
    proof (cases "body s")
      case None
      then show ?thesis by (blast intro: goes_round_refl)
    next
      case (Some fl)
      with less.prems(2) obtain s' where s': "body s = Some (Again s')"
        by (cases fl) (simp_all add: do_while_Leave)
      with less.prems less.hyps [of s'] again [OF less.prems(1) s'] show ?thesis
        by (auto simp: do_while_Again intro: goes_round_step)
    qed
  qed
qed (blast intro: do_while_stuck)

section \<open>Heap blocks\<close>

text \<open>
  A pointer to a block the function owns is \<open>NULL\<close> or the block's contents. Reads and writes
  outside the block are undefined behaviour, which is the value \<^const>\<open>None\<close> of the enclosing
  \<^typ>\<open>'a option\<close>.
\<close>

datatype 'a ptr = NULL | Ptr 'a

text \<open>
  \<^verbatim>\<open>malloc\<close> is a parameter: it fails, or gives a block of exactly the size asked for with
  arbitrary contents.
\<close>

definition malloc_ok :: "(nat \<Rightarrow> 'a list ptr) \<Rightarrow> bool" where
  "malloc_ok malloc \<longleftrightarrow> (\<forall>n b. malloc n = Ptr b \<longrightarrow> length b = n)"

definition blk_read :: "'a list \<Rightarrow> int \<Rightarrow> 'a option" where
  "blk_read b i = (if 0 \<le> i \<and> i < int (length b) then Some (b ! nat i) else None)"

definition blk_write :: "'a list \<Rightarrow> int \<Rightarrow> 'a \<Rightarrow> 'a list option" where
  "blk_write b i x = (if 0 \<le> i \<and> i < int (length b) then Some (b[nat i := x]) else None)"

definition blk_copy :: "'a list \<Rightarrow> nat \<Rightarrow> 'a list \<Rightarrow> 'a list option" where
  "blk_copy b i xs =
     (if i + length xs \<le> length b then Some (take i b @ xs @ drop (i + length xs) b) else None)"

lemma blk_read_nat [cmem_simps]: "i < length b \<Longrightarrow> blk_read b (int i) = Some (b ! i)"
  by (simp add: blk_read_def)

lemma blk_write_nat [cmem_simps]: "i < length b \<Longrightarrow> blk_write b (int i) x = Some (b[i := x])"
  by (simp add: blk_write_def)

lemma blk_copy_at [cmem_simps]:
  "length p = i \<Longrightarrow> length xs = length ys \<Longrightarrow> blk_copy (p @ xs @ q) i ys = Some (p @ ys @ q)"
  by (simp add: blk_copy_def)

end
