(* ===== verification/Retry.thy ===== *)
theory Retry
  imports C_Prelude
begin

text \<open>
  The retry loops of the library: \<^verbatim>\<open>do { ret = call(...); if (ret is good) return ...; }
  while (errno is a transient one); return XCP_ERR_ERRNO;\<close>. The locale states the shape once;
  each function of the sources that has it is an instance, and gets the facts proved here: on
  which call it returns and with which value, that it never reports a transient error, and when
  it returns at all.
\<close>

text \<open>The state after \<open>n\<close> calls, whatever their answers.\<close>

primrec after_calls :: "('s \<Rightarrow> 'a \<times> 's) \<Rightarrow> nat \<Rightarrow> 's \<Rightarrow> 's" where
  "after_calls call 0 s = s"
| "after_calls call (Suc n) s = after_calls call n (snd (call s))"

lemma last_call [simp]: "snd (call (after_calls call n s)) = after_calls call n (snd (call s))"
  by (induction n arbitrary: s) auto

lemma after_calls_add: "after_calls call i (after_calls call j s) = after_calls call (j + i) s"
  by (induction j arbitrary: s) simp_all

text \<open>
  Of the calls made one after the other from a state, \<open>settled_call\<close> is the first that does not
  fail in the way that is retried, given as the number of calls before it, and \<open>never_settles\<close>
  says that there is none. \<open>first_settled\<close> is the answer and the state of that call, if any.
\<close>

definition settled_call :: "('s \<Rightarrow> 'a \<times> 's) \<Rightarrow> ('a \<times> 's \<Rightarrow> bool) \<Rightarrow> 's \<Rightarrow> nat \<Rightarrow> bool" where
  "settled_call call fails s n \<longleftrightarrow>
     (\<forall>i<n. fails (call (after_calls call i s))) \<and> \<not> fails (call (after_calls call n s))"

definition never_settles :: "('s \<Rightarrow> 'a \<times> 's) \<Rightarrow> ('a \<times> 's \<Rightarrow> bool) \<Rightarrow> 's \<Rightarrow> bool" where
  "never_settles call fails s \<longleftrightarrow> (\<forall>i. fails (call (after_calls call i s)))"

definition first_settled :: "('s \<Rightarrow> 'a \<times> 's) \<Rightarrow> ('a \<times> 's \<Rightarrow> bool) \<Rightarrow> 's \<Rightarrow> ('a \<times> 's) option" where
  "first_settled call fails s =
     (if never_settles call fails s then None
      else Some (call (after_calls call (LEAST n. \<not> fails (call (after_calls call n s))) s)))"

lemma settled_call_ex: "\<not> never_settles call fails s \<Longrightarrow> \<exists>n. settled_call call fails s n"
proof -
  assume "\<not> never_settles call fails s"
  then have ex: "\<exists>n. \<not> fails (call (after_calls call n s))" by (simp add: never_settles_def)
  show ?thesis unfolding settled_call_def
    using LeastI_ex [OF ex] not_less_Least [where P = "\<lambda>n. \<not> fails (call (after_calls call n s))"]
    by (intro exI [of _ "LEAST n. \<not> fails (call (after_calls call n s))"]) blast
qed

lemma settled_call_not_never: "settled_call call fails s n \<Longrightarrow> \<not> never_settles call fails s"
  by (auto simp: settled_call_def never_settles_def)

lemma first_settled_at: "settled_call call fails s n \<Longrightarrow> first_settled call fails s = Some (call (after_calls call n s))"
proof -
  assume n: "settled_call call fails s n"
  then have "(LEAST n. \<not> fails (call (after_calls call n s))) = n"
    by (intro Least_equality) (auto simp: settled_call_def not_less [symmetric])
  with settled_call_not_never [OF n] show ?thesis by (simp add: first_settled_def)
qed

text \<open>The first call settles, or it fails and the calls after it decide.\<close>

lemma settled_call_0: "settled_call call fails s 0 \<longleftrightarrow> \<not> fails (call s)"
  by (simp add: settled_call_def)

lemma settled_call_Suc:
  "settled_call call fails s (Suc n) \<longleftrightarrow> fails (call s) \<and> settled_call call fails (snd (call s)) n"
  by (auto simp: settled_call_def less_Suc_eq_0_disj)

lemma never_settles_later: "never_settles call fails s \<Longrightarrow> never_settles call fails (after_calls call n s)"
  by (simp add: never_settles_def after_calls_add)

lemma never_settles_first: "never_settles call fails s \<Longrightarrow> fails (call s)"
  using after_calls.simps(1) by (metis never_settles_def)

text \<open>Failures that use something up come to an end.\<close>

lemma settles_if_tired:
  fixes \<mu> :: "'s \<Rightarrow> nat"
  assumes "\<And>s. fails (call s) \<Longrightarrow> \<mu> (snd (call s)) < \<mu> s"
  shows "\<not> never_settles call fails s"
proof
  assume never: "never_settles call fails s"
  have "\<mu> (after_calls call n s) + n \<le> \<mu> s" for n
  proof (induction n)
    case (Suc n)
    with assms [of "after_calls call n s"] never show ?case by (simp add: never_settles_def)
  qed simp
  from this [of "Suc (\<mu> s)"] show False by simp
qed

text \<open>One round of such a loop.\<close>

definition retry_body ::
  "('s \<Rightarrow> int \<times> 's) \<Rightarrow> (int \<Rightarrow> bool) \<Rightarrow> (int \<Rightarrow> XcpError) \<Rightarrow> (int \<Rightarrow> bool) \<Rightarrow> ('s \<Rightarrow> int)
    \<Rightarrow> 's \<Rightarrow> (XcpError, 's) flow option" where
  "retry_body call good result transient err s =
     (case call s of (ret, s') \<Rightarrow>
        Some (if good ret then Leave (result ret) s'
              else if transient (err s') then Again s'
              else Leave XCP_ERR_ERRNO s'))"

locale retry_call =
  fixes call :: "'s \<Rightarrow> int \<times> 's"
    and good :: "int \<Rightarrow> bool"
    and result :: "int \<Rightarrow> XcpError"
    and transient :: "int \<Rightarrow> bool"
    and err :: "'s \<Rightarrow> int"
    and f :: "'s \<Rightarrow> (XcpError \<times> 's) option"
  assumes is_retry_loop: "f s = do_while (retry_body call good result transient err) s"
    and good_result: "good ret \<Longrightarrow> result ret \<noteq> XCP_ERR_ERRNO"
begin

definition interrupted :: "'s \<Rightarrow> bool" where
  "interrupted s \<longleftrightarrow> \<not> good (fst (call s)) \<and> transient (err (snd (call s)))"

definition answer :: "int \<Rightarrow> XcpError" where
  "answer ret = (if good ret then result ret else XCP_ERR_ERRNO)"

lemma step:
  "f s = (if interrupted s then f (snd (call s)) else Some (answer (fst (call s)), snd (call s)))"
proof (cases "interrupted s")
  case True
  then have "retry_body call good result transient err s = Some (Again (snd (call s)))"
    by (auto simp: retry_body_def interrupted_def split: prod.splits)
  with True show ?thesis by (simp add: is_retry_loop do_while_Again)
next
  case False
  then have "retry_body call good result transient err s
      = Some (Leave (answer (fst (call s))) (snd (call s)))"
    by (auto simp: retry_body_def interrupted_def answer_def split: prod.splits)
  with False show ?thesis by (simp add: is_retry_loop do_while_Leave)
qed

lemma not_interrupted: "\<not> interrupted s \<Longrightarrow> f s = Some (answer (fst (call s)), snd (call s))"
  by (subst step) simp

lemma is_interrupted: "interrupted s \<Longrightarrow> f s = f (snd (call s))"
  by (subst step) simp

lemma skip_interruptions:
  "(\<And>i. i < n \<Longrightarrow> interrupted (after_calls call i s)) \<Longrightarrow> f s = f (after_calls call n s)"
proof (induction n arbitrary: s)
  case (Suc n)
  from Suc.prems [of 0] have "f s = f (snd (call s))" by (simp add: is_interrupted)
  also have "\<dots> = f (after_calls call n (snd (call s)))"
    using Suc.prems [of "Suc i" for i] by (intro Suc.IH) simp
  finally show ?case by simp
qed simp

text \<open>The loop never returns exactly when every call is interrupted.\<close>

lemma diverges: "(\<And>n. interrupted (after_calls call n s)) \<Longrightarrow> f s = None"
proof -
  assume all: "\<And>n. interrupted (after_calls call n s)"
  have "do_while (retry_body call good result transient err) s = None"
  proof (rule do_while_diverges [where I = "\<lambda>t. \<forall>n. interrupted (after_calls call n t)"])
    show "\<forall>n. interrupted (after_calls call n s)" using all by blast
  next
    fix t assume I: "\<forall>n. interrupted (after_calls call n t)"
    then have "interrupted t" by (auto dest: spec [of _ 0])
    then have "retry_body call good result transient err t = Some (Again (snd (call t)))"
      by (auto simp: retry_body_def interrupted_def split: prod.splits)
    moreover have "interrupted (after_calls call n (snd (call t)))" for n
      using I [THEN spec, of "Suc n"] by simp
    ultimately show "retry_body call good result transient err t = None \<or>
        (\<exists>t'. retry_body call good result transient err t = Some (Again t')
          \<and> (\<forall>n. interrupted (after_calls call n t')))"
      by blast
  qed
  then show ?thesis by (simp add: is_retry_loop)
qed

text \<open>It returns exactly the answer of the first call that is not interrupted.\<close>

lemma returns_iff:
  "f s = Some (r, t) \<longleftrightarrow>
     (\<exists>n. (\<forall>i<n. interrupted (after_calls call i s)) \<and> \<not> interrupted (after_calls call n s)
        \<and> r = answer (fst (call (after_calls call n s))) \<and> t = after_calls call (Suc n) s)"
  (is "_ \<longleftrightarrow> (\<exists>n. ?first n)")
proof
  assume run: "f s = Some (r, t)"
  define n where "n = (LEAST n. \<not> interrupted (after_calls call n s))"
  have ex: "\<exists>n. \<not> interrupted (after_calls call n s)"
    using run diverges by fastforce
  then have stop: "\<not> interrupted (after_calls call n s)"
    unfolding n_def by (rule LeastI_ex)
  have before: "\<forall>i<n. interrupted (after_calls call i s)"
    using not_less_Least unfolding n_def by blast
  have "f s = Some (answer (fst (call (after_calls call n s))), snd (call (after_calls call n s)))"
    using skip_interruptions [of n s] before not_interrupted [OF stop] by simp
  then show "\<exists>n. ?first n" using run stop before by auto
next
  assume "\<exists>n. ?first n"
  then obtain n where n: "?first n" ..
  then have "f s = f (after_calls call n s)" by (intro skip_interruptions) simp
  with n show "f s = Some (r, t)"
    by (simp add: not_interrupted)
qed

lemma None_iff: "f s = None \<longleftrightarrow> (\<forall>n. interrupted (after_calls call n s))"
proof
  assume none: "f s = None"
  show "\<forall>n. interrupted (after_calls call n s)"
  proof (rule ccontr)
    assume "\<not> (\<forall>n. interrupted (after_calls call n s))"
    then have "\<exists>n. \<not> interrupted (after_calls call n s)" by blast
    from LeastI_ex [OF this] not_less_Least [where P = "\<lambda>n. \<not> interrupted (after_calls call n s)"]
    have "f s \<noteq> None" unfolding not_None_eq split_paired_Ex returns_iff by blast
    with none show False by blast
  qed
qed (blast intro: diverges)

lemma is_first_settled:
  "f s = map_option (\<lambda>(ret, t). (answer ret, t))
     (first_settled call (\<lambda>(ret, t). \<not> good ret \<and> transient (err t)) s)"
proof -
  let ?fails = "\<lambda>(ret, t). \<not> good ret \<and> transient (err t)"
  have fails: "?fails (call t) \<longleftrightarrow> interrupted t" for t by (simp add: interrupted_def split: prod.split)
  show ?thesis
  proof (cases "never_settles call ?fails s")
    case True
    then have "interrupted (after_calls call n s)" for n unfolding never_settles_def fails by blast
    then have "f s = None" by (rule diverges)
    with True show ?thesis by (simp add: first_settled_def)
  next
    case False
    from settled_call_ex [OF this] obtain n where n: "settled_call call ?fails s n" ..
    then have first: "\<And>i. i < n \<Longrightarrow> interrupted (after_calls call i s)"
      and stop: "\<not> interrupted (after_calls call n s)"
      unfolding settled_call_def fails by blast+
    have "f s = f (after_calls call n s)" by (rule skip_interruptions, rule first)
    also note not_interrupted [OF stop]
    finally have run: "f s = Some (answer (fst (call (after_calls call n s))), snd (call (after_calls call n s)))" .
    show ?thesis
      unfolding run first_settled_at [OF n] option.map by (cases "call (after_calls call n s)") simp
  qed
qed

lemma returns_answer:
  assumes "f s = Some (r, t)"
  obtains u where "\<not> interrupted u" "r = answer (fst (call u))" "t = snd (call u)"
  using assms that unfolding returns_iff by fastforce

lemma failure_not_transient:
  assumes "f s = Some (XCP_ERR_ERRNO, t)"
  shows "\<not> transient (err t)"
proof -
  from assms obtain u where "\<not> interrupted u" "XCP_ERR_ERRNO = answer (fst (call u))" "t = snd (call u)"
    by (rule returns_answer)
  then show ?thesis
    using good_result [of "fst (call u)"] by (auto simp: interrupted_def answer_def split: if_splits)
qed

text \<open>What it returns is the result of a good call, or the code for a lasting error.\<close>

lemma result_kind:
  assumes "f s = Some (r, t)"
  shows "(\<exists>ret. good ret \<and> r = result ret) \<or> r = XCP_ERR_ERRNO \<and> \<not> transient (err t)"
proof -
  from assms obtain u where "\<not> interrupted u" "r = answer (fst (call u))" "t = snd (call u)"
    by (rule returns_answer)
  then show ?thesis by (auto simp: interrupted_def answer_def split: if_splits)
qed

text \<open>What holds of its result: an invariant of the interrupted calls, and what a settled one gives.\<close>

lemma partial:
  assumes "f s = Some (r, t)" and "I s" and keep: "\<And>s. I s \<Longrightarrow> interrupted s \<Longrightarrow> I (snd (call s))"
    and leave: "\<And>s. I s \<Longrightarrow> Q (answer (fst (call s))) (snd (call s))"
  shows "Q r t"
proof -
  from assms(1) obtain n where n: "\<forall>i<n. interrupted (after_calls call i s)"
    "r = answer (fst (call (after_calls call n s)))" "t = snd (call (after_calls call n s))"
    unfolding returns_iff by auto
  have "m \<le> n \<Longrightarrow> I (after_calls call m s)" for m
  proof (induction m)
    case (Suc m)
    with keep [of "after_calls call m s"] n(1) show ?case by simp
  qed (use \<open>I s\<close> in simp)
  then show ?thesis unfolding n(2,3) by (intro leave) simp
qed

text \<open>With a bound on how often the calls can be interrupted, it returns.\<close>

lemma total:
  fixes \<mu> :: "'s \<Rightarrow> nat"
  assumes "I s" and keep: "\<And>s. I s \<Longrightarrow> interrupted s \<Longrightarrow> I (snd (call s)) \<and> \<mu> (snd (call s)) < \<mu> s"
    and leave: "\<And>s. I s \<Longrightarrow> \<not> interrupted s \<Longrightarrow> Q (answer (fst (call s))) (snd (call s))"
  shows "\<exists>r t. f s = Some (r, t) \<and> Q r t"
  using \<open>I s\<close>
proof (induction "\<mu> s" arbitrary: s rule: less_induct)
  case less
  show ?case
  proof (cases "interrupted s")
    case True
    with keep [OF less.prems] less.hyps [of "snd (call s)"] show ?thesis
      by (simp add: is_interrupted)
  next
    case False
    with leave [OF less.prems] show ?thesis by (simp add: not_interrupted)
  qed
qed

end

lemma retry_callI:
  assumes "\<And>s. f s = do_while body s"
    and "\<And>s. body s = retry_body call good result transient err s"
    and "\<And>ret. good ret \<Longrightarrow> result ret \<noteq> XCP_ERR_ERRNO"
  shows "retry_call call good result transient err f"
proof -
  have "body = retry_body call good result transient err"
    by (rule ext) (rule assms(2))
  with assms(1,3) show ?thesis by unfold_locales simp_all
qed

end
