(* ===== verification/Xcp_IO.thy ===== *)
theory Xcp_IO
  imports Retry
begin

text \<open>
  \<^verbatim>\<open>src/io.c\<close>: the file descriptor helpers. Every system call the file uses is an argument of
  the definition that uses it, with the C call's arguments followed by the state; it answers its
  return value and the new state (\<^verbatim>\<open>errno\<close> and the memory it wrote included). A result
  \<^const>\<open>None\<close> of a definition means that the C function does not return.
\<close>

unbundle bit_operations_syntax

section \<open>Closing, duplicating, descriptor flags\<close>

type_synonym 'k fd_call = "int \<Rightarrow> 'k sys \<Rightarrow> int \<times> 'k sys"

definition xcp_fd_close :: "'k fd_call \<Rightarrow> int \<Rightarrow> 'k sys \<Rightarrow> (XcpError \<times> 'k sys) option" where
  "xcp_fd_close close fd \<sigma> =
     do_while (\<lambda>\<sigma>. case close fd \<sigma> of (ret, \<sigma>') \<Rightarrow>
       Some (if ret = 0 then Leave XCP_ERR_OK \<sigma>'
             else if errno \<sigma>' = EINTR then Again \<sigma>'
             else Leave XCP_ERR_ERRNO \<sigma>')) \<sigma>"

definition xcp_fd_dup ::
  "(int \<Rightarrow> 'k fd_call) \<Rightarrow> int \<Rightarrow> int \<Rightarrow> 'k sys \<Rightarrow> (XcpError \<times> 'k sys) option" where
  "xcp_fd_dup dup2 fildes fildes2 \<sigma> =
     do_while (\<lambda>\<sigma>. case dup2 fildes fildes2 \<sigma> of (ret, \<sigma>') \<Rightarrow>
       Some (if 0 \<le> ret then Leave ret \<sigma>'
             else if errno \<sigma>' = EINTR then Again \<sigma>'
             else Leave XCP_ERR_ERRNO \<sigma>')) \<sigma>"

text \<open>The two \<^verbatim>\<open>fcntl\<close> commands the file uses; \<^verbatim>\<open>FD_CLOEXEC\<close> is 1.\<close>

datatype fcntl_cmd = F_GETFD | F_SETFD int

definition FD_CLOEXEC :: int where
  "FD_CLOEXEC = 1"

definition xcp_fd_set_close_on_exec ::
  "(int \<Rightarrow> fcntl_cmd \<Rightarrow> 'k sys \<Rightarrow> int \<times> 'k sys) \<Rightarrow> int \<Rightarrow> bool \<Rightarrow> 'k sys \<Rightarrow> XcpError \<times> 'k sys" where
  "xcp_fd_set_close_on_exec fcntl fd status \<sigma> =
     (case fcntl fd F_GETFD \<sigma> of (flags, \<sigma>1) \<Rightarrow>
        if flags < 0 then (XCP_ERR_ERRNO, \<sigma>1)
        else
          let flags = (if status then flags OR FD_CLOEXEC else flags AND NOT FD_CLOEXEC) in
          (case fcntl fd (F_SETFD flags) \<sigma>1 of (ret, \<sigma>2) \<Rightarrow>
             if ret < 0 then (XCP_ERR_ERRNO, \<sigma>2) else (XCP_ERR_OK, \<sigma>2)))"

section \<open>Waiting and reading\<close>

record pollfd =
  pfd_fd :: int
  pfd_events :: int
  pfd_revents :: int

definition POLLIN :: int where
  "POLLIN = 1"

text \<open>\<^verbatim>\<open>poll\<close> also updates the \<^verbatim>\<open>revents\<close> fields of its array.\<close>

type_synonym 'k poll_call =
  "nat \<Rightarrow> int \<Rightarrow> pollfd list \<times> 'k sys \<Rightarrow> int \<times> pollfd list \<times> 'k sys"

text \<open>The loop of \<^verbatim>\<open>xcp_fd_wait_for_rdata\<close>, over its local array \<^verbatim>\<open>fds\<close> and the state.\<close>

definition wait_for_rdata_loop ::
  "'k poll_call \<Rightarrow> int \<Rightarrow> pollfd list \<times> 'k sys \<Rightarrow> (XcpError \<times> pollfd list \<times> 'k sys) option" where
  "wait_for_rdata_loop poll timeout s =
     do_while (\<lambda>s. case poll 1 timeout s of (ret, s') \<Rightarrow>
       Some (if ret > 0 then Leave XCP_ERR_OK s'
             else if ret = 0 then Leave XCP_ERR_TIMEOUT s'
             else if errno (snd s') = EAGAIN \<or> errno (snd s') = EINTR then Again s'
             else Leave XCP_ERR_ERRNO s')) s"

definition xcp_fd_wait_for_rdata ::
  "'k poll_call \<Rightarrow> int \<Rightarrow> int \<Rightarrow> 'k sys \<Rightarrow> (XcpError \<times> 'k sys) option" where
  "xcp_fd_wait_for_rdata poll fd timeout \<sigma> =
     (case wait_for_rdata_loop poll timeout
             ([\<lparr>pfd_fd = fd, pfd_events = POLLIN, pfd_revents = 0\<rparr>], \<sigma>) of
        None \<Rightarrow> None
      | Some (r, fds, \<sigma>') \<Rightarrow> Some (r, \<sigma>'))"

type_synonym 'k buf_call = "int \<Rightarrow> nat \<Rightarrow> nat \<Rightarrow> 'k sys \<Rightarrow> int \<times> 'k sys"

definition xcp_fd_read ::
  "'k buf_call \<Rightarrow> int \<Rightarrow> nat \<Rightarrow> nat \<Rightarrow> 'k sys \<Rightarrow> (XcpError \<times> 'k sys) option" where
  "xcp_fd_read read fd buf count \<sigma> =
     do_while (\<lambda>\<sigma>. case read fd buf count \<sigma> of (ret, \<sigma>') \<Rightarrow>
       Some (if 0 \<le> ret then Leave ret \<sigma>'
             else if errno \<sigma>' = EAGAIN \<or> errno \<sigma>' = EWOULDBLOCK \<or> errno \<sigma>' = EINTR then Again \<sigma>'
             else Leave XCP_ERR_ERRNO \<sigma>')) \<sigma>"

definition xcp_fd_wait_read ::
  "'k poll_call \<Rightarrow> 'k buf_call \<Rightarrow> int \<Rightarrow> nat \<Rightarrow> nat \<Rightarrow> int \<Rightarrow> 'k sys
    \<Rightarrow> (XcpError \<times> 'k sys) option" where
  "xcp_fd_wait_read poll read fd buf count timeout \<sigma> =
     (if timeout \<noteq> 0 then
        (case xcp_fd_wait_for_rdata poll fd timeout \<sigma> of
           None \<Rightarrow> None
         | Some (ret, \<sigma>') \<Rightarrow>
             if ret \<noteq> XCP_ERR_OK then Some (ret, \<sigma>') else xcp_fd_read read fd buf count \<sigma>')
      else xcp_fd_read read fd buf count \<sigma>)"

text \<open>\<^verbatim>\<open>if (offset) *offset = v;\<close> for a pointer to a variable of the caller.\<close>

definition store_out :: "'a ptr \<Rightarrow> 'a \<Rightarrow> 'a ptr" where
  "store_out p v = (case p of NULL \<Rightarrow> NULL | Ptr _ \<Rightarrow> Ptr v)"

lemma store_out_Ptr: "store_out (Ptr old) v = Ptr v"
  by (simp add: store_out_def)

text \<open>
  The loop of \<^verbatim>\<open>xcp_fd_read_all\<close> over its inner call. It leaves with the flag \<open>failed\<close> (the
  \<^verbatim>\<open>return XCP_ERR_ERRNO\<close>) or without it (the \<^verbatim>\<open>break\<close> and the loop condition).
\<close>

definition read_all_body ::
  "(nat \<Rightarrow> nat \<Rightarrow> 's \<Rightarrow> (XcpError \<times> 's) option) \<Rightarrow> nat \<Rightarrow> nat
    \<Rightarrow> nat \<times> 's \<Rightarrow> (bool, nat \<times> 's) flow option" where
  "read_all_body rd buf count = (\<lambda>(pos, s).
     case rd (buf + pos) (u64 (int count - int pos)) s of
       None \<Rightarrow> None
     | Some (ret, s') \<Rightarrow> Some
         (if ret < 0 then Leave True (pos, s')
          else if ret = 0 then Leave False (pos, s')
          else let pos' = usz (pos + u64 ret) in
            if pos' < count then Again (pos', s') else Leave False (pos', s')))"

definition read_all_loop ::
  "(nat \<Rightarrow> nat \<Rightarrow> 's \<Rightarrow> (XcpError \<times> 's) option) \<Rightarrow> nat \<Rightarrow> nat \<Rightarrow> nat ptr \<Rightarrow> 's
    \<Rightarrow> (XcpError \<times> nat ptr \<times> 's) option" where
  "read_all_loop rd buf count offset s =
     (case do_while (read_all_body rd buf count) (0, s) of
        None \<Rightarrow> None
      | Some (failed, pos, s') \<Rightarrow>
          Some (if failed then XCP_ERR_ERRNO else s64 (int pos), store_out offset pos, s'))"

definition xcp_fd_read_all ::
  "'k poll_call \<Rightarrow> 'k buf_call \<Rightarrow> int \<Rightarrow> nat \<Rightarrow> nat \<Rightarrow> int \<Rightarrow> nat ptr \<Rightarrow> 'k sys
    \<Rightarrow> (XcpError \<times> nat ptr \<times> 'k sys) option" where
  "xcp_fd_read_all poll read fd buf count timeout offset \<sigma> =
     read_all_loop (\<lambda>a n. xcp_fd_wait_read poll read fd a n timeout) buf count offset \<sigma>"

section \<open>Writing\<close>

definition xcp_fd_write ::
  "'k buf_call \<Rightarrow> int \<Rightarrow> nat \<Rightarrow> nat \<Rightarrow> 'k sys \<Rightarrow> (XcpError \<times> 'k sys) option" where
  "xcp_fd_write write fd buf count \<sigma> =
     do_while (\<lambda>\<sigma>. case write fd buf count \<sigma> of (ret, \<sigma>') \<Rightarrow>
       Some (if 0 \<le> ret then Leave ret \<sigma>'
             else if errno \<sigma>' = EAGAIN \<or> errno \<sigma>' = EWOULDBLOCK \<or> errno \<sigma>' = EINTR then Again \<sigma>'
             else Leave XCP_ERR_ERRNO \<sigma>')) \<sigma>"

text \<open>The loop of \<^verbatim>\<open>xcp_fd_write_all\<close>: as above, but a call that writes nothing is repeated.\<close>

definition write_all_body ::
  "(nat \<Rightarrow> nat \<Rightarrow> 's \<Rightarrow> (XcpError \<times> 's) option) \<Rightarrow> nat \<Rightarrow> nat
    \<Rightarrow> nat \<times> 's \<Rightarrow> (bool, nat \<times> 's) flow option" where
  "write_all_body wr buf count = (\<lambda>(pos, s).
     case wr (buf + pos) (u64 (int count - int pos)) s of
       None \<Rightarrow> None
     | Some (ret, s') \<Rightarrow> Some
         (if ret < 0 then Leave True (pos, s')
          else let pos' = usz (pos + u64 ret) in
            if pos' < count then Again (pos', s') else Leave False (pos', s')))"

definition write_all_loop ::
  "(nat \<Rightarrow> nat \<Rightarrow> 's \<Rightarrow> (XcpError \<times> 's) option) \<Rightarrow> nat \<Rightarrow> nat \<Rightarrow> nat ptr \<Rightarrow> 's
    \<Rightarrow> (XcpError \<times> nat ptr \<times> 's) option" where
  "write_all_loop wr buf count offset s =
     (case do_while (write_all_body wr buf count) (0, s) of
        None \<Rightarrow> None
      | Some (failed, pos, s') \<Rightarrow>
          Some (if failed then XCP_ERR_ERRNO else s64 (int pos), store_out offset pos, s'))"

definition xcp_fd_write_all ::
  "'k buf_call \<Rightarrow> int \<Rightarrow> nat \<Rightarrow> nat \<Rightarrow> nat ptr \<Rightarrow> 'k sys
    \<Rightarrow> (XcpError \<times> nat ptr \<times> 'k sys) option" where
  "xcp_fd_write_all write fd buf count offset \<sigma> =
     write_all_loop (\<lambda>a n. xcp_fd_write write fd a n) buf count offset \<sigma>"

section \<open>Reading at an offset, polling\<close>

definition xcp_fd_pread ::
  "(int \<Rightarrow> nat \<Rightarrow> nat \<Rightarrow> int \<Rightarrow> 'k sys \<Rightarrow> int \<times> 'k sys) \<Rightarrow> int \<Rightarrow> nat \<Rightarrow> nat \<Rightarrow> int \<Rightarrow> 'k sys
    \<Rightarrow> (XcpError \<times> 'k sys) option" where
  "xcp_fd_pread pread fd buf count offset \<sigma> =
     do_while (\<lambda>\<sigma>. case pread fd buf count offset \<sigma> of (ret, \<sigma>') \<Rightarrow>
       Some (if 0 \<le> ret then Leave ret \<sigma>'
             else if errno \<sigma>' = EAGAIN \<or> errno \<sigma>' = EWOULDBLOCK \<or> errno \<sigma>' = EINTR then Again \<sigma>'
             else Leave XCP_ERR_ERRNO \<sigma>')) \<sigma>"

text \<open>An \<^verbatim>\<open>iovec\<close> is a base address and a length; \<^verbatim>\<open>preadv\<close> takes its count as an \<^verbatim>\<open>int\<close>.\<close>

type_synonym iovec = "nat \<times> nat"

definition xcp_fd_preadv ::
  "(int \<Rightarrow> iovec list \<Rightarrow> int \<Rightarrow> int \<Rightarrow> 'k sys \<Rightarrow> int \<times> 'k sys) \<Rightarrow> int \<Rightarrow> iovec list \<Rightarrow> nat \<Rightarrow> int
    \<Rightarrow> 'k sys \<Rightarrow> (XcpError \<times> 'k sys) option" where
  "xcp_fd_preadv preadv fd iovs iovCount offset \<sigma> =
     do_while (\<lambda>\<sigma>. case preadv fd iovs (s32 (int iovCount)) offset \<sigma> of (ret, \<sigma>') \<Rightarrow>
       Some (if 0 \<le> ret then Leave ret \<sigma>'
             else if errno \<sigma>' = EAGAIN \<or> errno \<sigma>' = EWOULDBLOCK \<or> errno \<sigma>' = EINTR then Again \<sigma>'
             else Leave XCP_ERR_ERRNO \<sigma>')) \<sigma>"

definition xcp_poll ::
  "'k poll_call \<Rightarrow> pollfd list \<Rightarrow> nat \<Rightarrow> int \<Rightarrow> 'k sys
    \<Rightarrow> (XcpError \<times> pollfd list \<times> 'k sys) option" where
  "xcp_poll poll fds nfds timeout \<sigma> =
     do_while (\<lambda>s. case poll nfds timeout s of (ret, s') \<Rightarrow>
       Some (if ret > 0 then Leave ret s'
             else if ret = 0 then Leave XCP_ERR_TIMEOUT s'
             else if errno (snd s') = EAGAIN \<or> errno (snd s') = EINTR then Again s'
             else Leave XCP_ERR_ERRNO s')) (fds, \<sigma>)"

section \<open>The retry loops are instances of the retry interface\<close>

definition eintr :: "int \<Rightarrow> bool" where
  "eintr e \<longleftrightarrow> e = EINTR"

definition again_or_eintr :: "int \<Rightarrow> bool" where
  "again_or_eintr e \<longleftrightarrow> e = EAGAIN \<or> e = EINTR"

lemmas retry_instance_defs =
  retry_body_def eintr_def again_or_eintr_def xcp_err_defs

interpretation close: retry_call "close fd" "\<lambda>r. r = 0" "\<lambda>_. XCP_ERR_OK" eintr errno
    "xcp_fd_close close fd"
  for close fd
  by (rule retry_callI [OF xcp_fd_close_def]) (auto simp: retry_instance_defs split: prod.splits)

interpretation dup: retry_call "dup2 fd fd2" "\<lambda>r. 0 \<le> r" "\<lambda>r. r" eintr errno
    "xcp_fd_dup dup2 fd fd2"
  for dup2 fd fd2
  by (rule retry_callI [OF xcp_fd_dup_def]) (auto simp: retry_instance_defs split: prod.splits)

interpretation rd: retry_call "read fd buf count" "\<lambda>r. 0 \<le> r" "\<lambda>r. r" again_or_eintr errno
    "xcp_fd_read read fd buf count"
  for read fd buf count
  by (rule retry_callI [OF xcp_fd_read_def]) (auto simp: retry_instance_defs split: prod.splits)

interpretation wr: retry_call "write fd buf count" "\<lambda>r. 0 \<le> r" "\<lambda>r. r" again_or_eintr errno
    "xcp_fd_write write fd buf count"
  for "write" fd buf count
  by (rule retry_callI [OF xcp_fd_write_def]) (auto simp: retry_instance_defs split: prod.splits)

interpretation prd: retry_call "pread fd buf count offset" "\<lambda>r. 0 \<le> r" "\<lambda>r. r" again_or_eintr errno
    "xcp_fd_pread pread fd buf count offset"
  for pread fd buf count offset
  by (rule retry_callI [OF xcp_fd_pread_def]) (auto simp: retry_instance_defs split: prod.splits)

interpretation prdv: retry_call "preadv fd iovs (s32 (int iovCount)) offset" "\<lambda>r. 0 \<le> r" "\<lambda>r. r"
    again_or_eintr errno "xcp_fd_preadv preadv fd iovs iovCount offset"
  for preadv fd iovs iovCount offset
  by (rule retry_callI [OF xcp_fd_preadv_def]) (auto simp: retry_instance_defs split: prod.splits)

interpretation wt: retry_call "poll 1 timeout" "\<lambda>r. 0 \<le> r"
    "\<lambda>r. if r > 0 then XCP_ERR_OK else XCP_ERR_TIMEOUT" again_or_eintr "\<lambda>s. errno (snd s)"
    "wait_for_rdata_loop poll timeout"
  for poll timeout
  by (rule retry_callI [OF wait_for_rdata_loop_def])
    (auto simp: retry_instance_defs split: prod.splits if_splits)

lemma xcp_poll_pair:
  "(case s of (fds, \<sigma>) \<Rightarrow> xcp_poll poll fds nfds timeout \<sigma>) =
     do_while (\<lambda>s. case poll nfds timeout s of (ret, s') \<Rightarrow>
       Some (if ret > 0 then Leave ret s'
             else if ret = 0 then Leave XCP_ERR_TIMEOUT s'
             else if errno (snd s') = EAGAIN \<or> errno (snd s') = EINTR then Again s'
             else Leave XCP_ERR_ERRNO s')) s"
  by (cases s) (simp add: xcp_poll_def)

interpretation pl: retry_call "poll nfds timeout" "\<lambda>r. 0 \<le> r"
    "\<lambda>r. if r > 0 then r else XCP_ERR_TIMEOUT" again_or_eintr "\<lambda>s. errno (snd s)"
    "\<lambda>(fds, \<sigma>). xcp_poll poll fds nfds timeout \<sigma>"
  for poll nfds timeout
  by (rule retry_callI [OF xcp_poll_pair])
    (auto simp: retry_instance_defs split: prod.splits if_splits)

text \<open>The failures that the reading, writing and polling functions repeat the call after.\<close>

definition transient_failure :: "int \<times> 'k sys \<Rightarrow> bool" where
  "transient_failure c \<longleftrightarrow> fst c < 0 \<and> again_or_eintr (errno (snd c))"

definition poll_failure :: "int \<times> pollfd list \<times> 'k sys \<Rightarrow> bool" where
  "poll_failure c \<longleftrightarrow> transient_failure (fst c, snd (snd c))"

lemmas transient_defs = transient_failure_def poll_failure_def again_or_eintr_def

lemma rd_interrupted [simp]:
  "rd.interrupted read fd buf count \<sigma> \<longleftrightarrow> transient_failure (read fd buf count \<sigma>)"
  by (auto simp: rd.interrupted_def transient_failure_def)

lemma wr_interrupted [simp]:
  "wr.interrupted write fd buf count \<sigma> \<longleftrightarrow> transient_failure (write fd buf count \<sigma>)"
  by (auto simp: wr.interrupted_def transient_failure_def)

lemma pl_interrupted: "pl.interrupted poll nfds timeout s \<longleftrightarrow> poll_failure (poll nfds timeout s)"
  by (auto simp: pl.interrupted_def poll_failure_def transient_failure_def)

lemma rd_None_iff: "xcp_fd_read read fd buf count \<sigma> = None \<longleftrightarrow> never_settles (read fd buf count) transient_failure \<sigma>"
  unfolding rd.None_iff never_settles_def rd_interrupted ..

lemma wt_None_iff: "wait_for_rdata_loop poll timeout s = None \<longleftrightarrow> never_settles (poll 1 timeout) poll_failure s"
  unfolding wt.None_iff never_settles_def pl_interrupted ..

end
