(* ===== verification/Byte_Streams.thy ===== *)
theory Byte_Streams
  imports Xcp_IO
begin

text \<open>
  What the transfer loops of \<^verbatim>\<open>src/io.c\<close> rely on and what they promise. A byte source delivers
  the next bytes of a stream into memory, a byte sink takes bytes of memory to the end of a
  stream, both as much at a time as they like, and both may fail or not return. The two loops are
  proved over these interfaces; the library's own read and write functions provide them whenever the system
  calls behave as POSIX documents.
\<close>

section \<open>The interfaces\<close>

locale byte_source =
  fixes rd :: "nat \<Rightarrow> nat \<Rightarrow> 's \<Rightarrow> (XcpError \<times> 's) option"
    and memory :: "'s \<Rightarrow> nat \<Rightarrow> byte"
    and avail :: "'s \<Rightarrow> byte list"
  assumes rd_fails: "rd a n s = Some (r, s') \<Longrightarrow> r < 0 \<Longrightarrow> memory s' = memory s \<and> avail s' = avail s"
    and rd_bound: "rd a n s = Some (r, s') \<Longrightarrow> 0 \<le> r \<Longrightarrow> nat r \<le> n \<and> nat r \<le> length (avail s)"
    and rd_memory: "rd a n s = Some (r, s') \<Longrightarrow> 0 \<le> r \<Longrightarrow>
      memory s' = mem_store (memory s) a (take (nat r) (avail s))"
    and rd_avail: "rd a n s = Some (r, s') \<Longrightarrow> 0 \<le> r \<Longrightarrow> avail s' = drop (nat r) (avail s)"
    and rd_eof: "rd a n s = Some (0, s') \<Longrightarrow> 0 < n \<Longrightarrow> avail s = []"
begin

text \<open>What holds whenever the loop is at position \<open>pos\<close>, having started in \<open>s0\<close>.\<close>

definition read_so_far :: "nat \<Rightarrow> 's \<Rightarrow> nat \<times> 's \<Rightarrow> bool" where
  "read_so_far buf s0 = (\<lambda>(pos, s). pos \<le> length (avail s0) \<and>
     memory s = mem_store (memory s0) buf (take pos (avail s0)) \<and> avail s = drop pos (avail s0))"

lemma read_so_far_step:
  assumes "read_so_far buf s0 (pos, s)" and "rd (buf + pos) n s = Some (r, s')" and "0 \<le> r"
  shows "read_so_far buf s0 (pos + nat r, s')"
proof -
  from assms have pos: "pos \<le> length (avail s0)"
    and m: "memory s = mem_store (memory s0) buf (take pos (avail s0))"
    and av: "avail s = drop pos (avail s0)" by (auto simp: read_so_far_def)
  have len: "pos + nat r \<le> length (avail s0)"
    using rd_bound [OF assms(2,3)] av pos by auto
  have "memory s' = mem_store (memory s) (buf + length (take pos (avail s0))) (take (nat r) (avail s))"
    using rd_memory [OF assms(2,3)] pos by simp
  also have "\<dots> = mem_store (memory s0) buf (take pos (avail s0) @ take (nat r) (avail s))"
    by (simp only: m mem_store_append)
  also have "take pos (avail s0) @ take (nat r) (avail s) = take (pos + nat r) (avail s0)"
    by (simp add: av take_add)
  finally show ?thesis
    using len rd_avail [OF assms(2,3)] av by (simp add: read_so_far_def add.commute)
qed

lemma read_so_far_failed:
  assumes "read_so_far buf s0 (pos, s)" and "rd a n s = Some (r, s')" and "r < 0"
  shows "read_so_far buf s0 (pos, s')"
  using assms rd_fails [OF assms(2,3)] by (simp add: read_so_far_def)

text \<open>One turn of the loop, when the inner call reports the end of the stream, and when it has bytes.\<close>

lemma read_all_body_eof:
  assumes I: "read_so_far buf s0 (pos, s)" and pos: "pos < count \<or> pos = 0" "u64 (int count - int pos) = count - pos"
    and rd: "rd (buf + pos) (count - pos) s = Some (0, s')"
  shows "read_all_body rd buf count (pos, s) = Some (Leave False (pos, s'))"
    and "read_so_far buf s0 (pos, s')" and "pos = count \<or> pos = length (avail s0)"
proof -
  show "read_all_body rd buf count (pos, s) = Some (Leave False (pos, s'))"
    by (simp add: read_all_body_def pos(2) rd)
  show "read_so_far buf s0 (pos, s')" using read_so_far_step [OF I rd] by simp
  have "avail s = []" if "pos < count" using rd_eof [of "buf + pos" "count - pos" s s'] rd that by auto
  with I pos(1) show "pos = count \<or> pos = length (avail s0)"
    by (cases "pos < count") (auto simp: read_so_far_def)
qed

lemma read_all_body_more:
  assumes count: "count < 2 ^ 63" and I: "read_so_far buf s0 (pos, s)"
    and pos: "pos < count \<or> pos = 0" "u64 (int count - int pos) = count - pos"
    and rd: "rd (buf + pos) (count - pos) s = Some (r, s')" and r: "0 < r"
  shows "read_all_body rd buf count (pos, s) = Some
      (if pos + nat r < count then Again (pos + nat r, s') else Leave False (pos + nat r, s'))"
    and "read_so_far buf s0 (pos + nat r, s')" and "pos + nat r \<le> count"
proof -
  have le: "nat r \<le> count - pos" using rd_bound [OF rd] r by simp
  have "usz (pos + u64 r) = pos + nat r"
    by (rule usz_add_u64) (use r le count pos in auto)
  with r show "read_all_body rd buf count (pos, s) = Some
      (if pos + nat r < count then Again (pos + nat r, s') else Leave False (pos + nat r, s'))"
    by (simp add: read_all_body_def pos(2) rd)
  show "read_so_far buf s0 (pos + nat r, s')" using read_so_far_step [OF I rd] r by simp
  show "pos + nat r \<le> count" using le pos by auto
qed

lemma read_all_body_ok:
  assumes count: "count < 2 ^ 63" and I: "read_so_far buf s0 (pos, s)" and pos: "pos < count \<or> pos = 0"
    and body: "read_all_body rd buf count (pos, s) = Some fl"
  shows "(\<exists>failed pos' s'. fl = Leave failed (pos', s')
        \<and> read_so_far buf s0 (pos', s') \<and> pos' \<le> count
        \<and> (\<not> failed \<longrightarrow> pos' = count \<or> pos' = length (avail s0)))
      \<or> (\<exists>pos' s'. fl = Again (pos', s') \<and> read_so_far buf s0 (pos', s') \<and> pos' < count \<and> pos < pos')"
proof -
  have n: "u64 (int count - int pos) = count - pos"
    by (rule u64_diff) (use count pos in auto)
  obtain r s' where rd: "rd (buf + pos) (count - pos) s = Some (r, s')"
    using body by (auto simp: read_all_body_def n split: option.splits)
  consider "r < 0" | "r = 0" | "0 < r" by linarith
  then show ?thesis
  proof cases
    case 1
    then have "read_all_body rd buf count (pos, s) = Some (Leave True (pos, s'))"
      by (simp add: read_all_body_def n rd)
    with read_so_far_failed [OF I rd 1] pos body show ?thesis by fastforce
  next
    case 2
    from read_all_body_eof [OF I pos n rd [unfolded 2]] pos body show ?thesis by fastforce
  next
    case 3
    from read_all_body_more [OF count I pos n rd 3] 3 body show ?thesis
      by (cases "pos + nat r < count") auto
  qed
qed

text \<open>The states in which the loop stands before its body.\<close>

definition reading :: "nat \<Rightarrow> nat \<Rightarrow> 's \<Rightarrow> nat \<times> 's \<Rightarrow> bool" where
  "reading buf count s0 t \<longleftrightarrow> read_so_far buf s0 t \<and> (fst t < count \<or> fst t = 0)"

lemma reading_start: "reading buf count s (0, s)"
  by (simp add: reading_def read_so_far_def)

lemma reading_again:
  assumes "count < 2 ^ 63" "reading buf count s0 t" "read_all_body rd buf count t = Some (Again t')"
  shows "reading buf count s0 t' \<and> count - fst t' < count - fst t"
proof (cases t)
  case (Pair pos s)
  with assms show ?thesis
    using read_all_body_ok [of count buf s0 pos s "Again t'"] by (auto simp: reading_def)
qed

lemma reading_leave:
  assumes "count < 2 ^ 63" "reading buf count s0 t" "read_all_body rd buf count t = Some (Leave failed t')"
  shows "read_so_far buf s0 t' \<and> fst t' \<le> count
    \<and> (\<not> failed \<longrightarrow> fst t' = count \<or> fst t' = length (avail s0))"
proof (cases t)
  case (Pair pos s)
  with assms show ?thesis
    using read_all_body_ok [of count buf s0 pos s "Leave failed t'"] by (auto simp: reading_def)
qed

text \<open>
  When the loop returns, it has put the next bytes of the stream into the buffer and nowhere
  else, has consumed exactly those, and tells how many; without an error it stops only when the
  buffer is full or the stream at its end.
\<close>

lemma read_all_loop_ok:
  assumes "count < 2 ^ 63" and "read_all_loop rd buf count offset s = Some (r, offset', s')"
  shows "\<exists>n. offset' = store_out offset n \<and> n \<le> count \<and> n \<le> length (avail s)
    \<and> memory s' = mem_store (memory s) buf (take n (avail s)) \<and> avail s' = drop n (avail s)
    \<and> (r = XCP_ERR_ERRNO \<or> r = int n \<and> n = min count (length (avail s)))"
proof -
  from assms(2) obtain failed n where run: "do_while (read_all_body rd buf count) (0, s) = Some (failed, n, s')"
    and r: "r = (if failed then XCP_ERR_ERRNO else s64 (int n))" "offset' = store_out offset n"
    by (auto simp: read_all_loop_def split: option.splits)
  have "read_so_far buf s (n, s') \<and> fst (n, s') \<le> count
      \<and> (\<not> failed \<longrightarrow> fst (n, s') = count \<or> fst (n, s') = length (avail s))"
    by (rule do_while_partial [OF run, where I = "reading buf count s"])
      (use reading_start reading_again [OF assms(1)] reading_leave [OF assms(1)] in blast)+
  then have post: "read_so_far buf s (n, s')" "n \<le> count" "\<not> failed \<longrightarrow> n = count \<or> n = length (avail s)"
    by simp_all
  from post(2) assms(1) have "s64 (int n) = int n" by (simp add: s64_def)
  with post r show ?thesis
    by (intro exI [of _ n]) (auto simp: read_so_far_def)
qed

text \<open>It does not return only when one of its reads does not.\<close>

lemma read_all_loop_None_iff:
  assumes "count < 2 ^ 63"
  shows "read_all_loop rd buf count offset s = None \<longleftrightarrow>
    (\<exists>n t. goes_round (read_all_body rd buf count) (0, s) (n, t) \<and> rd (buf + n) (count - n) t = None)"
proof -
  have "read_all_loop rd buf count offset s = None \<longleftrightarrow> do_while (read_all_body rd buf count) (0, s) = None"
    by (auto simp: read_all_loop_def split: option.splits)
  also have "\<dots> \<longleftrightarrow> (\<exists>t. goes_round (read_all_body rd buf count) (0, s) t \<and> read_all_body rd buf count t = None)"
    by (rule do_while_None_iff [where I = "reading buf count s" and \<mu> = "\<lambda>t. count - fst t"])
      (auto simp: reading_start dest: reading_again [OF assms])
  also have "\<dots> \<longleftrightarrow> (\<exists>n t. goes_round (read_all_body rd buf count) (0, s) (n, t) \<and> rd (buf + n) (count - n) t = None)"
  proof -
    have "read_all_body rd buf count (n, t) = None \<longleftrightarrow> rd (buf + n) (count - n) t = None"
      if "goes_round (read_all_body rd buf count) (0, s) (n, t)" for n t
    proof -
      have "reading buf count s (n, t)"
        using goes_round_keeps [OF that, where I = "reading buf count s"] reading_start reading_again [OF assms]
        by blast
      then have "u64 (int count - int n) = count - n"
        using assms by (intro u64_diff) (auto simp: reading_def)
      then show ?thesis by (auto simp: read_all_body_def Let_def split: option.splits)
    qed
    then show ?thesis by auto
  qed
  finally show ?thesis .
qed

end

locale byte_sink =
  fixes wr :: "nat \<Rightarrow> nat \<Rightarrow> 's \<Rightarrow> (XcpError \<times> 's) option"
    and memory :: "'s \<Rightarrow> nat \<Rightarrow> byte"
    and sent :: "'s \<Rightarrow> byte list"
  assumes wr_memory: "wr a n s = Some (r, s') \<Longrightarrow> memory s' = memory s"
    and wr_fails: "wr a n s = Some (r, s') \<Longrightarrow> r < 0 \<Longrightarrow> sent s' = sent s"
    and wr_bound: "wr a n s = Some (r, s') \<Longrightarrow> 0 \<le> r \<Longrightarrow> nat r \<le> n"
    and wr_sent: "wr a n s = Some (r, s') \<Longrightarrow> 0 \<le> r \<Longrightarrow>
      sent s' = sent s @ mem_bytes (memory s) a (nat r)"
begin

definition written_so_far :: "nat \<Rightarrow> 's \<Rightarrow> nat \<times> 's \<Rightarrow> bool" where
  "written_so_far buf s0 = (\<lambda>(pos, s). memory s = memory s0 \<and>
     sent s = sent s0 @ mem_bytes (memory s0) buf pos)"

lemma written_so_far_step:
  assumes "written_so_far buf s0 (pos, s)" and "wr (buf + pos) n s = Some (r, s')" and "0 \<le> r"
  shows "written_so_far buf s0 (pos + nat r, s')"
  using assms wr_sent [OF assms(2,3)] wr_memory [OF assms(2)]
  by (simp add: written_so_far_def mem_bytes_add)

lemma written_so_far_failed:
  assumes "written_so_far buf s0 (pos, s)" and "wr a n s = Some (r, s')" and "r < 0"
  shows "written_so_far buf s0 (pos, s')"
  using assms wr_fails [OF assms(2,3)] wr_memory [OF assms(2)] by (simp add: written_so_far_def)

lemma write_all_body_ok:
  assumes count: "count < 2 ^ 63" and I: "written_so_far buf s0 (pos, s)" and pos: "pos < count \<or> pos = 0"
    and body: "write_all_body wr buf count (pos, s) = Some fl"
  shows "(\<exists>failed pos' s'. fl = Leave failed (pos', s')
        \<and> written_so_far buf s0 (pos', s') \<and> pos' \<le> count \<and> (\<not> failed \<longrightarrow> pos' = count))
      \<or> (\<exists>pos' s'. fl = Again (pos', s') \<and> written_so_far buf s0 (pos', s') \<and> pos' < count \<and> pos \<le> pos')"
proof -
  have n: "u64 (int count - int pos) = count - pos"
    by (rule u64_diff) (use count pos in auto)
  obtain r s' where wr: "wr (buf + pos) (count - pos) s = Some (r, s')"
    using body by (auto simp: write_all_body_def n split: option.splits)
  show ?thesis
  proof (cases "r < 0")
    case True
    then have "write_all_body wr buf count (pos, s) = Some (Leave True (pos, s'))"
      by (simp add: write_all_body_def n wr)
    with written_so_far_failed [OF I wr True] pos body show ?thesis by fastforce
  next
    case False
    then have le: "nat r \<le> count - pos" using wr_bound [OF wr] by simp
    have step: "usz (pos + u64 r) = pos + nat r"
      by (rule usz_add_u64) (use False le count pos in auto)
    have I': "written_so_far buf s0 (pos + nat r, s')"
      using written_so_far_step [OF I wr] False by simp
    have "write_all_body wr buf count (pos, s) =
        Some (if pos + nat r < count then Again (pos + nat r, s') else Leave False (pos + nat r, s'))"
      using False by (simp add: write_all_body_def n wr step)
    with body have fl: "fl = (if pos + nat r < count then Again (pos + nat r, s') else Leave False (pos + nat r, s'))"
      by simp
    show ?thesis
    proof (cases "pos + nat r < count")
      case True
      with fl I' show ?thesis by auto
    next
      case False
      with le pos have "pos + nat r = count" by auto
      with fl I' show ?thesis by auto
    qed
  qed
qed

text \<open>The states in which the loop stands before its body.\<close>

definition writing :: "nat \<Rightarrow> nat \<Rightarrow> 's \<Rightarrow> nat \<times> 's \<Rightarrow> bool" where
  "writing buf count s0 t \<longleftrightarrow> written_so_far buf s0 t \<and> (fst t < count \<or> fst t = 0)"

lemma writing_start: "writing buf count s (0, s)"
  by (simp add: writing_def written_so_far_def)

lemma writing_again:
  assumes "count < 2 ^ 63" "writing buf count s0 t" "write_all_body wr buf count t = Some (Again t')"
  shows "writing buf count s0 t' \<and> fst t \<le> fst t'"
proof (cases t)
  case (Pair pos s)
  with assms show ?thesis
    using write_all_body_ok [of count buf s0 pos s "Again t'"] by (auto simp: writing_def)
qed

lemma writing_leave:
  assumes "count < 2 ^ 63" "writing buf count s0 t" "write_all_body wr buf count t = Some (Leave failed t')"
  shows "written_so_far buf s0 t' \<and> fst t' \<le> count \<and> (\<not> failed \<longrightarrow> fst t' = count)"
proof (cases t)
  case (Pair pos s)
  with assms show ?thesis
    using write_all_body_ok [of count buf s0 pos s "Leave failed t'"] by (auto simp: writing_def)
qed

text \<open>
  When the loop returns, it has left memory alone and has appended to the stream exactly the part of
  the buffer it reports; without an error that is the whole buffer.
\<close>

lemma write_all_loop_ok:
  assumes "count < 2 ^ 63" and "write_all_loop wr buf count offset s = Some (r, offset', s')"
  shows "\<exists>n. offset' = store_out offset n \<and> n \<le> count \<and> memory s' = memory s
    \<and> sent s' = sent s @ mem_bytes (memory s) buf n \<and> (r = XCP_ERR_ERRNO \<or> r = int count \<and> n = count)"
proof -
  from assms(2) obtain failed n where run: "do_while (write_all_body wr buf count) (0, s) = Some (failed, n, s')"
    and r: "r = (if failed then XCP_ERR_ERRNO else s64 (int n))" "offset' = store_out offset n"
    by (auto simp: write_all_loop_def split: option.splits)
  have "written_so_far buf s (n, s') \<and> fst (n, s') \<le> count \<and> (\<not> failed \<longrightarrow> fst (n, s') = count)"
    by (rule do_while_partial [OF run, where I = "writing buf count s"])
      (use writing_start writing_again [OF assms(1)] writing_leave [OF assms(1)] in blast)+
  then have post: "written_so_far buf s (n, s')" "n \<le> count" "\<not> failed \<longrightarrow> n = count"
    by simp_all
  from post(2) assms(1) have "s64 (int n) = int n" by (simp add: s64_def)
  with post r show ?thesis
    by (intro exI [of _ n]) (auto simp: written_so_far_def)
qed

end

end
