(* ===== verification/Fd_Transfer.thy ===== *)
theory Fd_Transfer
  imports Byte_Streams
begin

text \<open>
  The bulk transfers of \<^verbatim>\<open>src/io.c\<close> over descriptors that behave as POSIX documents: the
  contracts of \<^verbatim>\<open>read\<close>, \<^verbatim>\<open>write\<close> and \<^verbatim>\<open>poll\<close>, the proof that the library's own read and write
  functions then provide the byte stream interfaces, and exactly when the transfers do not return.
\<close>

section \<open>Contracts of the system calls\<close>

text \<open>
  \<open>avail\<close> is the rest of the stream behind the descriptor and \<open>sent\<close> what has been put into it. A
  call may fail at any time and as often as it likes; nothing bounds the transient failures, and
  \<^verbatim>\<open>write\<close> may take no byte at all. Whether a function returns is therefore part of what is proved
  of it: exactly unless its calls fail transiently (or write nothing) for ever.
\<close>

definition delivered ::
  "('k \<Rightarrow> byte list) \<Rightarrow> nat \<Rightarrow> nat \<Rightarrow> 'k sys \<Rightarrow> int \<Rightarrow> 'k sys \<Rightarrow> bool" where
  "delivered avail a n \<sigma> r \<sigma>' \<longleftrightarrow>
     (if r < 0 then mem \<sigma>' = mem \<sigma> \<and> avail (kern \<sigma>') = avail (kern \<sigma>)
      else nat r \<le> n \<and> nat r \<le> length (avail (kern \<sigma>))
        \<and> mem \<sigma>' = mem_store (mem \<sigma>) a (take (nat r) (avail (kern \<sigma>)))
        \<and> avail (kern \<sigma>') = drop (nat r) (avail (kern \<sigma>))
        \<and> (r = 0 \<and> 0 < n \<longrightarrow> avail (kern \<sigma>) = []))"

definition accepted ::
  "('k \<Rightarrow> byte list) \<Rightarrow> nat \<Rightarrow> nat \<Rightarrow> 'k sys \<Rightarrow> int \<Rightarrow> 'k sys \<Rightarrow> bool" where
  "accepted sent a n \<sigma> r \<sigma>' \<longleftrightarrow> mem \<sigma>' = mem \<sigma> \<and>
     (if r < 0 then sent (kern \<sigma>') = sent (kern \<sigma>)
      else nat r \<le> n \<and> sent (kern \<sigma>') = sent (kern \<sigma>) @ mem_bytes (mem \<sigma>) a (nat r))"

definition read_contract :: "'k buf_call \<Rightarrow> int \<Rightarrow> ('k \<Rightarrow> byte list) \<Rightarrow> bool" where
  "read_contract read fd avail \<longleftrightarrow> (\<forall>a n \<sigma>.
     delivered avail a n \<sigma> (fst (read fd a n \<sigma>)) (snd (read fd a n \<sigma>)))"

definition write_contract :: "'k buf_call \<Rightarrow> int \<Rightarrow> ('k \<Rightarrow> byte list) \<Rightarrow> bool" where
  "write_contract write fd sent \<longleftrightarrow> (\<forall>a n \<sigma>.
     accepted sent a n \<sigma> (fst (write fd a n \<sigma>)) (snd (write fd a n \<sigma>)))"

definition poll_contract :: "'k poll_call \<Rightarrow> ('k \<Rightarrow> byte list) \<Rightarrow> bool" where
  "poll_contract poll avail \<longleftrightarrow> (\<forall>nfds timeout s.
     mem (snd (snd (poll nfds timeout s))) = mem (snd s) \<and>
     avail (kern (snd (snd (poll nfds timeout s)))) = avail (kern (snd s)))"

section \<open>Transfers that never end\<close>

text \<open>
  \<^verbatim>\<open>xcp_fd_wait_read\<close> starves when its calls to \<^verbatim>\<open>poll\<close> fail transiently for ever, or its calls to
  \<^verbatim>\<open>read\<close> do after the wait (if there is one) has reported data.
\<close>

definition waits_to :: "'k poll_call \<Rightarrow> int \<Rightarrow> int \<Rightarrow> 'k sys \<Rightarrow> 'k sys \<Rightarrow> bool" where
  "waits_to poll fd timeout \<sigma> \<sigma>1 \<longleftrightarrow>
     (if timeout = 0 then \<sigma>1 = \<sigma> else xcp_fd_wait_for_rdata poll fd timeout \<sigma> = Some (XCP_ERR_OK, \<sigma>1))"

definition read_starves ::
  "'k poll_call \<Rightarrow> 'k buf_call \<Rightarrow> int \<Rightarrow> nat \<Rightarrow> nat \<Rightarrow> int \<Rightarrow> 'k sys \<Rightarrow> bool" where
  "read_starves poll read fd a n timeout \<sigma> \<longleftrightarrow>
     timeout \<noteq> 0 \<and> never_settles (poll 1 timeout) poll_failure
       ([\<lparr>pfd_fd = fd, pfd_events = POLLIN, pfd_revents = 0\<rparr>], \<sigma>) \<or>
     (\<exists>\<sigma>1. waits_to poll fd timeout \<sigma> \<sigma>1 \<and> never_settles (read fd a n) transient_failure \<sigma>1)"

lemma wait_read_None_iff:
  "xcp_fd_wait_read poll read fd a n timeout \<sigma> = None \<longleftrightarrow> read_starves poll read fd a n timeout \<sigma>"
  unfolding xcp_fd_wait_read_def read_starves_def waits_to_def xcp_fd_wait_for_rdata_def
    rd_None_iff [symmetric] wt_None_iff [symmetric]
  by (auto split: option.splits if_splits)

text \<open>\<^verbatim>\<open>xcp_fd_read_all\<close> starves when, after some rounds, its next read does.\<close>

definition read_all_starves ::
  "'k poll_call \<Rightarrow> 'k buf_call \<Rightarrow> int \<Rightarrow> nat \<Rightarrow> nat \<Rightarrow> int \<Rightarrow> 'k sys \<Rightarrow> bool" where
  "read_all_starves poll read fd buf count timeout \<sigma> \<longleftrightarrow> (\<exists>n \<tau>.
     goes_round (read_all_body (\<lambda>a n. xcp_fd_wait_read poll read fd a n timeout) buf count) (0, \<sigma>) (n, \<tau>) \<and>
     read_starves poll read fd (buf + n) (count - n) timeout \<tau>)"

text \<open>
  \<^verbatim>\<open>xcp_fd_write_all\<close> stalls when, after some rounds, every further call to \<^verbatim>\<open>write\<close> fails transiently
  or takes nothing of the bytes that are left.
\<close>

definition stalled :: "nat \<Rightarrow> int \<times> 'k sys \<Rightarrow> bool" where
  "stalled n c \<longleftrightarrow> transient_failure c \<or> fst c = 0 \<and> 0 < n"

definition write_all_stalls :: "'k buf_call \<Rightarrow> int \<Rightarrow> nat \<Rightarrow> nat \<Rightarrow> 'k sys \<Rightarrow> bool" where
  "write_all_stalls write fd buf count \<sigma> \<longleftrightarrow> (\<exists>n \<tau>.
     goes_round (write_all_body (\<lambda>a n. xcp_fd_write write fd a n) buf count) (0, \<sigma>) (n, \<tau>) \<and>
     never_settles (write fd (buf + n) (count - n)) (stalled (count - n)) \<tau>)"

text \<open>Neither happens when every transient failure uses something up and every \<^verbatim>\<open>write\<close> takes a byte.\<close>

lemma read_all_starves_not:
  fixes patience :: "'k \<Rightarrow> nat"
  assumes "\<And>a n \<sigma>. transient_failure (read fd a n \<sigma>) \<Longrightarrow> patience (kern (snd (read fd a n \<sigma>))) < patience (kern \<sigma>)"
    and "\<And>s. poll_failure (poll 1 timeout s) \<Longrightarrow> patience (kern (snd (snd (poll 1 timeout s)))) < patience (kern (snd s))"
  shows "\<not> read_all_starves poll read fd buf count timeout \<sigma>"
proof -
  have "\<not> never_settles (read fd a n) transient_failure \<tau>" for a n \<tau>
    by (rule settles_if_tired [where \<mu> = "\<lambda>\<tau>. patience (kern \<tau>)"]) (rule assms)
  moreover have "\<not> never_settles (poll 1 timeout) poll_failure s" for s
    by (rule settles_if_tired [where \<mu> = "\<lambda>s. patience (kern (snd s))"]) (rule assms)
  ultimately show ?thesis by (simp add: read_all_starves_def read_starves_def)
qed

lemma write_all_stalls_not:
  fixes patience :: "'k \<Rightarrow> nat"
  assumes "\<And>a n \<sigma>. stalled n (write fd a n \<sigma>) \<Longrightarrow> patience (kern (snd (write fd a n \<sigma>))) < patience (kern \<sigma>)"
  shows "\<not> write_all_stalls write fd buf count \<sigma>"
proof -
  have "\<not> never_settles (write fd a n) (stalled n) \<tau>" for a n \<tau>
    by (rule settles_if_tired [where \<mu> = "\<lambda>\<tau>. patience (kern \<tau>)"]) (rule assms)
  then show ?thesis by (simp add: write_all_stalls_def)
qed

section \<open>The library's calls provide the stream interfaces\<close>

locale posix_source =
  fixes read :: "'k buf_call"
    and poll :: "'k poll_call"
    and fd :: int
    and avail :: "'k \<Rightarrow> byte list"
  assumes read_ok: "read_contract read fd avail"
    and poll_ok: "poll_contract poll avail"
begin

lemma xcp_fd_read_delivers:
  assumes "xcp_fd_read read fd a n \<sigma> = Some (r, \<sigma>')"
  shows "delivered avail a n \<sigma> r \<sigma>'"
proof (rule rd.partial [OF assms, where I = "\<lambda>\<tau>. mem \<tau> = mem \<sigma> \<and> avail (kern \<tau>) = avail (kern \<sigma>)"])
  fix \<tau> :: "'k sys"
  assume I: "mem \<tau> = mem \<sigma> \<and> avail (kern \<tau>) = avail (kern \<sigma>)"
  note c = read_ok [unfolded read_contract_def, THEN spec, of a, THEN spec, of n, THEN spec, of \<tau>]
  show "mem (snd (read fd a n \<tau>)) = mem \<sigma> \<and> avail (kern (snd (read fd a n \<tau>))) = avail (kern \<sigma>)"
    if "rd.interrupted read fd a n \<tau>"
    using that c I by (simp add: transient_failure_def delivered_def)
  show "delivered avail a n \<sigma> (rd.answer (fst (read fd a n \<tau>))) (snd (read fd a n \<tau>))"
    using c I by (auto simp: rd.answer_def delivered_def xcp_err_defs split: if_splits)
qed simp

lemma wait_keeps:
  assumes "xcp_fd_wait_for_rdata poll fd timeout \<sigma> = Some (r, \<sigma>')"
  shows "mem \<sigma>' = mem \<sigma> \<and> avail (kern \<sigma>') = avail (kern \<sigma>) \<and> (r = XCP_ERR_OK \<or> r < 0)"
proof -
  from assms obtain fds where "wait_for_rdata_loop poll timeout
      ([\<lparr>pfd_fd = fd, pfd_events = POLLIN, pfd_revents = 0\<rparr>], \<sigma>) = Some (r, fds, \<sigma>')"
    by (auto simp: xcp_fd_wait_for_rdata_def split: option.splits)
  then have "mem (snd (fds, \<sigma>')) = mem \<sigma> \<and> avail (kern (snd (fds, \<sigma>'))) = avail (kern \<sigma>) \<and>
      (r = XCP_ERR_OK \<or> r < 0)"
  proof (rule wt.partial [where I = "\<lambda>t. mem (snd t) = mem \<sigma> \<and> avail (kern (snd t)) = avail (kern \<sigma>)"])
    fix t :: "pollfd list \<times> 'k sys"
    assume I: "mem (snd t) = mem \<sigma> \<and> avail (kern (snd t)) = avail (kern \<sigma>)"
    note c = poll_ok [unfolded poll_contract_def, THEN spec, of 1, THEN spec, of timeout, THEN spec, of t]
    show "mem (snd (snd (poll 1 timeout t))) = mem \<sigma> \<and>
        avail (kern (snd (snd (poll 1 timeout t)))) = avail (kern \<sigma>)"
      using c I by simp
    then show "mem (snd (snd (poll 1 timeout t))) = mem \<sigma> \<and>
        avail (kern (snd (snd (poll 1 timeout t)))) = avail (kern \<sigma>) \<and>
        (wt.answer (fst (poll 1 timeout t)) = XCP_ERR_OK \<or> wt.answer (fst (poll 1 timeout t)) < 0)"
      by (auto simp: wt.answer_def xcp_err_defs)
  qed simp
  then show ?thesis by simp
qed

lemma wait_read_is_delivered:
  assumes "xcp_fd_wait_read poll read fd a n timeout \<sigma> = Some (r, \<sigma>')"
  shows "delivered avail a n \<sigma> r \<sigma>'"
proof (cases "timeout = 0")
  case True
  then show ?thesis using assms xcp_fd_read_delivers by (simp add: xcp_fd_wait_read_def)
next
  case False
  with assms obtain w \<sigma>1 where w: "xcp_fd_wait_for_rdata poll fd timeout \<sigma> = Some (w, \<sigma>1)"
    by (auto simp: xcp_fd_wait_read_def split: option.splits)
  with wait_keeps have keep: "mem \<sigma>1 = mem \<sigma>" "avail (kern \<sigma>1) = avail (kern \<sigma>)" "w = XCP_ERR_OK \<or> w < 0"
    by blast+
  show ?thesis
  proof (cases "w = XCP_ERR_OK")
    case True
    with assms w False have "delivered avail a n \<sigma>1 r \<sigma>'"
      by (auto simp: xcp_fd_wait_read_def intro: xcp_fd_read_delivers)
    then show ?thesis unfolding delivered_def keep(1,2) .
  next
    case no: False
    with assms keep w False show ?thesis by (auto simp: xcp_fd_wait_read_def delivered_def)
  qed
qed

end

sublocale posix_source \<subseteq> src: byte_source "\<lambda>a n. xcp_fd_wait_read poll read fd a n timeout"
    mem "\<lambda>\<sigma>. avail (kern \<sigma>)"
  for timeout
  by unfold_locales (auto dest!: wait_read_is_delivered simp: delivered_def)

locale posix_sink =
  fixes "write" :: "'k buf_call"
    and fd :: int
    and sent :: "'k \<Rightarrow> byte list"
  assumes write_ok: "write_contract write fd sent"
begin

lemma write_is_accepted:
  assumes "xcp_fd_write write fd a n \<sigma> = Some (r, \<sigma>')"
  shows "accepted sent a n \<sigma> r \<sigma>'"
proof (rule wr.partial [OF assms, where I = "\<lambda>\<tau>. mem \<tau> = mem \<sigma> \<and> sent (kern \<tau>) = sent (kern \<sigma>)"])
  fix \<tau> :: "'k sys"
  assume I: "mem \<tau> = mem \<sigma> \<and> sent (kern \<tau>) = sent (kern \<sigma>)"
  note c = write_ok [unfolded write_contract_def, THEN spec, of a, THEN spec, of n, THEN spec, of \<tau>]
  show "mem (snd (write fd a n \<tau>)) = mem \<sigma> \<and> sent (kern (snd (write fd a n \<tau>))) = sent (kern \<sigma>)"
    if "wr.interrupted write fd a n \<tau>"
    using that c I by (simp add: transient_failure_def accepted_def)
  show "accepted sent a n \<sigma> (wr.answer (fst (write fd a n \<tau>))) (snd (write fd a n \<tau>))"
    using c I by (auto simp: wr.answer_def accepted_def xcp_err_defs split: if_splits)
qed simp

end

sublocale posix_sink \<subseteq> snk: byte_sink "\<lambda>a n. xcp_fd_write write fd a n" mem "\<lambda>\<sigma>. sent (kern \<sigma>)"
  by unfold_locales (auto dest!: write_is_accepted simp: accepted_def split: if_splits)

section \<open>When \<^verbatim>\<open>xcp_fd_write_all\<close> does not return\<close>

context posix_sink begin

abbreviation body :: "nat \<Rightarrow> nat \<Rightarrow> nat \<times> 'k sys \<Rightarrow> (bool, nat \<times> 'k sys) flow option" where
  "body buf count \<equiv> write_all_body (\<lambda>a n. xcp_fd_write write fd a n) buf count"

lemma body_at:
  assumes "count < 2 ^ 63" and "n < count \<or> n = 0"
  shows "body buf count (n, \<tau>) =
    (case xcp_fd_write write fd (buf + n) (count - n) \<tau> of None \<Rightarrow> None
     | Some (r, \<tau>') \<Rightarrow> Some (if r < 0 then Leave True (n, \<tau>') else
         if n + nat r < count then Again (n + nat r, \<tau>') else Leave False (n + nat r, \<tau>')))"
proof -
  have "u64 (int count - int n) = count - n" by (rule u64_diff) (use assms in auto)
  moreover have "usz (n + u64 r) = n + nat r"
    if "xcp_fd_write write fd (buf + n) (count - n) \<tau> = Some (r, \<tau>')" "0 \<le> r" for r \<tau>'
    by (rule usz_add_u64) (use snk.wr_bound [OF that] that(2) assms in auto)
  ultimately show ?thesis by (auto simp: write_all_body_def Let_def split: option.splits)
qed

text \<open>A call that stalls leaves the loop where it was, in the state of that call.\<close>

lemma body_transient:
  assumes "count < 2 ^ 63" and "n < count \<or> n = 0" and "transient_failure (write fd (buf + n) (count - n) \<tau>)"
  shows "body buf count (n, \<tau>) = body buf count (n, snd (write fd (buf + n) (count - n) \<tau>))"
  using assms wr.is_interrupted [of "write" fd "buf + n" "count - n" \<tau>] by (simp add: body_at)

lemma body_settled:
  assumes "count < 2 ^ 63" and "n < count \<or> n = 0" and "\<not> transient_failure (write fd (buf + n) (count - n) \<tau>)"
  shows "body buf count (n, \<tau>) = (case write fd (buf + n) (count - n) \<tau> of (r, \<tau>') \<Rightarrow>
     Some (if r < 0 then Leave True (n, \<tau>') else
       if n + nat r < count then Again (n + nat r, \<tau>') else Leave False (n + nat r, \<tau>')))"
proof -
  obtain r \<tau>' where call: "write fd (buf + n) (count - n) \<tau> = (r, \<tau>')" by fastforce
  with assms(3) have "xcp_fd_write write fd (buf + n) (count - n) \<tau> =
      Some (if 0 \<le> r then r else XCP_ERR_ERRNO, \<tau>')"
    using wr.not_interrupted [of "write" fd "buf + n" "count - n" \<tau>] by (simp add: wr.answer_def)
  then show ?thesis by (simp add: body_at [OF assms(1,2)] call XCP_ERR_ERRNO_def)
qed

text \<open>If a call settles in the end, the loop reaches a round that leaves it or gets it further.\<close>

lemma settles_to:
  assumes count: "count < 2 ^ 63" and n: "n < count \<or> n = 0"
    and "settled_call (write fd (buf + n) (count - n)) (stalled (count - n)) \<tau> i"
  shows "\<exists>t fl. goes_round (body buf count) (n, \<tau>) t \<and> body buf count t = Some fl \<and>
    (case fl of Leave _ _ \<Rightarrow> True | Again t' \<Rightarrow> n < fst t' \<and> fst t' < count)"
  using assms(3)
proof (induction i arbitrary: \<tau>)
  case 0
  then have "\<not> transient_failure (write fd (buf + n) (count - n) \<tau>)"
    "fst (write fd (buf + n) (count - n) \<tau>) = 0 \<Longrightarrow> count \<le> n"
    by (auto simp: settled_call_0 stalled_def)
  with body_settled [OF count n this(1)] show ?case
    by (intro exI [of _ "(n, \<tau>)"]) (force simp: goes_round_refl split: prod.splits)
next
  case (Suc i)
  let ?next = "snd (write fd (buf + n) (count - n) \<tau>)"
  from Suc.prems have stall: "stalled (count - n) (write fd (buf + n) (count - n) \<tau>)"
    and "settled_call (write fd (buf + n) (count - n)) (stalled (count - n)) ?next i"
    by (auto simp: settled_call_Suc)
  from Suc.IH [OF this(2)] obtain t fl where t: "goes_round (body buf count) (n, ?next) t"
      "body buf count t = Some fl" "case fl of Leave _ _ \<Rightarrow> True | Again t' \<Rightarrow> n < fst t' \<and> fst t' < count"
    by (elim exE conjE)
  show ?case
  proof (cases "transient_failure (write fd (buf + n) (count - n) \<tau>)")
    case True
    from goes_round_same_body [OF t(1) body_transient [OF count n True]]
    obtain u where "goes_round (body buf count) (n, \<tau>) u" "body buf count u = body buf count t" by (elim exE conjE)
    with t(2,3) show ?thesis by (intro exI [of _ u] exI [of _ fl]) simp
  next
    case False
    with stall have "body buf count (n, \<tau>) = Some (Again (n, ?next))"
      by (auto simp: body_settled [OF count n False] stalled_def split: prod.splits)
    from goes_round_step [of "body buf count", OF this t(1)] t(2,3) show ?thesis
      by (intro exI [of _ t] exI [of _ fl]) simp
  qed
qed

lemma never_settles_stuck:
  assumes count: "count < 2 ^ 63" and n: "n < count \<or> n = 0"
    and never: "never_settles (write fd (buf + n) (count - n)) (stalled (count - n)) \<tau>"
  shows "do_while (body buf count) (n, \<tau>) = None"
proof (rule do_while_diverges [where I = "\<lambda>t. fst t = n \<and>
      never_settles (write fd (buf + n) (count - n)) (stalled (count - n)) (snd t)"])
  show "fst (n, \<tau>) = n \<and> never_settles (write fd (buf + n) (count - n)) (stalled (count - n)) (snd (n, \<tau>))"
    using never by simp
next
  fix t assume "fst t = n \<and> never_settles (write fd (buf + n) (count - n)) (stalled (count - n)) (snd t)"
  then obtain \<upsilon> where t: "t = (n, \<upsilon>)"
    and never: "never_settles (write fd (buf + n) (count - n)) (stalled (count - n)) \<upsilon>" by (cases t) auto
  show "body buf count t = None \<or> (\<exists>t'. body buf count t = Some (Again t') \<and> fst t' = n \<and>
      never_settles (write fd (buf + n) (count - n)) (stalled (count - n)) (snd t'))"
  proof (cases "xcp_fd_write write fd (buf + n) (count - n) \<upsilon>")
    case None
    then show ?thesis by (simp add: t body_at [OF count n])
  next
    case (Some rt)
    then obtain r \<upsilon>' i where run: "xcp_fd_write write fd (buf + n) (count - n) \<upsilon> = Some (r, \<upsilon>')"
      and i: "\<not> transient_failure (write fd (buf + n) (count - n) (after_calls (write fd (buf + n) (count - n)) i \<upsilon>))"
        "r = wr.answer (fst (write fd (buf + n) (count - n) (after_calls (write fd (buf + n) (count - n)) i \<upsilon>)))"
        "\<upsilon>' = after_calls (write fd (buf + n) (count - n)) (Suc i) \<upsilon>"
      by (metis wr.returns_iff wr_interrupted prod.exhaust)
    from never i(1) have "fst (write fd (buf + n) (count - n) (after_calls (write fd (buf + n) (count - n)) i \<upsilon>)) = 0"
      and pos: "n < count" by (auto simp: never_settles_def stalled_def)
    with i(2) have "r = 0" by (simp add: wr.answer_def)
    with run pos have "body buf count t = Some (Again (n, \<upsilon>'))" by (simp add: t body_at [OF count n])
    moreover have "never_settles (write fd (buf + n) (count - n)) (stalled (count - n)) \<upsilon>'"
      unfolding i(3) by (rule never_settles_later [OF never])
    ultimately show ?thesis by simp
  qed
qed

lemma stuck_never_settles:
  assumes count: "count < 2 ^ 63" and "fst t < count \<or> fst t = 0" and "do_while (body buf count) t = None"
  shows "\<exists>n \<tau>. goes_round (body buf count) t (n, \<tau>) \<and>
    never_settles (write fd (buf + n) (count - n)) (stalled (count - n)) \<tau>"
  using assms(2,3)
proof (induction "count - fst t" arbitrary: t rule: less_induct)
  case less
  obtain n \<tau> where t: "t = (n, \<tau>)" by (cases t)
  show ?case
  proof (cases "never_settles (write fd (buf + n) (count - n)) (stalled (count - n)) \<tau>")
    case True
    then show ?thesis using t goes_round_refl by metis
  next
    case False
    from settled_call_ex [OF this]
    obtain i where i: "settled_call (write fd (buf + n) (count - n)) (stalled (count - n)) \<tau> i" ..
    have "n < count \<or> n = 0" using less.prems(1) by (simp add: t)
    from settles_to [OF count this i] obtain u fl where u: "goes_round (body buf count) t u"
      "body buf count u = Some fl" "case fl of Leave _ _ \<Rightarrow> True | Again t' \<Rightarrow> n < fst t' \<and> fst t' < count"
      unfolding t by (elim exE conjE)
    have none: "do_while (body buf count) u = None"
      using less.prems(2) do_while_goes_round [OF u(1)] by simp
    with u(2,3) obtain t' where t': "body buf count u = Some (Again t')" "n < fst t'" "fst t' < count"
      by (cases fl) (auto simp: do_while_Leave)
    then have "do_while (body buf count) t' = None" using none by (simp add: do_while_Again)
    moreover have "count - fst t' < count - fst t" using t'(2,3) by (simp add: t)
    ultimately obtain m \<upsilon> where "goes_round (body buf count) t' (m, \<upsilon>)"
      "never_settles (write fd (buf + m) (count - m)) (stalled (count - m)) \<upsilon>"
      using less.hyps [of t'] t'(3) by blast
    with u(1) t'(1) show ?thesis by (blast intro: goes_round_trans goes_round_step)
  qed
qed

lemma write_all_None_iff:
  assumes "count < 2 ^ 63"
  shows "xcp_fd_write_all write fd buf count offset \<sigma> = None \<longleftrightarrow> write_all_stalls write fd buf count \<sigma>"
proof -
  have "xcp_fd_write_all write fd buf count offset \<sigma> = None \<longleftrightarrow> do_while (body buf count) (0, \<sigma>) = None"
    by (auto simp: xcp_fd_write_all_def write_all_loop_def split: option.splits)
  also have "\<dots> \<longleftrightarrow> write_all_stalls write fd buf count \<sigma>"
  proof
    assume "do_while (body buf count) (0, \<sigma>) = None"
    with stuck_never_settles [OF assms, of "(0, \<sigma>)" buf] show "write_all_stalls write fd buf count \<sigma>"
      by (simp add: write_all_stalls_def)
  next
    assume "write_all_stalls write fd buf count \<sigma>"
    then obtain n \<tau> where n: "goes_round (body buf count) (0, \<sigma>) (n, \<tau>)"
      "never_settles (write fd (buf + n) (count - n)) (stalled (count - n)) \<tau>" by (auto simp: write_all_stalls_def)
    have "snk.writing buf count \<sigma> (n, \<tau>)"
      using goes_round_keeps [OF n(1), where I = "snk.writing buf count \<sigma>"] snk.writing_start
        snk.writing_again [OF assms] by blast
    then have "n < count \<or> n = 0" by (simp add: snk.writing_def)
    from never_settles_stuck [OF assms this n(2)] do_while_goes_round [OF n(1)]
    show "do_while (body buf count) (0, \<sigma>) = None" by simp
  qed
  finally show ?thesis .
qed

end

section \<open>The transfer loops over such descriptors\<close>

context posix_source begin

lemma read_all_None_iff:
  assumes "count < 2 ^ 63"
  shows "xcp_fd_read_all poll read fd buf count timeout offset \<sigma> = None \<longleftrightarrow>
    read_all_starves poll read fd buf count timeout \<sigma>"
  by (simp add: xcp_fd_read_all_def src.read_all_loop_None_iff [OF assms] wait_read_None_iff read_all_starves_def)

lemma read_all_delivers:
  assumes "count < 2 ^ 63"
  shows "if read_all_starves poll read fd buf count timeout \<sigma>
    then xcp_fd_read_all poll read fd buf count timeout offset \<sigma> = None
    else \<exists>r n \<sigma>'. xcp_fd_read_all poll read fd buf count timeout offset \<sigma> = Some (r, store_out offset n, \<sigma>')
      \<and> n \<le> count \<and> n \<le> length (avail (kern \<sigma>))
      \<and> mem \<sigma>' = mem_store (mem \<sigma>) buf (take n (avail (kern \<sigma>)))
      \<and> avail (kern \<sigma>') = drop n (avail (kern \<sigma>))
      \<and> (r = XCP_ERR_ERRNO \<or> r = int n \<and> n = min count (length (avail (kern \<sigma>))))"
proof (cases "xcp_fd_read_all poll read fd buf count timeout offset \<sigma>")
  case None
  then show ?thesis using read_all_None_iff [OF assms] by simp
next
  case (Some x)
  obtain r off \<sigma>' where x: "x = (r, off, \<sigma>')" by (cases x)
  with Some have "\<not> read_all_starves poll read fd buf count timeout \<sigma>"
    using read_all_None_iff [OF assms, of buf timeout offset \<sigma>] by simp
  with src.read_all_loop_ok [OF assms Some [unfolded xcp_fd_read_all_def x]] Some x show ?thesis by auto
qed

text \<open>The case the round trips need: the stream holds exactly the bytes that are asked for.\<close>

lemma read_all_drains:
  assumes "count < 2 ^ 63" and "length (avail (kern \<sigma>)) = count"
  shows "if read_all_starves poll read fd dest count timeout \<sigma>
    then xcp_fd_read_all poll read fd dest count timeout roff \<sigma> = None
    else \<exists>r n \<sigma>'. xcp_fd_read_all poll read fd dest count timeout roff \<sigma> = Some (r, store_out roff n, \<sigma>')
      \<and> n \<le> count \<and> mem_bytes (mem \<sigma>') dest n = take n (avail (kern \<sigma>))
      \<and> avail (kern \<sigma>') = drop n (avail (kern \<sigma>))
      \<and> (\<forall>x. x < dest \<or> dest + n \<le> x \<longrightarrow> mem \<sigma>' x = mem \<sigma> x)
      \<and> (r = XCP_ERR_ERRNO \<or> r = int count \<and> n = count)"
proof -
  let ?bytes = "avail (kern \<sigma>)"
  have "mem_bytes (mem_store (mem \<sigma>) dest (take n ?bytes)) dest n = take n ?bytes"
    "x < dest \<or> dest + n \<le> x \<Longrightarrow> mem_store (mem \<sigma>) dest (take n ?bytes) x = mem \<sigma> x" if "n \<le> count" for n x
    using mem_bytes_store [of "mem \<sigma>" dest "take n ?bytes"] mem_store_outside [of x dest "take n ?bytes" "mem \<sigma>"]
      that assms(2) by simp_all
  note stored = this
  show ?thesis
  proof (cases "read_all_starves poll read fd dest count timeout \<sigma>")
    case True
    then show ?thesis using read_all_None_iff [OF assms(1)] by simp
  next
    case False
    with read_all_delivers [OF assms(1), of dest timeout \<sigma> roff] obtain r n \<sigma>' where
      run: "xcp_fd_read_all poll read fd dest count timeout roff \<sigma> = Some (r, store_out roff n, \<sigma>')"
      and n: "n \<le> count" "mem \<sigma>' = mem_store (mem \<sigma>) dest (take n ?bytes)" "avail (kern \<sigma>') = drop n ?bytes"
        "r = XCP_ERR_ERRNO \<or> r = int n \<and> n = min count (length ?bytes)" by auto
    with False stored [OF n(1)] assms(2) show ?thesis by auto
  qed
qed

end

context posix_sink begin

lemma write_all_accepts:
  assumes "count < 2 ^ 63"
  shows "if write_all_stalls write fd buf count \<sigma>
    then xcp_fd_write_all write fd buf count offset \<sigma> = None
    else \<exists>r n \<sigma>'. xcp_fd_write_all write fd buf count offset \<sigma> = Some (r, store_out offset n, \<sigma>')
      \<and> n \<le> count \<and> mem \<sigma>' = mem \<sigma>
      \<and> sent (kern \<sigma>') = sent (kern \<sigma>) @ mem_bytes (mem \<sigma>) buf n
      \<and> (r = XCP_ERR_ERRNO \<or> r = int count \<and> n = count)"
proof (cases "xcp_fd_write_all write fd buf count offset \<sigma>")
  case None
  then show ?thesis using write_all_None_iff [OF assms] by simp
next
  case (Some x)
  obtain r off \<sigma>' where x: "x = (r, off, \<sigma>')" by (cases x)
  with Some have "\<not> write_all_stalls write fd buf count \<sigma>"
    using write_all_None_iff [OF assms, of buf offset \<sigma>] by simp
  with snk.write_all_loop_ok [OF assms Some [unfolded xcp_fd_write_all_def x]] Some x show ?thesis by auto
qed

lemma write_all_accepted:
  assumes "count < 2 ^ 63" and "xcp_fd_write_all write fd buf count offset \<sigma> = Some (r, offset', \<sigma>')"
  shows "\<exists>n. offset' = store_out offset n \<and> n \<le> count \<and> mem \<sigma>' = mem \<sigma>
    \<and> sent (kern \<sigma>') = sent (kern \<sigma>) @ mem_bytes (mem \<sigma>) buf n
    \<and> (r = XCP_ERR_ERRNO \<or> r = int count \<and> n = count)"
  using snk.write_all_loop_ok [OF assms(1), of buf offset \<sigma>] assms(2) by (simp add: xcp_fd_write_all_def)

end

end
