(* ===== verification/Pipe_Kernel.thy ===== *)
theory Pipe_Kernel
  imports Fd_Transfer
begin

text \<open>
  A concrete environment for the witnesses: a kernel with one pipe. A plan says, call by call,
  how much of the request is served or that the call is interrupted; when the plan is used up
  every call is served in full. It satisfies the contracts of \<^verbatim>\<open>read\<close>, \<^verbatim>\<open>write\<close> and \<^verbatim>\<open>poll\<close>,
  so the properties of the transfers can be applied to it, and they are evaluated on it.
\<close>

datatype service = Serve nat | Interrupt int

record pipe =
  pipe_data :: "byte list"
  pipe_plan :: "service list"

text \<open>\<open>Serve k\<close> serves at most \<open>k + 1\<close> bytes, so that a call never makes no progress.\<close>

fun served :: "service list \<Rightarrow> nat \<Rightarrow> nat" where
  "served (Serve k # _) n = min n (Suc k)"
| "served _ n = n"

definition pipe_read :: "pipe buf_call" where
  "pipe_read fd a n \<sigma> =
     (case pipe_plan (kern \<sigma>) of
        Interrupt e # ps \<Rightarrow> (- 1, \<sigma>\<lparr>errno := e, kern := (kern \<sigma>)\<lparr>pipe_plan := ps\<rparr>\<rparr>)
      | plan \<Rightarrow>
          let k = min (served plan n) (length (pipe_data (kern \<sigma>))) in
          (int k, \<sigma>\<lparr>mem := mem_store (mem \<sigma>) a (take k (pipe_data (kern \<sigma>))),
                    kern := \<lparr>pipe_data = drop k (pipe_data (kern \<sigma>)), pipe_plan = tl plan\<rparr>\<rparr>))"

definition pipe_write :: "pipe buf_call" where
  "pipe_write fd a n \<sigma> =
     (case pipe_plan (kern \<sigma>) of
        Interrupt e # ps \<Rightarrow> (- 1, \<sigma>\<lparr>errno := e, kern := (kern \<sigma>)\<lparr>pipe_plan := ps\<rparr>\<rparr>)
      | plan \<Rightarrow>
          let k = served plan n in
          (int k, \<sigma>\<lparr>kern := \<lparr>pipe_data = pipe_data (kern \<sigma>) @ mem_bytes (mem \<sigma>) a k,
                             pipe_plan = tl plan\<rparr>\<rparr>))"

definition pipe_poll :: "pipe poll_call" where
  "pipe_poll nfds timeout s = (if pipe_data (kern (snd s)) = [] then 0 else 1, s)"

definition pipe_patience :: "pipe \<Rightarrow> nat" where
  "pipe_patience p = length (pipe_plan p)"

lemma served_le: "served plan n \<le> n"
  by (cases "(plan, n)" rule: served.cases) auto

lemma served_pos: "0 < n \<Longrightarrow> 0 < served plan n"
  by (cases "(plan, n)" rule: served.cases) auto

lemma served_0: "served plan n = 0 \<longleftrightarrow> n = 0"
  using served_le [of plan n] served_pos [of n plan] by (cases "n = 0") auto

lemmas pipe_defs = pipe_read_def pipe_write_def pipe_poll_def pipe_patience_def Let_def

text \<open>What evaluates a transfer over the pipe by simplification.\<close>

lemmas pipe_eval = do_while.simps xcp_fd_read_all_def read_all_loop_def read_all_body_def
  xcp_fd_wait_read_def xcp_fd_wait_for_rdata_def wait_for_rdata_loop_def xcp_fd_read_def
  xcp_fd_write_all_def write_all_loop_def write_all_body_def xcp_fd_write_def
  pipe_defs xcp_err_defs u64_def usz_def s64_def store_out_def

lemma pipe_read_contract: "read_contract pipe_read fd pipe_data"
  unfolding read_contract_def
proof (intro allI)
  fix a n and \<sigma> :: "pipe sys"
  show "delivered pipe_data a n \<sigma> (fst (pipe_read fd a n \<sigma>)) (snd (pipe_read fd a n \<sigma>))"
    using served_le [of _ n]
    by (auto simp: pipe_defs delivered_def served_0 min_def split: list.split service.split)
qed

lemma pipe_write_contract: "write_contract pipe_write fd pipe_data"
  unfolding write_contract_def
proof (intro allI)
  fix a n and \<sigma> :: "pipe sys"
  show "accepted pipe_data a n \<sigma> (fst (pipe_write fd a n \<sigma>)) (snd (pipe_write fd a n \<sigma>))"
    using served_le [of _ n]
    by (auto simp: pipe_defs accepted_def served_0 split: list.split service.split)
qed

lemma pipe_poll_contract: "poll_contract pipe_poll pipe_data"
  by (auto simp: poll_contract_def pipe_defs)

text \<open>The plan is finite, so no transfer over the pipe goes on for ever.\<close>

lemma pipe_read_settles: "\<not> read_all_starves pipe_poll pipe_read fd buf count timeout \<sigma>"
  by (rule read_all_starves_not [where patience = pipe_patience])
    (auto simp: pipe_defs transient_failure_def poll_failure_def split: list.splits service.splits if_splits)

lemma pipe_write_settles: "\<not> write_all_stalls pipe_write fd buf count \<sigma>"
  by (rule write_all_stalls_not [where patience = pipe_patience])
    (auto simp: pipe_defs transient_failure_def stalled_def served_0 split: list.splits service.splits)

interpretation pipe_src: posix_source pipe_read pipe_poll fd pipe_data
  for fd
  by unfold_locales (rule pipe_read_contract pipe_poll_contract)+

interpretation pipe_snk: posix_sink pipe_write fd pipe_data
  for fd
  by unfold_locales (rule pipe_write_contract)

end
