(* ===== verification/IO_Properties.thy ===== *)
theory IO_Properties
  imports Pipe_Kernel
begin

text \<open>The properties of \<^verbatim>\<open>src/io.c\<close>, each with a witness where it has hypotheses.\<close>

section \<open>Bulk transfers\<close>

text \<open>
  C12: \<^verbatim>\<open>xcp_fd_read_all\<close>, on a descriptor whose \<^verbatim>\<open>read\<close> and \<^verbatim>\<open>poll\<close> behave as documented,
  returns unless, after some rounds, its calls to \<^verbatim>\<open>poll\<close> or its calls to \<^verbatim>\<open>read\<close> fail with \<^verbatim>\<open>EAGAIN\<close> or
  \<^verbatim>\<open>EINTR\<close> for ever (as \<^verbatim>\<open>read\<close> does on an \<^verbatim>\<open>O_NONBLOCK\<close> descriptor that never gets data), and in
  that case it never returns. When it returns it has stored the next \<open>n\<close> bytes of the stream at the
  start of the buffer and changed no other byte of memory, has consumed exactly these bytes, and
  reports \<open>n\<close> through \<^verbatim>\<open>offset\<close>. Either it failed, or \<open>n\<close> is the whole count or all that was left of
  the stream.
\<close>

theorem read_all_fills_buffer:
  assumes "read_contract read fd avail" and "poll_contract poll avail" and "count < 2 ^ 63"
  shows "if read_all_starves poll read fd buf count timeout \<sigma>
    then xcp_fd_read_all poll read fd buf count timeout (Ptr old) \<sigma> = None
    else \<exists>r n \<sigma>'. xcp_fd_read_all poll read fd buf count timeout (Ptr old) \<sigma> = Some (r, Ptr n, \<sigma>')
      \<and> n \<le> count \<and> n \<le> length (avail (kern \<sigma>))
      \<and> mem \<sigma>' = mem_store (mem \<sigma>) buf (take n (avail (kern \<sigma>)))
      \<and> avail (kern \<sigma>') = drop n (avail (kern \<sigma>))
      \<and> (r = XCP_ERR_ERRNO \<or> r = int n \<and> n = min count (length (avail (kern \<sigma>))))"
  using posix_source.read_all_delivers [OF posix_source.intro [OF assms(1,2)] assms(3),
      of buf timeout \<sigma> "Ptr old"]
  unfolding store_out_Ptr .

definition pipe_start :: "pipe sys" where
  "pipe_start = \<lparr>errno = 0, mem = (\<lambda>_. 0),
     kern = \<lparr>pipe_data = [1, 2, 3, 4, 5],
             pipe_plan = [Interrupt EINTR, Serve 1, Interrupt EAGAIN, Serve 0]\<rparr>\<rparr>"

text \<open>A descriptor that is not ready and never will be, opened with \<^verbatim>\<open>O_NONBLOCK\<close>; one that takes nothing.\<close>

definition idle_call :: "pipe buf_call" where
  "idle_call fd a n \<sigma> = (- 1, \<sigma>\<lparr>errno := EAGAIN\<rparr>)"

definition full_write :: "pipe buf_call" where
  "full_write fd a n \<sigma> = (0, \<sigma>)"

theorem read_all_fills_buffer_witness:
  "(\<exists>\<sigma>'. xcp_fd_read_all pipe_poll pipe_read 3 100 4 1000 (Ptr 0) pipe_start = Some (4, Ptr 4, \<sigma>')
     \<and> mem_bytes (mem \<sigma>') 100 4 = [1, 2, 3, 4] \<and> pipe_data (kern \<sigma>') = [5])
   \<and> xcp_fd_read_all pipe_poll idle_call 3 100 4 0 (Ptr 0) pipe_start = None"
proof -
  obtain r n \<sigma>' where run: "xcp_fd_read_all pipe_poll pipe_read 3 100 4 1000 (Ptr 0) pipe_start
        = Some (r, Ptr n, \<sigma>')"
    and post: "mem \<sigma>' = mem_store (mem pipe_start) 100 (take n (pipe_data (kern pipe_start)))"
      "pipe_data (kern \<sigma>') = drop n (pipe_data (kern pipe_start))"
      "r = XCP_ERR_ERRNO \<or> r = int n \<and> n = min 4 (length (pipe_data (kern pipe_start)))"
    using read_all_fills_buffer [OF pipe_read_contract pipe_poll_contract, of 4 3 100 1000 pipe_start 0]
    by (auto simp: pipe_read_settles)
  have "map_option fst (xcp_fd_read_all pipe_poll pipe_read 3 100 4 1000 (Ptr 0) pipe_start) = Some 4"
    by (simp add: pipe_eval pipe_start_def)
  with run post have "mem_bytes (mem \<sigma>') 100 4 = [1, 2, 3, 4]" "pipe_data (kern \<sigma>') = [5]" "r = 4" "n = 4"
    by (auto simp: xcp_err_defs pipe_start_def mem_bytes_def mem_store_def upt_rec)
  moreover have "read_contract idle_call 3 pipe_data"
    by (simp add: read_contract_def delivered_def idle_call_def)
  moreover have "read_all_starves pipe_poll idle_call 3 100 4 0 pipe_start"
    unfolding read_all_starves_def read_starves_def waits_to_def
    by (intro exI [of _ 0] exI [of _ pipe_start])
      (simp add: goes_round_refl never_settles_def transient_failure_def again_or_eintr_def idle_call_def)
  ultimately show ?thesis
    using read_all_fills_buffer [of idle_call 3 pipe_data pipe_poll 4 100 0 pipe_start 0] pipe_poll_contract run
    by auto
qed

text \<open>
  C13: \<^verbatim>\<open>xcp_fd_write_all\<close>, on a descriptor whose \<^verbatim>\<open>write\<close> behaves as documented, returns unless,
  after some rounds, every further call to \<^verbatim>\<open>write\<close> fails with \<^verbatim>\<open>EAGAIN\<close> or \<^verbatim>\<open>EINTR\<close> or takes no byte of
  those that are left, and in that case it never returns. When it returns it has left memory
  unchanged and has appended to the stream exactly the first \<open>n\<close> bytes of the buffer, \<open>n\<close> being what
  it reports through \<^verbatim>\<open>offset\<close>. Either it failed, or that is the whole buffer and it returns \<open>count\<close>.
\<close>

theorem write_all_sends_buffer:
  assumes "write_contract write fd sent" and "count < 2 ^ 63"
  shows "if write_all_stalls write fd buf count \<sigma>
    then xcp_fd_write_all write fd buf count (Ptr old) \<sigma> = None
    else \<exists>r n \<sigma>'. xcp_fd_write_all write fd buf count (Ptr old) \<sigma> = Some (r, Ptr n, \<sigma>')
      \<and> n \<le> count \<and> mem \<sigma>' = mem \<sigma>
      \<and> sent (kern \<sigma>') = sent (kern \<sigma>) @ mem_bytes (mem \<sigma>) buf n
      \<and> (r = XCP_ERR_ERRNO \<or> r = int count \<and> n = count)"
  using posix_sink.write_all_accepts [OF posix_sink.intro [OF assms(1)] assms(2), of buf \<sigma> "Ptr old"]
  unfolding store_out_Ptr .

theorem write_all_sends_buffer_witness:
  "(\<exists>\<sigma>'. xcp_fd_write_all pipe_write 4 7 3 (Ptr 0) pipe_start = Some (3, Ptr 3, \<sigma>')
     \<and> pipe_data (kern \<sigma>') = [1, 2, 3, 4, 5, 0, 0, 0])
   \<and> xcp_fd_write_all full_write 4 7 3 (Ptr 0) pipe_start = None"
proof -
  obtain r n \<sigma>' where run: "xcp_fd_write_all pipe_write 4 7 3 (Ptr 0) pipe_start = Some (r, Ptr n, \<sigma>')"
    and post: "pipe_data (kern \<sigma>') = pipe_data (kern pipe_start) @ mem_bytes (mem pipe_start) 7 n"
      "r = XCP_ERR_ERRNO \<or> r = 3 \<and> n = 3"
    using write_all_sends_buffer [OF pipe_write_contract, of 3 4 7 pipe_start 0] by (auto simp: pipe_write_settles)
  have "map_option fst (xcp_fd_write_all pipe_write 4 7 3 (Ptr 0) pipe_start) = Some 3"
    by (simp add: pipe_eval pipe_start_def)
  with run post have "pipe_data (kern \<sigma>') = [1, 2, 3, 4, 5, 0, 0, 0]" "r = 3" "n = 3"
    by (auto simp: xcp_err_defs pipe_start_def mem_bytes_def upt_rec)
  moreover have "write_contract full_write 4 pipe_data"
    by (simp add: write_contract_def accepted_def full_write_def)
  moreover have "write_all_stalls full_write 4 7 3 pipe_start"
    unfolding write_all_stalls_def
    by (intro exI [of _ 0] exI [of _ pipe_start])
      (simp add: goes_round_refl never_settles_def stalled_def full_write_def)
  ultimately show ?thesis
    using write_all_sends_buffer [of full_write 4 pipe_data 3 7 pipe_start 0] run by auto
qed

text \<open>
  C14: round trip through a pipe. Once \<^verbatim>\<open>xcp_fd_write_all\<close> has returned \<open>count\<close> on an empty
  channel, \<^verbatim>\<open>xcp_fd_read_all\<close> of \<open>count\<close> bytes from its other end returns, unless its calls fail
  transiently for ever, and unless it fails it returns \<open>count\<close>, the destination holds the bytes of
  the source, the channel is empty again and no byte outside the destination has changed, however
  the transfers were split or interrupted. If it fails, it has received a prefix and the rest is
  still in the channel.
\<close>

theorem channel_roundtrip:
  assumes "write_contract write wfd chan" and "read_contract read rfd chan" and "poll_contract poll chan"
    and "count < 2 ^ 63" and "chan (kern \<sigma>) = []"
    and wrote: "xcp_fd_write_all write wfd source count woff \<sigma> = Some (int count, woff', \<sigma>1)"
  shows "if read_all_starves poll read rfd dest count timeout \<sigma>1
    then xcp_fd_read_all poll read rfd dest count timeout roff \<sigma>1 = None
    else \<exists>r n \<sigma>2. xcp_fd_read_all poll read rfd dest count timeout roff \<sigma>1 = Some (r, store_out roff n, \<sigma>2)
      \<and> n \<le> count \<and> mem_bytes (mem \<sigma>2) dest n = mem_bytes (mem \<sigma>) source n
      \<and> chan (kern \<sigma>2) = drop n (mem_bytes (mem \<sigma>) source count)
      \<and> (\<forall>x. x < dest \<or> dest + n \<le> x \<longrightarrow> mem \<sigma>2 x = mem \<sigma> x)
      \<and> (r = XCP_ERR_ERRNO \<or> r = int count \<and> n = count \<and> chan (kern \<sigma>2) = [])"
proof -
  let ?bytes = "mem_bytes (mem \<sigma>) source count"
  have w: "mem \<sigma>1 = mem \<sigma>" "chan (kern \<sigma>1) = ?bytes"
    using posix_sink.write_all_accepted [OF posix_sink.intro [OF assms(1)] assms(4) wrote] assms(5)
    by (auto simp: xcp_err_defs)
  have "length (chan (kern \<sigma>1)) = count" by (simp add: w)
  from posix_source.read_all_drains [OF posix_source.intro [OF assms(2,3)] assms(4) this, of dest timeout roff]
  have "if read_all_starves poll read rfd dest count timeout \<sigma>1
    then xcp_fd_read_all poll read rfd dest count timeout roff \<sigma>1 = None
    else \<exists>r n \<sigma>2. xcp_fd_read_all poll read rfd dest count timeout roff \<sigma>1 = Some (r, store_out roff n, \<sigma>2)
      \<and> n \<le> count \<and> mem_bytes (mem \<sigma>2) dest n = take n ?bytes \<and> chan (kern \<sigma>2) = drop n ?bytes
      \<and> (\<forall>x. x < dest \<or> dest + n \<le> x \<longrightarrow> mem \<sigma>2 x = mem \<sigma> x)
      \<and> (r = XCP_ERR_ERRNO \<or> r = int count \<and> n = count)"
    unfolding w .
  moreover have "drop n ?bytes = []" if "n = count" for n using that by simp
  ultimately show ?thesis by (auto simp: take_mem_bytes cong: conj_cong if_cong)
qed

definition channel_start :: "pipe sys" where
  "channel_start = \<lparr>errno = 0, mem = (\<lambda>x. of_nat x),
     kern = \<lparr>pipe_data = [], pipe_plan = [Serve 0, Interrupt EINTR, Serve 1, Serve 0, Interrupt EAGAIN]\<rparr>\<rparr>"

theorem channel_roundtrip_witness:
  "\<exists>\<sigma>1 roff' \<sigma>2. xcp_fd_write_all pipe_write 4 7 3 NULL channel_start = Some (3, NULL, \<sigma>1)
     \<and> xcp_fd_read_all pipe_poll pipe_read 3 100 3 1000 NULL \<sigma>1 = Some (3, roff', \<sigma>2)
     \<and> mem_bytes (mem \<sigma>2) 100 3 = [7, 8, 9]"
proof -
  let ?sending = "xcp_fd_write_all pipe_write 4 7 3 NULL channel_start"
  define \<sigma>1 where "\<sigma>1 = snd (snd (the ?sending))"
  have wrote: "?sending = Some (int 3, NULL, \<sigma>1)"
    by (simp add: \<sigma>1_def pipe_eval channel_start_def mem_bytes_def upt_rec)
  have empty: "pipe_data (kern channel_start) = []"
    by (simp add: channel_start_def)
  have ok: "map_option fst (xcp_fd_read_all pipe_poll pipe_read 3 100 3 1000 NULL \<sigma>1) = Some 3"
    by (simp add: \<sigma>1_def pipe_eval channel_start_def mem_bytes_def upt_rec)
  have "mem_bytes (mem channel_start) 7 3 = [7, 8, 9]"
    by (simp add: channel_start_def mem_bytes_def upt_rec)
  then show ?thesis
    using channel_roundtrip [OF pipe_write_contract pipe_read_contract pipe_poll_contract _ empty wrote,
        of 3 100 1000 NULL] ok wrote
    by (auto simp: xcp_err_defs pipe_read_settles)
qed

section \<open>Retries, errors and time-outs\<close>

lemma rd_answer: "rd.answer ret = (if 0 \<le> ret then ret else XCP_ERR_ERRNO)"
  by (simp add: rd.answer_def)

text \<open>
  \<^verbatim>\<open>xcp_fd_read\<close> returns exactly when some call to \<^verbatim>\<open>read\<close> does not fail with \<^verbatim>\<open>EAGAIN\<close>,
  \<^verbatim>\<open>EWOULDBLOCK\<close> or \<^verbatim>\<open>EINTR\<close>; it then returns the answer of the first such call (\<^verbatim>\<open>XCP_ERR_ERRNO\<close> for a
  negative one) in the state that call leaves, and has made no call after it.
\<close>

lemma xcp_fd_read_returns_iff:
  "xcp_fd_read read fd buf count \<sigma> = Some (r, \<tau>) \<longleftrightarrow>
     (\<exists>n. (\<forall>i<n. transient_failure (read fd buf count (after_calls (read fd buf count) i \<sigma>)))
        \<and> \<not> transient_failure (read fd buf count (after_calls (read fd buf count) n \<sigma>))
        \<and> (let ret = fst (read fd buf count (after_calls (read fd buf count) n \<sigma>)) in
            r = (if 0 \<le> ret then ret else XCP_ERR_ERRNO))
        \<and> \<tau> = after_calls (read fd buf count) (Suc n) \<sigma>)"
  by (simp add: rd.returns_iff rd_answer Let_def)

lemma xcp_fd_read_returns_iff_witness:
  "xcp_fd_read pipe_read 3 100 2 pipe_start
     = Some (2, after_calls (pipe_read 3 100 2) 2 pipe_start)"
proof -
  have a: "after_calls (pipe_read 3 100 2) 1 pipe_start
      = pipe_start\<lparr>errno := EINTR, kern := (kern pipe_start)\<lparr>pipe_plan := tl (pipe_plan (kern pipe_start))\<rparr>\<rparr>"
    by (simp add: pipe_start_def pipe_defs)
  have "\<forall>i<1. transient_failure (pipe_read 3 100 2 (after_calls (pipe_read 3 100 2) i pipe_start))"
    by (simp add: transient_failure_def again_or_eintr_def pipe_start_def pipe_defs)
  moreover have "fst (pipe_read 3 100 2 (after_calls (pipe_read 3 100 2) 1 pipe_start)) = 2"
    unfolding a by (simp add: pipe_start_def pipe_defs)
  ultimately show ?thesis
    unfolding xcp_fd_read_returns_iff
    by (intro exI [of _ 1]) (simp add: transient_failure_def numeral_2_eq_2)
qed

text \<open>
  None of \<^verbatim>\<open>xcp_fd_read\<close>, \<^verbatim>\<open>xcp_fd_write\<close>, \<^verbatim>\<open>xcp_fd_pread\<close> and \<^verbatim>\<open>xcp_fd_preadv\<close> ever reports a
  transient error: when one of them returns \<^verbatim>\<open>XCP_ERR_ERRNO\<close>, \<^verbatim>\<open>errno\<close> is neither \<^verbatim>\<open>EAGAIN\<close> nor \<^verbatim>\<open>EINTR\<close>.
\<close>

lemma transfers_fail_hard:
  "(xcp_fd_read read fd buf count \<sigma> = Some (XCP_ERR_ERRNO, \<tau>)
      \<or> xcp_fd_write write fd buf count \<sigma> = Some (XCP_ERR_ERRNO, \<tau>)
      \<or> xcp_fd_pread pread fd buf count offset \<sigma> = Some (XCP_ERR_ERRNO, \<tau>)
      \<or> xcp_fd_preadv preadv fd iovs iovCount offset \<sigma> = Some (XCP_ERR_ERRNO, \<tau>))
    \<Longrightarrow> errno \<tau> \<noteq> EAGAIN \<and> errno \<tau> \<noteq> EINTR"
  by (auto simp: again_or_eintr_def dest!: rd.failure_not_transient wr.failure_not_transient
      prd.failure_not_transient prdv.failure_not_transient)

definition broken_read :: "pipe buf_call" where
  "broken_read fd a n \<sigma> = (- 1, \<sigma>\<lparr>errno := EBADF\<rparr>)"

lemma transfers_fail_hard_witness:
  "xcp_fd_read broken_read 3 100 2 pipe_start = Some (XCP_ERR_ERRNO, pipe_start\<lparr>errno := EBADF\<rparr>)
     \<and> EBADF \<noteq> EAGAIN \<and> EBADF \<noteq> EINTR"
proof -
  have run: "xcp_fd_read broken_read 3 100 2 pipe_start = Some (XCP_ERR_ERRNO, pipe_start\<lparr>errno := EBADF\<rparr>)"
    by (simp add: xcp_fd_read_def broken_read_def do_while.simps)
  with transfers_fail_hard [OF disjI1, OF run] show ?thesis by simp
qed

text \<open>
  C33: when the wait of a timed read ends without data, \<^verbatim>\<open>xcp_fd_wait_read\<close> reports
  \<^verbatim>\<open>XCP_ERR_TIMEOUT\<close> and does not read, but \<^verbatim>\<open>xcp_fd_read_all\<close> reports \<^verbatim>\<open>XCP_ERR_ERRNO\<close>, with whatever
  value \<^verbatim>\<open>errno\<close> had: a caller cannot tell the time-out from an error.
\<close>

theorem read_all_masks_timeout:
  assumes "timeout \<noteq> 0"
    and poll: "poll 1 timeout ([\<lparr>pfd_fd = fd, pfd_events = POLLIN, pfd_revents = 0\<rparr>], \<sigma>) = (0, fds, \<sigma>')"
  shows "xcp_fd_wait_read poll read fd buf count timeout \<sigma> = Some (XCP_ERR_TIMEOUT, \<sigma>')
    \<and> xcp_fd_read_all poll read fd buf count timeout offset \<sigma>
        = Some (XCP_ERR_ERRNO, store_out offset 0, \<sigma>')"
proof -
  have "xcp_fd_wait_for_rdata poll fd timeout \<sigma> = Some (XCP_ERR_TIMEOUT, \<sigma>')"
    using poll by (simp add: xcp_fd_wait_for_rdata_def wait_for_rdata_loop_def do_while_Leave)
  then have w: "xcp_fd_wait_read poll read fd b n timeout \<sigma> = Some (XCP_ERR_TIMEOUT, \<sigma>')" for b n
    using assms(1) by (simp add: xcp_fd_wait_read_def xcp_err_defs)
  then have "read_all_body (\<lambda>a n. xcp_fd_wait_read poll read fd a n timeout) buf count (0, \<sigma>)
      = Some (Leave True (0, \<sigma>'))"
    by (simp add: read_all_body_def xcp_err_defs)
  with w show ?thesis
    by (simp add: xcp_fd_read_all_def read_all_loop_def do_while_Leave)
qed

theorem read_all_masks_timeout_witness:
  "let \<sigma> = pipe_start\<lparr>kern := \<lparr>pipe_data = [], pipe_plan = []\<rparr>\<rparr> in
     xcp_fd_wait_read pipe_poll pipe_read 3 100 4 1000 \<sigma> = Some (XCP_ERR_TIMEOUT, \<sigma>)
     \<and> xcp_fd_read_all pipe_poll pipe_read 3 100 4 1000 (Ptr 9) \<sigma> = Some (XCP_ERR_ERRNO, Ptr 0, \<sigma>)
     \<and> errno \<sigma> = 0"
proof -
  let ?s = "pipe_start\<lparr>kern := \<lparr>pipe_data = [], pipe_plan = []\<rparr>\<rparr>"
  have "pipe_poll 1 1000 ([\<lparr>pfd_fd = 3, pfd_events = POLLIN, pfd_revents = 0\<rparr>], ?s)
      = (0, [\<lparr>pfd_fd = 3, pfd_events = POLLIN, pfd_revents = 0\<rparr>], ?s)"
    by (simp add: pipe_poll_def)
  from read_all_masks_timeout [where poll = pipe_poll and timeout = 1000 and fd = 3 and \<sigma> = ?s
      and \<sigma>' = ?s, OF _ this, of pipe_read 100 4 "Ptr 9"] show ?thesis
    by (simp add: Let_def store_out_def pipe_start_def)
qed

text \<open>
  \<^verbatim>\<open>xcp_poll\<close> never returns 0 and never fails with a transient error: if it returns, then with
  a positive number of ready descriptors, with \<^verbatim>\<open>XCP_ERR_TIMEOUT\<close> after a call to \<^verbatim>\<open>poll\<close> that answered
  0, or with \<^verbatim>\<open>XCP_ERR_ERRNO\<close> after one that failed with a lasting error.
\<close>

lemma xcp_poll_results:
  assumes "xcp_poll poll fds nfds timeout \<sigma> = Some (r, fds', \<sigma>')"
  shows "\<exists>s ret. poll nfds timeout s = (ret, fds', \<sigma>') \<and>
    (0 < ret \<and> r = ret \<or> ret = 0 \<and> r = XCP_ERR_TIMEOUT \<or>
     ret < 0 \<and> r = XCP_ERR_ERRNO \<and> errno \<sigma>' \<noteq> EAGAIN \<and> errno \<sigma>' \<noteq> EINTR)"
proof -
  from assms have "(case (fds, \<sigma>) of (fds, \<sigma>) \<Rightarrow> xcp_poll poll fds nfds timeout \<sigma>) = Some (r, fds', \<sigma>')"
    by simp
  then obtain s where stop: "\<not> pl.interrupted poll nfds timeout s"
    and r: "r = pl.answer (fst (poll nfds timeout s))" and t: "(fds', \<sigma>') = snd (poll nfds timeout s)"
    by (rule pl.returns_answer)
  obtain ret where call: "poll nfds timeout s = (ret, fds', \<sigma>')"
    using t by (metis prod.collapse)
  with stop r show ?thesis
    by (intro exI [of _ s] exI [of _ ret])
      (auto simp: pl.interrupted_def pl.answer_def again_or_eintr_def split: if_splits)
qed

lemma xcp_poll_results_witness:
  "\<exists>s ret. pipe_poll 0 5 s = (ret, [], pipe_start) \<and>
    (0 < ret \<and> 1 = ret \<or> ret = 0 \<and> 1 = XCP_ERR_TIMEOUT \<or>
     ret < 0 \<and> 1 = XCP_ERR_ERRNO \<and> errno pipe_start \<noteq> EAGAIN \<and> errno pipe_start \<noteq> EINTR)"
proof -
  have "xcp_poll pipe_poll [] 0 5 pipe_start = Some (1, [], pipe_start)"
    by (simp add: xcp_poll_def do_while.simps pipe_poll_def pipe_start_def)
  from xcp_poll_results [OF this] show ?thesis .
qed

text \<open>
  \<^verbatim>\<open>poll\<close> on a descriptor on which nothing becomes ready, as documented: without a signal it reports the
  time-out when it is over, and a signal that comes before that, here \<open>d\<close> milliseconds after the
  call, makes it fail with \<^verbatim>\<open>EINTR\<close>. \<open>clock\<close> is the time and \<open>signals\<close> how many calls are yet to be interrupted.
\<close>

definition idle_poll ::
  "'k poll_call \<Rightarrow> ('k \<Rightarrow> nat) \<Rightarrow> ('k \<Rightarrow> nat) \<Rightarrow> nat \<Rightarrow> nat \<Rightarrow> bool" where
  "idle_poll poll clock signals d timeout \<longleftrightarrow> d < timeout \<and> (\<forall>fds \<sigma>.
     case poll 1 (int timeout) (fds, \<sigma>) of (ret, fds', \<sigma>') \<Rightarrow>
       if signals (kern \<sigma>) = 0 then ret = 0 \<and> clock (kern \<sigma>') = clock (kern \<sigma>) + timeout
       else ret = - 1 \<and> errno \<sigma>' = EINTR \<and> clock (kern \<sigma>') = clock (kern \<sigma>) + d \<and>
         Suc (signals (kern \<sigma>')) = signals (kern \<sigma>))"

lemma wait_loop_restarts:
  assumes "idle_poll poll clock signals d timeout"
  shows "\<exists>fds' \<sigma>'. wait_for_rdata_loop poll (int timeout) (fds, \<sigma>) = Some (XCP_ERR_TIMEOUT, fds', \<sigma>') \<and>
     clock (kern \<sigma>') = clock (kern \<sigma>) + signals (kern \<sigma>) * d + timeout"
proof (induction "signals (kern \<sigma>)" arbitrary: fds \<sigma>)
  case 0
  obtain ret fds' \<sigma>' where poll: "poll 1 (int timeout) (fds, \<sigma>) = (ret, fds', \<sigma>')" by (metis prod_cases3)
  with assms 0 have "ret = 0" "clock (kern \<sigma>') = clock (kern \<sigma>) + timeout"
    by (auto simp: idle_poll_def dest!: spec [of _ fds] spec [of _ \<sigma>])
  with poll 0 show ?case
    using wt.not_interrupted [of poll "int timeout" "(fds, \<sigma>)"]
    by (simp add: pl.interrupted_def wt.interrupted_def wt.answer_def)
next
  case (Suc k)
  obtain ret fds' \<sigma>' where poll: "poll 1 (int timeout) (fds, \<sigma>) = (ret, fds', \<sigma>')" by (metis prod_cases3)
  with assms Suc.hyps(2) have "ret = - 1" "errno \<sigma>' = EINTR" "clock (kern \<sigma>') = clock (kern \<sigma>) + d"
      "signals (kern \<sigma>') = k"
    by (auto simp: idle_poll_def dest!: spec [of _ fds] spec [of _ \<sigma>] split: if_splits)
  moreover from this poll have "wait_for_rdata_loop poll (int timeout) (fds, \<sigma>) =
      wait_for_rdata_loop poll (int timeout) (fds', \<sigma>')"
    using wt.is_interrupted [of poll "int timeout" "(fds, \<sigma>)"]
    by (simp add: pl.interrupted_def wt.interrupted_def again_or_eintr_def)
  ultimately show ?case
    using Suc.hyps(1) [of \<sigma>' fds'] by (auto simp: Suc.hyps(2) [symmetric] algebra_simps)
qed

text \<open>
  C34: the time-out bounds each call to \<^verbatim>\<open>poll\<close> and not the wait: after every interruption
  \<^verbatim>\<open>xcp_fd_wait_for_rdata\<close> waits for the whole time again, so that with \<open>k\<close> signals, each \<open>d\<close> milliseconds
  after a call, it reports the time-out \<open>k * d\<close> milliseconds late, and \<^verbatim>\<open>xcp_fd_wait_read\<close> with it.
\<close>

theorem wait_restarts_timeout:
  assumes "idle_poll poll clock signals d timeout"
  shows "\<exists>\<sigma>'. xcp_fd_wait_for_rdata poll fd (int timeout) \<sigma> = Some (XCP_ERR_TIMEOUT, \<sigma>') \<and>
     xcp_fd_wait_read poll read fd buf count (int timeout) \<sigma> = Some (XCP_ERR_TIMEOUT, \<sigma>') \<and>
     clock (kern \<sigma>') = clock (kern \<sigma>) + signals (kern \<sigma>) * d + timeout"
proof -
  let ?fds = "[\<lparr>pfd_fd = fd, pfd_events = POLLIN, pfd_revents = 0\<rparr>]"
  obtain fds' \<sigma>' where w: "wait_for_rdata_loop poll (int timeout) (?fds, \<sigma>) = Some (XCP_ERR_TIMEOUT, fds', \<sigma>')"
    and c: "clock (kern \<sigma>') = clock (kern \<sigma>) + signals (kern \<sigma>) * d + timeout"
    using wait_loop_restarts [OF assms, of ?fds \<sigma>] by blast
  have "xcp_fd_wait_for_rdata poll fd (int timeout) \<sigma> = Some (XCP_ERR_TIMEOUT, \<sigma>')"
    using w by (simp add: xcp_fd_wait_for_rdata_def)
  moreover have "timeout \<noteq> 0" using assms by (simp add: idle_poll_def)
  ultimately show ?thesis using c by (intro exI [of _ \<sigma>']) (simp add: xcp_fd_wait_read_def xcp_err_defs)
qed

text \<open>A kernel with a clock, for the witness; its state is the time and the signals left.\<close>

definition clocked_poll :: "nat \<Rightarrow> (nat \<times> nat) poll_call" where
  "clocked_poll d nfds timeout = (\<lambda>(fds, \<sigma>).
     case kern \<sigma> of (time, n) \<Rightarrow>
       if n = 0 then (0, fds, \<sigma>\<lparr>kern := (time + nat timeout, 0)\<rparr>)
       else (- 1, fds, \<sigma>\<lparr>errno := EINTR, kern := (time + d, n - 1)\<rparr>))"

text \<open>Two signals, 900 milliseconds after a call each: a time-out of a second is reported after 2.8 seconds.\<close>

theorem wait_restarts_timeout_witness:
  "\<exists>\<sigma>'. xcp_fd_wait_for_rdata (clocked_poll 900) 3 1000 \<lparr>errno = 0, mem = (\<lambda>_. 0), kern = (0, 2)\<rparr> =
     Some (XCP_ERR_TIMEOUT, \<sigma>') \<and> fst (kern \<sigma>') = 2800"
proof -
  have "idle_poll (clocked_poll 900) fst snd 900 1000"
    by (auto simp: idle_poll_def clocked_poll_def split: prod.split)
  from wait_restarts_timeout [OF this, of 3 "\<lparr>errno = 0, mem = (\<lambda>_. 0), kern = (0, 2)\<rparr>"
      "\<lambda>_ _ _ \<sigma>. (0, \<sigma>)" 0 0] show ?thesis by auto
qed

section \<open>Descriptors\<close>

text \<open>
  \<^verbatim>\<open>xcp_fd_set_close_on_exec\<close> writes back the flags it has read with \<^verbatim>\<open>FD_CLOEXEC\<close> (bit 0)
  set to \<open>status\<close> and every other bit as it was, and succeeds exactly when that write does.
\<close>

theorem set_close_on_exec_one_bit:
  assumes "fcntl fd F_GETFD \<sigma> = (flags, \<sigma>1)" and "0 \<le> flags"
  shows "\<exists>flags'. (\<forall>i. bit flags' i = (if i = 0 then status else bit flags i))
    \<and> xcp_fd_set_close_on_exec fcntl fd status \<sigma> =
        (if fst (fcntl fd (F_SETFD flags') \<sigma>1) < 0 then XCP_ERR_ERRNO else XCP_ERR_OK,
         snd (fcntl fd (F_SETFD flags') \<sigma>1))"
proof (intro exI conjI allI)
  let ?flags = "if status then flags OR FD_CLOEXEC else flags AND NOT FD_CLOEXEC"
  show "bit ?flags i = (if i = 0 then status else bit flags i)" for i
    by (auto simp: FD_CLOEXEC_def bit_or_iff bit_and_iff bit_not_iff bit_1_iff)
  show "xcp_fd_set_close_on_exec fcntl fd status \<sigma> =
      (if fst (fcntl fd (F_SETFD ?flags) \<sigma>1) < 0 then XCP_ERR_ERRNO else XCP_ERR_OK,
       snd (fcntl fd (F_SETFD ?flags) \<sigma>1))"
    using assms by (simp add: xcp_fd_set_close_on_exec_def Let_def split: prod.split)
qed

text \<open>A descriptor table with flags, for the witness.\<close>

definition table_fcntl :: "int \<Rightarrow> fcntl_cmd \<Rightarrow> (int \<Rightarrow> int) sys \<Rightarrow> int \<times> (int \<Rightarrow> int) sys" where
  "table_fcntl fd cmd \<sigma> =
     (case cmd of F_GETFD \<Rightarrow> (kern \<sigma> fd, \<sigma>)
      | F_SETFD f \<Rightarrow> (0, \<sigma>\<lparr>kern := (kern \<sigma>)(fd := f)\<rparr>))"

theorem set_close_on_exec_one_bit_witness:
  "let \<sigma> = \<lparr>errno = 0, mem = (\<lambda>_. 0), kern = (\<lambda>_. 6)\<rparr> in
     fst (xcp_fd_set_close_on_exec table_fcntl 5 True \<sigma>) = XCP_ERR_OK
     \<and> kern (snd (xcp_fd_set_close_on_exec table_fcntl 5 True \<sigma>)) 5 = 7"
proof -
  let ?s = "\<lparr>errno = 0, mem = (\<lambda>_. 0), kern = (\<lambda>_. 6)\<rparr> :: (int \<Rightarrow> int) sys"
  obtain f where bits: "\<forall>i. bit f i = (if i = 0 then True else bit (6 :: int) i)"
    and run: "xcp_fd_set_close_on_exec table_fcntl 5 True ?s =
        (if fst (table_fcntl 5 (F_SETFD f) ?s) < 0 then XCP_ERR_ERRNO else XCP_ERR_OK,
         snd (table_fcntl 5 (F_SETFD f) ?s))"
    using set_close_on_exec_one_bit [of table_fcntl 5 ?s 6 ?s True] by (auto simp: table_fcntl_def)
  have "bit f i = bit (6 OR 1 :: int) i" for i
    using bits unfolding bit_or_iff by (auto simp: bit_1_iff)
  then have "f = 6 OR 1" by (rule bit_eqI)
  with run show ?thesis by (simp add: Let_def table_fcntl_def)
qed

text \<open>
  On Linux, \<^verbatim>\<open>close\<close> gives the descriptor up before anything that can be interrupted: whatever it
  answers for an open descriptor, the descriptor is closed afterwards, and a second \<^verbatim>\<open>close\<close> of it
  fails with \<^verbatim>\<open>EBADF\<close> (\<^verbatim>\<open>close(2)\<close>, "Dealing with error returns from close()").
\<close>

definition linux_close :: "'k fd_call \<Rightarrow> ('k \<Rightarrow> int set) \<Rightarrow> bool" where
  "linux_close close open_fds \<longleftrightarrow> (\<forall>fd \<sigma>.
     (if fd \<in> open_fds (kern \<sigma>) then open_fds (kern (snd (close fd \<sigma>))) = open_fds (kern \<sigma>) - {fd}
      else fst (close fd \<sigma>) < 0 \<and> errno (snd (close fd \<sigma>)) = EBADF
        \<and> open_fds (kern (snd (close fd \<sigma>))) = open_fds (kern \<sigma>)))"

text \<open>
  C35: on Linux an interrupted \<^verbatim>\<open>xcp_fd_close\<close> closes a descriptor that is no longer its own: the
  retry after \<^verbatim>\<open>EINTR\<close> finds the number free, so the function reports \<^verbatim>\<open>XCP_ERR_ERRNO\<close> with \<^verbatim>\<open>EBADF\<close>
  although the descriptor was closed (and would close a file that another thread has opened in
  between, which reuses the number).
\<close>

theorem close_retry_on_linux:
  assumes "linux_close close open_fds" and "fd \<in> open_fds (kern \<sigma>)"
    and "fst (close fd \<sigma>) < 0" and "errno (snd (close fd \<sigma>)) = EINTR"
  shows "\<exists>\<sigma>'. xcp_fd_close close fd \<sigma> = Some (XCP_ERR_ERRNO, \<sigma>') \<and> errno \<sigma>' = EBADF
    \<and> open_fds (kern \<sigma>') = open_fds (kern \<sigma>) - {fd}"
proof -
  let ?s1 = "snd (close fd \<sigma>)" and ?s2 = "snd (close fd (snd (close fd \<sigma>)))"
  from assms(1,2) have s1: "open_fds (kern ?s1) = open_fds (kern \<sigma>) - {fd}"
    by (simp add: linux_close_def)
  then have s2: "fst (close fd ?s1) < 0" "errno ?s2 = EBADF" "open_fds (kern ?s2) = open_fds (kern ?s1)"
    using assms(1) [unfolded linux_close_def, THEN spec [of _ fd], THEN spec [of _ ?s1]] by auto
  have "xcp_fd_close close fd \<sigma> = xcp_fd_close close fd ?s1"
    using assms(3,4) by (intro close.is_interrupted) (simp add: close.interrupted_def eintr_def)
  also have "\<dots> = Some (close.answer (fst (close fd ?s1)), ?s2)"
    using s2 by (intro close.not_interrupted) (simp add: close.interrupted_def eintr_def)
  finally show ?thesis using s1 s2 by (simp add: close.answer_def)
qed

text \<open>A table of open descriptors with a flag for a pending signal, for the witness.\<close>

definition signalled_close :: "(int set \<times> bool) fd_call" where
  "signalled_close fd \<sigma> =
     (case kern \<sigma> of (fds, pending) \<Rightarrow>
        if fd \<notin> fds then (- 1, \<sigma>\<lparr>errno := EBADF\<rparr>)
        else if pending then (- 1, \<sigma>\<lparr>errno := EINTR, kern := (fds - {fd}, False)\<rparr>)
        else (0, \<sigma>\<lparr>kern := (fds - {fd}, False)\<rparr>))"

theorem close_retry_on_linux_witness:
  "\<exists>\<sigma>'. xcp_fd_close signalled_close 5 \<lparr>errno = 0, mem = (\<lambda>_. 0), kern = ({5, 6}, True)\<rparr>
        = Some (XCP_ERR_ERRNO, \<sigma>') \<and> errno \<sigma>' = EBADF \<and> fst (kern \<sigma>') = {6}"
proof -
  let ?s = "\<lparr>errno = 0, mem = (\<lambda>_. 0), kern = ({5, 6}, True)\<rparr> :: (int set \<times> bool) sys"
  have "linux_close signalled_close fst"
    by (auto simp: linux_close_def signalled_close_def split: prod.splits)
  from close_retry_on_linux [OF this, of 5 ?s] show ?thesis
    by (auto simp: signalled_close_def)
qed

end
