(* ===== verification/Xcp_Math.thy ===== *)
theory Xcp_Math
  imports "HOL-Library.Word" "HOL-Library.Signed_Division"
begin

text \<open>
  The macros of \<^verbatim>\<open>include/xcp-ng/generic/math.h\<close>. On unsigned operands they are functions on
  words of any width; \<^verbatim>\<open>XCP_DIV_ROUND_UP\<close>, which tests the signs of its operands, is also given on
  signed values, with C's division, which truncates towards zero.
\<close>

unbundle bit_operations_syntax

definition XCP_MIN :: "'a::linorder \<Rightarrow> 'a \<Rightarrow> 'a" where
  "XCP_MIN A B = (if A < B then A else B)"

definition XCP_MAX :: "'a::linorder \<Rightarrow> 'a \<Rightarrow> 'a" where
  "XCP_MAX A B = (if A > B then A else B)"

definition XCP_ROUND_MASK_2 :: "'a::len word \<Rightarrow> 'a word \<Rightarrow> 'a word" where
  "XCP_ROUND_MASK_2 X Y = Y - 1"

definition XCP_ROUND_UP_2 :: "'a::len word \<Rightarrow> 'a word \<Rightarrow> 'a word" where
  "XCP_ROUND_UP_2 X Y = ((X - 1) OR XCP_ROUND_MASK_2 X Y) + 1"

definition XCP_ROUND_DOWN_2 :: "'a::len word \<Rightarrow> 'a word \<Rightarrow> 'a word" where
  "XCP_ROUND_DOWN_2 X Y = X AND NOT (XCP_ROUND_MASK_2 X Y)"

text \<open>A division by zero is undefined behaviour, which is \<^const>\<open>None\<close>.\<close>

definition XCP_ROUND_UP :: "'a::len word \<Rightarrow> 'a word \<Rightarrow> 'a word option" where
  "XCP_ROUND_UP X Y = (if Y = 0 then None else Some (((X + Y - 1) div Y) * Y))"

definition XCP_DIV_ROUND_UP :: "'a::len word \<Rightarrow> 'a word \<Rightarrow> 'a word option" where
  "XCP_DIV_ROUND_UP X Y =
     (if Y = 0 then None
      else Some (X div Y + (if X mod Y \<noteq> 0 then of_bool (\<not> ((X > 0) \<noteq> (Y > 0))) else 0)))"

text \<open>
  On operands of a signed type of \<open>w\<close> bits. Dividing the least value by -1 overflows, and so
  does adding one to the greatest quotient; both are undefined.
\<close>

definition XCP_DIV_ROUND_UP_signed :: "nat \<Rightarrow> int \<Rightarrow> int \<Rightarrow> int option" where
  "XCP_DIV_ROUND_UP_signed w X Y =
     (if Y = 0 \<or> X = - (2 ^ (w - 1)) \<and> Y = - 1 then None
      else let q = X sdiv Y + (if X smod Y \<noteq> 0 then of_bool (\<not> ((X > 0) \<noteq> (Y > 0))) else 0)
           in if q < 2 ^ (w - 1) then Some q else None)"

definition signed_range :: "nat \<Rightarrow> int set" where
  "signed_range w = {- (2 ^ (w - 1)) ..< 2 ^ (w - 1)}"

section \<open>Minimum and maximum\<close>

lemma XCP_MIN_eq [simp]: "XCP_MIN A B = min A B"
  by (auto simp: XCP_MIN_def min_def)

lemma XCP_MAX_eq [simp]: "XCP_MAX A B = max A B"
  by (auto simp: XCP_MAX_def max_def)

section \<open>Rounding to a power of two\<close>

lemma unat_exp [simp]: "k < LENGTH('a) \<Longrightarrow> unat (2 ^ k :: 'a::len word) = 2 ^ k"
  using uint_2p [where 'a='a, of k] by (simp add: unat_eq_nat_uint word_neq_0_conv [symmetric])

lemma mask_split: "(x AND NOT (mask k)) + (x AND mask k) = (x :: 'a::len word)"
proof -
  have "(x AND NOT (mask k)) AND (x AND mask k) = 0"
    by (rule bit_eqI) (auto simp: bit_simps)
  then have "(x AND NOT (mask k)) + (x AND mask k) = (x AND NOT (mask k)) OR (x AND mask k)"
    by (rule disjunctive_add_eq_or)
  also have "\<dots> = x"
    by (rule bit_eqI) (auto simp: bit_simps)
  finally show ?thesis .
qed

lemma unat_and_not_mask: "unat (x AND NOT (mask k) :: 'a::len word) = unat x div 2 ^ k * 2 ^ k"
proof -
  have "unat (x AND NOT (mask k)) = unat x - unat (x AND mask k)"
  proof -
    have "x AND NOT (mask k) = x - (x AND mask k)"
      using mask_split [of x k] by (simp add: algebra_simps)
    moreover have "x AND mask k \<le> x"
      by (rule word_and_le2)
    ultimately show ?thesis by (simp add: unat_sub)
  qed
  also have "unat (x AND mask k) = unat x mod 2 ^ k"
    by (simp only: take_bit_eq_mask [symmetric] unsigned_take_bit_eq) (simp add: take_bit_eq_mod)
  finally show ?thesis by (simp add: minus_mod_eq_div_mult)
qed

lemma or_mask_plus_1: "(x OR mask k) + 1 = (x AND NOT (mask k)) + 2 ^ k" for x :: "'a::len word"
proof -
  have "(x AND NOT (mask k)) AND mask k = 0"
    by (rule bit_eqI) (auto simp: bit_simps)
  then have "(x AND NOT (mask k)) + mask k = (x AND NOT (mask k)) OR mask k"
    by (rule disjunctive_add_eq_or)
  also have "\<dots> = x OR mask k"
    by (rule bit_eqI) (auto simp: bit_simps)
  finally have "x OR mask k = (x AND NOT (mask k)) + mask k" ..
  then show ?thesis by (simp add: mask_eq_exp_minus_1)
qed

lemma XCP_ROUND_DOWN_2_exp:
  "unat (XCP_ROUND_DOWN_2 x (2 ^ k) :: 'a::len word) = unat x div 2 ^ k * 2 ^ k"
  using unat_and_not_mask [of x k]
  by (simp add: XCP_ROUND_DOWN_2_def XCP_ROUND_MASK_2_def mask_eq_exp_minus_1)

text \<open>The least multiple of \<open>m\<close> that is not below \<open>n\<close>.\<close>

definition ceil_to :: "nat \<Rightarrow> nat \<Rightarrow> nat" where
  "ceil_to m n = (n + m - 1) div m * m"

lemma ceil_to_dvd: "m dvd ceil_to m n"
  by (simp add: ceil_to_def)

lemma ceil_to_bounds:
  assumes "0 < m"
  shows "n \<le> ceil_to m n" "ceil_to m n < n + m"
proof -
  have "(n + m - 1) mod m < m" using assms by simp
  then show "n \<le> ceil_to m n" "ceil_to m n < n + m"
    using div_mult_mod_eq [of "n + m - 1" m] assms unfolding ceil_to_def by linarith+
qed

lemma ceil_to_least: "0 < m \<Longrightarrow> m dvd c \<Longrightarrow> n \<le> c \<Longrightarrow> ceil_to m n \<le> c"
proof (rule ccontr)
  assume m: "0 < m" "m dvd c" "n \<le> c" and "\<not> ceil_to m n \<le> c"
  then have above: "c < ceil_to m n" by simp
  moreover have "m dvd ceil_to m n - c"
    using ceil_to_dvd m(2) by (rule dvd_diff_nat)
  ultimately have "m \<le> ceil_to m n - c" by (simp add: dvd_imp_le)
  then show False using above ceil_to_bounds(2) [OF m(1), of n] m(3) by linarith
qed

lemma unat_XCP_ROUND_UP_2:
  assumes k: "k < LENGTH('a)" and fits: "unat (x :: 'a::len word) + 2 ^ k \<le> 2 ^ LENGTH('a)"
  shows "unat (XCP_ROUND_UP_2 x (2 ^ k)) = ceil_to (2 ^ k) (unat x)"
proof (cases "x = 0")
  case True
  then show ?thesis
    by (simp add: XCP_ROUND_UP_2_def XCP_ROUND_MASK_2_def ceil_to_def)
next
  case False
  let ?r = "(unat x - 1) div 2 ^ k * 2 ^ k"
  have x: "unat (x - 1) = unat x - 1" "0 < unat x"
    using False by (simp_all add: unat_minus_one unat_gt_0)
  have up: "XCP_ROUND_UP_2 x (2 ^ k) = ((x - 1) AND NOT (mask k)) + 2 ^ k"
    using or_mask_plus_1 [of "x - 1" k]
    by (simp add: XCP_ROUND_UP_2_def XCP_ROUND_MASK_2_def mask_eq_exp_minus_1)
  have r: "unat ((x - 1) AND NOT (mask k)) = ?r"
    by (simp add: unat_and_not_mask x)
  have "?r \<le> unat x - 1" by simp
  then have "?r + 2 ^ k < 2 ^ LENGTH('a)" using fits x(2) by linarith
  then have "unat (XCP_ROUND_UP_2 x (2 ^ k)) = ?r + 2 ^ k"
    unfolding up using r k by (simp add: unat_word_ariths)
  also have "\<dots> = ((unat x - 1) div 2 ^ k + 1) * 2 ^ k" by simp
  also have "(unat x - 1) div 2 ^ k + 1 = (unat x - 1 + 2 ^ k) div 2 ^ k"
    using div_add_self2 [of "2 ^ k :: nat" "unat x - 1"] by simp
  also have "unat x - 1 + 2 ^ k = unat x + 2 ^ k - 1" using x(2) by simp
  finally show ?thesis by (simp add: ceil_to_def)
qed

section \<open>Rounding to any multiple\<close>

lemma unat_XCP_ROUND_UP:
  assumes "y \<noteq> 0" and fits: "unat x + unat y \<le> 2 ^ LENGTH('a)"
  shows "XCP_ROUND_UP x (y :: 'a::len word) = Some (of_nat (ceil_to (unat y) (unat x)))"
    and "ceil_to (unat y) (unat x) < 2 ^ LENGTH('a)"
proof -
  have y: "0 < unat y" using assms(1) by (simp add: unat_gt_0)
  have s: "unat (x + y - 1) = unat x + unat y - 1"
  proof -
    have "unat x + (unat y - 1) < 2 ^ LENGTH('a)" using fits y by linarith
    then have "unat (x + (y - 1)) = unat x + (unat y - 1)"
      using assms(1) by (simp add: unat_word_ariths(1) unat_minus_one)
    moreover have "x + (y - 1) = x + y - 1" by simp
    ultimately show ?thesis using y by simp
  qed
  show lt: "ceil_to (unat y) (unat x) < 2 ^ LENGTH('a)"
    using ceil_to_bounds(2) [OF y, of "unat x"] fits by linarith
  have "unat ((x + y - 1) div y * y) = ceil_to (unat y) (unat x)"
    using lt by (simp add: unat_word_ariths(2) unat_div s ceil_to_def)
  then have "(x + y - 1) div y * y = of_nat (ceil_to (unat y) (unat x))"
    using lt by (simp add: word_unat_eq_iff unat_of_nat)
  with assms(1) show "XCP_ROUND_UP x y = Some (of_nat (ceil_to (unat y) (unat x)))"
    by (simp add: XCP_ROUND_UP_def)
qed

section \<open>Divisions\<close>

text \<open>C's remainder has the sign of the dividend, so the macro adds one exactly above a positive fraction.\<close>

lemma ceil_div_pos:
  "0 < (y :: int) \<Longrightarrow> - ((- x) div y) = x div y + (if x mod y \<noteq> 0 then 1 else 0)"
  by (simp add: zdiv_zminus1_eq_if)

lemma signed_ceiling:
  assumes "y \<noteq> 0"
  shows "x sdiv y + (if x smod y \<noteq> 0 then of_bool (\<not> ((x > 0) \<noteq> (y > 0))) else 0) = - ((- x) div y :: int)"
proof -
  have pos: "a sdiv b + (if a smod b \<noteq> 0 then 1 else 0) = - ((- a) div b)" if "0 < a" "0 < b" for a b :: int
    using that by (simp add: ceil_div_pos signed_divide_int_def signed_modulo_int_def
        minus_mod_eq_div_mult [symmetric] minus_div_mult_eq_mod)
  consider "x = 0" | "0 < x" "0 < y" | "x < 0" "y < 0" | "0 < x" "y < 0" | "x < 0" "0 < y"
    using assms by linarith
  then show ?thesis
  proof cases
    case 2
    then show ?thesis using pos [of x y] by auto
  next
    case 3
    then show ?thesis using pos [of "- x" "- y"] by (simp add: div_minus_right split: if_splits)
  next
    case 4
    then show ?thesis by (simp add: signed_divide_int_def div_minus_right)
  next
    case 5
    then show ?thesis by (simp add: signed_divide_int_def)
  qed simp
qed

text \<open>The rounded quotient is in the range of the type whenever the division is.\<close>

lemma div_above: "0 < (c :: int) \<Longrightarrow> k * c \<le> x \<Longrightarrow> k \<le> x div c"
  using zdiv_mono1 [of "k * c" x c] by simp

lemma ceiling_fits:
  assumes x: "x \<in> signed_range w" and y: "y \<in> signed_range w" "y \<noteq> 0"
    and ok: "\<not> (x = - (2 ^ (w - 1)) \<and> y = - 1)"
  shows "- ((- x) div y) < 2 ^ (w - 1)"
proof -
  define M :: int where "M = 2 ^ (w - 1)"
  from x y(1) have r: "- M \<le> x" "x < M" "- M \<le> y" "y < M" by (auto simp: signed_range_def M_def)
  have M: "1 \<le> M" by (simp add: M_def)
  have "1 - M \<le> (- x) div y"
  proof (cases "0 < y")
    case True
    then have "(1 - M) * y \<le> (1 - M) * 1" using M by (intro mult_left_mono_neg) auto
    with r(2) True show ?thesis by (intro div_above) auto
  next
    case False
    with y(2) have neg: "0 < - y" by simp
    have "(1 - M) * (- y) \<le> x"
    proof (cases "y = - 1")
      case True
      with ok r(1) show ?thesis by (simp add: M_def)
    next
      case False
      with neg have two: "2 \<le> - y" by simp
      then have "2 \<le> M" using r(3) by simp
      then have "(1 - M) * (- y) \<le> (1 - M) * 2" using two by (intro mult_left_mono_neg) auto
      also have "\<dots> \<le> - M" using \<open>2 \<le> M\<close> by simp
      finally show ?thesis using r(1) by simp
    qed
    then have "1 - M \<le> x div (- y)" using neg by (intro div_above) auto
    then show ?thesis by (simp add: div_minus_right)
  qed
  then show ?thesis by (simp add: M_def)
qed

lemma XCP_DIV_ROUND_UP_signed_ceiling:
  assumes "x \<in> signed_range w" and "y \<in> signed_range w"
  shows "XCP_DIV_ROUND_UP_signed w x y =
    (if y = 0 \<or> x = - (2 ^ (w - 1)) \<and> y = - 1 then None else Some (- ((- x) div y)))"
  using ceiling_fits [OF assms] by (auto simp: XCP_DIV_ROUND_UP_signed_def Let_def signed_ceiling)

lemma unat_XCP_DIV_ROUND_UP:
  assumes "y \<noteq> 0"
  shows "\<exists>q. XCP_DIV_ROUND_UP x (y :: 'a::len word) = Some q \<and>
    unat q = unat x div unat y + (if unat y dvd unat x then 0 else 1)"
proof -
  have y: "0 < unat y" using assms by (simp add: unat_gt_0)
  have m: "x mod y = 0 \<longleftrightarrow> unat y dvd unat x"
    by (simp add: unat_eq_zero [symmetric] unat_mod dvd_eq_mod_eq_0)
  show ?thesis
  proof (cases "unat y dvd unat x")
    case True
    then show ?thesis using assms m by (simp add: XCP_DIV_ROUND_UP_def unat_div)
  next
    case False
    then have "unat y \<noteq> 1" by auto
    with False y have "x \<noteq> 0" "1 < unat y" by auto
    then have "unat x div unat y < unat x" by (simp add: unat_gt_0)
    moreover have "unat x < 2 ^ LENGTH('a)" by (rule unsigned_less)
    ultimately have "unat x div unat y + 1 < 2 ^ LENGTH('a)" by linarith
    then have "unat (x div y + 1) = unat x div unat y + 1"
      by (simp add: unat_word_ariths(1) unat_div)
    with False assms m \<open>x \<noteq> 0\<close> show ?thesis
      by (simp add: XCP_DIV_ROUND_UP_def word_gt_0)
  qed
qed

end
