(* ===== verification/Math_Properties.thy ===== *)
theory Math_Properties
  imports Xcp_Math
begin

text \<open>The properties of the macros of \<^verbatim>\<open>include/xcp-ng/generic/math.h\<close>.\<close>

text \<open>
  C38: rounding an unsigned number up or down to a power of two gives the least multiple that is not
  below it and the greatest one that is not above it, when the multiple above fits the type; rounding
  to any multiple with \<^verbatim>\<open>XCP_ROUND_UP\<close> then gives the same.
\<close>
theorem rounding_is_exact:
  fixes x :: "'a::len word"
  assumes "k < LENGTH('a)" and "unat x + 2 ^ k \<le> 2 ^ LENGTH('a)"
  shows "XCP_ROUND_UP x (2 ^ k) = Some (XCP_ROUND_UP_2 x (2 ^ k)) \<and>
    2 ^ k dvd unat (XCP_ROUND_UP_2 x (2 ^ k)) \<and> 2 ^ k dvd unat (XCP_ROUND_DOWN_2 x (2 ^ k)) \<and>
    unat x \<le> unat (XCP_ROUND_UP_2 x (2 ^ k)) \<and> unat (XCP_ROUND_UP_2 x (2 ^ k)) < unat x + 2 ^ k \<and>
    unat (XCP_ROUND_DOWN_2 x (2 ^ k)) \<le> unat x \<and> unat x < unat (XCP_ROUND_DOWN_2 x (2 ^ k)) + 2 ^ k"
proof -
  have k: "(2 ^ k :: 'a word) \<noteq> 0" "unat (2 ^ k :: 'a word) = 2 ^ k"
    using assms(1) by simp_all
  note up = unat_XCP_ROUND_UP_2 [OF assms]
  have "XCP_ROUND_UP x (2 ^ k) = Some (of_nat (unat (XCP_ROUND_UP_2 x (2 ^ k))))"
    using unat_XCP_ROUND_UP(1) [OF k(1), of x] assms(2) k(2) up by simp
  then have "XCP_ROUND_UP x (2 ^ k) = Some (XCP_ROUND_UP_2 x (2 ^ k))" by simp
  moreover have "unat x < unat x div 2 ^ k * 2 ^ k + 2 ^ k"
  proof -
    have "unat x mod 2 ^ k < 2 ^ k" by simp
    then show ?thesis using div_mult_mod_eq [of "unat x" "2 ^ k"] by linarith
  qed
  ultimately show ?thesis
    using up XCP_ROUND_DOWN_2_exp [of x k] ceil_to_dvd [of "2 ^ k" "unat x"]
      ceil_to_bounds [of "2 ^ k" "unat x"]
    by simp
qed

lemma rounding_is_exact_witness:
  "XCP_ROUND_UP (1048577 :: 64 word) (2 ^ 12) = Some (XCP_ROUND_UP_2 1048577 (2 ^ 12)) \<and>
    2 ^ 12 dvd unat (XCP_ROUND_UP_2 (1048577 :: 64 word) (2 ^ 12)) \<and>
    2 ^ 12 dvd unat (XCP_ROUND_DOWN_2 (1048577 :: 64 word) (2 ^ 12)) \<and>
    unat (1048577 :: 64 word) \<le> unat (XCP_ROUND_UP_2 (1048577 :: 64 word) (2 ^ 12)) \<and>
    unat (XCP_ROUND_UP_2 (1048577 :: 64 word) (2 ^ 12)) < unat (1048577 :: 64 word) + 2 ^ 12 \<and>
    unat (XCP_ROUND_DOWN_2 (1048577 :: 64 word) (2 ^ 12)) \<le> unat (1048577 :: 64 word) \<and>
    unat (1048577 :: 64 word) < unat (XCP_ROUND_DOWN_2 (1048577 :: 64 word) (2 ^ 12)) + 2 ^ 12"
  by (rule rounding_is_exact) simp_all

text \<open>
  C39: on operands of a signed type, which is their type after the integer promotions, \<^verbatim>\<open>XCP_DIV_ROUND_UP\<close> is the quotient rounded towards positive infinity,
  whatever their signs, and adding the one never overflows; it is undefined exactly for a zero divisor
  and for the least value divided by -1, which overflows. On unsigned operands it is the same quotient, never
  wraps round, and is undefined only for a zero divisor.
\<close>
theorem division_rounds_up:
  assumes "a \<in> signed_range w" and "b \<in> signed_range w"
  shows "XCP_DIV_ROUND_UP_signed w a b =
     (if b = 0 \<or> a = - (2 ^ (w - 1)) \<and> b = - 1 then None else Some (- ((- a) div b))) \<and>
   (case XCP_DIV_ROUND_UP x y of
      None \<Rightarrow> y = 0
    | Some q \<Rightarrow> y \<noteq> 0 \<and> int (unat q) = - ((- int (unat (x :: 'a::len word))) div int (unat y)))"
proof
  show "XCP_DIV_ROUND_UP_signed w a b =
     (if b = 0 \<or> a = - (2 ^ (w - 1)) \<and> b = - 1 then None else Some (- ((- a) div b)))"
    by (rule XCP_DIV_ROUND_UP_signed_ceiling [OF assms])
  have ceil: "int (m div n + (if n dvd m then 0 else 1)) = - ((- int m) div int n)" if "0 < n" for m n :: nat
    using that ceil_div_pos [of "int n" "int m"] by (auto simp: zdiv_int zmod_int [symmetric] dvd_eq_mod_eq_0)
  show "case XCP_DIV_ROUND_UP x y of
      None \<Rightarrow> y = 0
    | Some q \<Rightarrow> y \<noteq> 0 \<and> int (unat q) = - ((- int (unat x)) div int (unat y))"
  proof (cases "y = 0")
    case True
    then show ?thesis by (simp add: XCP_DIV_ROUND_UP_def)
  next
    case False
    from unat_XCP_DIV_ROUND_UP [OF this, of x] obtain q where q: "XCP_DIV_ROUND_UP x y = Some q"
      "unat q = unat x div unat y + (if unat y dvd unat x then 0 else 1)" by blast
    moreover have "0 < unat y" using False by (simp add: unat_gt_0)
    ultimately show ?thesis using False ceil [of "unat y" "unat x"] by simp
  qed
qed

text \<open>\<^verbatim>\<open>int\<close> operands: -7 by 2, and the least one by -1; 7 by 2 on bytes.\<close>

lemma division_rounds_up_witness:
  "XCP_DIV_ROUND_UP_signed 32 (- 7) 2 = Some (- 3) \<and>
   XCP_DIV_ROUND_UP_signed 32 (- 2147483648) (- 1) = None \<and>
   (case XCP_DIV_ROUND_UP (7 :: 8 word) 2 of None \<Rightarrow> False | Some q \<Rightarrow> int (unat q) = 4)"
  using division_rounds_up [of "- 7" 32 2 2 "7 :: 8 word"]
    division_rounds_up [of "- 2147483648" 32 "- 1" 2 "7 :: 8 word"]
  by (auto simp: signed_range_def split: option.splits)

end
