(* ===== verification/Stailq.thy ===== *)
theory Stailq
  imports Main
begin

text \<open>
  The singly-linked tail queues (\<^verbatim>\<open>STAILQ_*\<close> of \<^verbatim>\<open>sys/queue.h\<close>) that \<^verbatim>\<open>src/coroutine.c\<close> links its
  pending coroutines with. The queues are intrusive: an element has one \<^verbatim>\<open>next\<close> field, so it can
  be on one queue at a time, and nothing checks that. The model keeps the pointers; the interface
  of a first-in first-out queue is what they provide when that rule is kept.
\<close>

section \<open>Pointers\<close>

type_synonym elem = nat

text \<open>\<^verbatim>\<open>stqh_last\<close> points at a cell of type \<^verbatim>\<open>XcpCoroutine *\<close>: the head's first pointer or a \<^verbatim>\<open>next\<close> field.\<close>

datatype 'h cell = FirstOf 'h | NextOf elem

record 'h stailqs =
  stqh_first :: "'h \<Rightarrow> elem option"
  stqh_last :: "'h \<Rightarrow> 'h cell"
  stqe_next :: "elem \<Rightarrow> elem option"

definition assign_cell :: "'h cell \<Rightarrow> elem option \<Rightarrow> 'h stailqs \<Rightarrow> 'h stailqs" where
  "assign_cell c p m =
     (case c of
        FirstOf h \<Rightarrow> m\<lparr>stqh_first := (stqh_first m)(h := p)\<rparr>
      | NextOf e \<Rightarrow> m\<lparr>stqe_next := (stqe_next m)(e := p)\<rparr>)"

definition STAILQ_INIT :: "'h \<Rightarrow> 'h stailqs \<Rightarrow> 'h stailqs" where
  "STAILQ_INIT h m =
     m\<lparr>stqh_first := (stqh_first m)(h := None), stqh_last := (stqh_last m)(h := FirstOf h)\<rparr>"

definition STAILQ_EMPTY :: "'h \<Rightarrow> 'h stailqs \<Rightarrow> bool" where
  "STAILQ_EMPTY h m \<longleftrightarrow> stqh_first m h = None"

definition STAILQ_FIRST :: "'h \<Rightarrow> 'h stailqs \<Rightarrow> elem option" where
  "STAILQ_FIRST h m = stqh_first m h"

definition STAILQ_INSERT_TAIL :: "'h \<Rightarrow> elem \<Rightarrow> 'h stailqs \<Rightarrow> 'h stailqs" where
  "STAILQ_INSERT_TAIL h x m =
     (let m = m\<lparr>stqe_next := (stqe_next m)(x := None)\<rparr>;
          m = assign_cell (stqh_last m h) (Some x) m
      in m\<lparr>stqh_last := (stqh_last m)(h := NextOf x)\<rparr>)"

text \<open>On an empty queue this dereferences a null pointer, which is \<^const>\<open>None\<close>.\<close>

definition STAILQ_REMOVE_HEAD :: "'h \<Rightarrow> 'h stailqs \<Rightarrow> 'h stailqs option" where
  "STAILQ_REMOVE_HEAD h m =
     (case stqh_first m h of
        None \<Rightarrow> None
      | Some x \<Rightarrow>
          let m = m\<lparr>stqh_first := (stqh_first m)(h := stqe_next m x)\<rparr>
          in Some (if stqh_first m h = None then m\<lparr>stqh_last := (stqh_last m)(h := FirstOf h)\<rparr> else m))"

definition STAILQ_CONCAT :: "'h \<Rightarrow> 'h \<Rightarrow> 'h stailqs \<Rightarrow> 'h stailqs" where
  "STAILQ_CONCAT h1 h2 m =
     (if STAILQ_EMPTY h2 m then m
      else let m = assign_cell (stqh_last m h1) (stqh_first m h2) m;
               m = m\<lparr>stqh_last := (stqh_last m)(h1 := stqh_last m h2)\<rparr>
           in STAILQ_INIT h2 m)"

section \<open>The interface of a queue\<close>

locale fifo =
  fixes holds :: "'m \<Rightarrow> 'h \<Rightarrow> elem list \<Rightarrow> bool"
    and init :: "'h \<Rightarrow> 'm \<Rightarrow> 'm"
    and is_empty :: "'h \<Rightarrow> 'm \<Rightarrow> bool"
    and front :: "'h \<Rightarrow> 'm \<Rightarrow> elem option"
    and insert_tail :: "'h \<Rightarrow> elem \<Rightarrow> 'm \<Rightarrow> 'm"
    and remove_head :: "'h \<Rightarrow> 'm \<Rightarrow> 'm option"
    and concat_to :: "'h \<Rightarrow> 'h \<Rightarrow> 'm \<Rightarrow> 'm"
  assumes init_holds: "holds (init h m) h []"
    and init_frame: "holds m g zs \<Longrightarrow> g \<noteq> h \<Longrightarrow> holds (init h m) g zs"
    and is_empty_iff: "holds m h xs \<Longrightarrow> is_empty h m \<longleftrightarrow> xs = []"
    and front_eq: "holds m h (x # xs) \<Longrightarrow> front h m = Some x"
    and insert_holds: "holds m h xs \<Longrightarrow> x \<notin> set xs \<Longrightarrow> holds (insert_tail h x m) h (xs @ [x])"
    and insert_frame: "holds m h xs \<Longrightarrow> holds m g zs \<Longrightarrow> g \<noteq> h \<Longrightarrow> x \<notin> set zs \<Longrightarrow>
      set xs \<inter> set zs = {} \<Longrightarrow> holds (insert_tail h x m) g zs"
    and remove_holds: "holds m h (x # xs) \<Longrightarrow> \<exists>m'. remove_head h m = Some m' \<and> holds m' h xs"
    and remove_frame: "remove_head h m = Some m' \<Longrightarrow> holds m g zs \<Longrightarrow> g \<noteq> h \<Longrightarrow> holds m' g zs"
    and concat_holds: "holds m h xs \<Longrightarrow> holds m h' ys \<Longrightarrow> h \<noteq> h' \<Longrightarrow> set xs \<inter> set ys = {} \<Longrightarrow>
      holds (concat_to h h' m) h (xs @ ys) \<and> holds (concat_to h h' m) h' []"
    and concat_frame: "holds m h xs \<Longrightarrow> holds m h' ys \<Longrightarrow> holds m g zs \<Longrightarrow> g \<noteq> h \<Longrightarrow> g \<noteq> h' \<Longrightarrow>
      set xs \<inter> set zs = {} \<Longrightarrow> holds (concat_to h h' m) g zs"
begin

text \<open>A queue made of one element.\<close>

lemma singleton_holds: "holds (insert_tail h x (init h m)) h [x]"
  using insert_holds [OF init_holds [of h m], of x] by simp

lemma singleton_frame:
  "holds m g zs \<Longrightarrow> g \<noteq> h \<Longrightarrow> x \<notin> set zs \<Longrightarrow> holds (insert_tail h x (init h m)) g zs"
  using insert_frame [OF init_holds [of h m], of g zs x] init_frame by simp

text \<open>
  Putting one queue in front of another: the second is appended to the first and everything is
  moved back, which leaves the first empty.
\<close>

definition splice :: "'h \<Rightarrow> 'h \<Rightarrow> 'm \<Rightarrow> 'm" where
  "splice h h' m = concat_to h' h (concat_to h h' m)"

lemma splice_holds:
  assumes "holds m h xs" and "holds m h' ys" and "h \<noteq> h'" and "set xs \<inter> set ys = {}"
  shows "holds (splice h h' m) h' (xs @ ys)" "holds (splice h h' m) h []"
proof -
  have "holds (concat_to h h' m) h (xs @ ys)" "holds (concat_to h h' m) h' []"
    using concat_holds [OF assms] by auto
  then show "holds (splice h h' m) h' (xs @ ys)" "holds (splice h h' m) h []"
    using concat_holds [of "concat_to h h' m" h' "[]" h "xs @ ys"] assms(3)
    by (auto simp: splice_def)
qed

lemma splice_frame:
  assumes "holds m h xs" and "holds m h' ys" and "h \<noteq> h'" and "set xs \<inter> set ys = {}"
    and "holds m g zs" and "g \<noteq> h" and "g \<noteq> h'" and "(set xs \<union> set ys) \<inter> set zs = {}"
  shows "holds (splice h h' m) g zs"
proof -
  have one: "holds (concat_to h h' m) h (xs @ ys)" "holds (concat_to h h' m) h' []"
    using concat_holds [OF assms(1-4)] by auto
  have "holds (concat_to h h' m) g zs"
    using concat_frame [OF assms(1,2,5-7)] assms(8) by blast
  then show ?thesis
    using concat_frame [OF one(2) one(1)] assms(6,7) by (simp add: splice_def)
qed

end

section \<open>The pointers implement the interface\<close>

fun chain :: "(elem \<Rightarrow> elem option) \<Rightarrow> elem option \<Rightarrow> elem list \<Rightarrow> bool" where
  "chain n p [] \<longleftrightarrow> p = None"
| "chain n p (x # xs) \<longleftrightarrow> p = Some x \<and> chain n (n x) xs"

definition stailq_holds :: "'h stailqs \<Rightarrow> 'h \<Rightarrow> elem list \<Rightarrow> bool" where
  "stailq_holds m h xs \<longleftrightarrow> distinct xs \<and> chain (stqe_next m) (stqh_first m h) xs \<and>
     stqh_last m h = (if xs = [] then FirstOf h else NextOf (last xs))"

lemma chain_upd [simp]: "e \<notin> set xs \<Longrightarrow> chain (n(e := v)) p xs = chain n p xs"
  by (induction xs arbitrary: p) auto

lemma chain_link:
  "distinct xs \<Longrightarrow> chain n p xs \<Longrightarrow> xs \<noteq> [] \<Longrightarrow> chain n q ys \<Longrightarrow> last xs \<notin> set ys \<Longrightarrow>
   chain (n(last xs := q)) p (xs @ ys)"
proof (induction xs arbitrary: p)
  case (Cons x xs)
  show ?case
  proof (cases "xs = []")
    case True
    have "chain (n(x := q)) q ys"
      using Cons.prems True by (subst chain_upd) auto
    with True Cons.prems(2) show ?thesis by (simp add: fun_upd_def)
  next
    case False
    with Cons.prems have "chain (n(last xs := q)) (n x) (xs @ ys)"
      by (intro Cons.IH) auto
    moreover have "x \<noteq> last xs" using False Cons.prems(1) last_in_set by auto
    ultimately show ?thesis using Cons.prems(2) False by (simp add: fun_upd_def)
  qed
qed simp

lemmas stailq_defs = stailq_holds_def assign_cell_def STAILQ_INIT_def STAILQ_EMPTY_def
  STAILQ_FIRST_def STAILQ_INSERT_TAIL_def STAILQ_REMOVE_HEAD_def STAILQ_CONCAT_def Let_def

lemma stailq_insert_holds:
  assumes "stailq_holds m h xs" and "x \<notin> set xs"
  shows "stailq_holds (STAILQ_INSERT_TAIL h x m) h (xs @ [x])"
proof (cases "xs = []")
  case True
  with assms show ?thesis by (simp add: stailq_defs)
next
  case False
  let ?n = "(stqe_next m)(x := None)"
  from assms False have "chain (?n(last xs := Some x)) (stqh_first m h) (xs @ [x])"
    by (intro chain_link) (auto simp: stailq_holds_def)
  with assms False show ?thesis by (simp add: stailq_defs)
qed

lemma stailq_concat_holds:
  assumes "stailq_holds m h xs" and "stailq_holds m h' ys" and "h \<noteq> h'" and "set xs \<inter> set ys = {}"
  shows "stailq_holds (STAILQ_CONCAT h h' m) h (xs @ ys) \<and> stailq_holds (STAILQ_CONCAT h h' m) h' []"
proof (cases "ys = []")
  case True
  with assms show ?thesis by (simp add: stailq_defs)
next
  case ys: False
  then have ne: "stqh_first m h' \<noteq> None"
    using assms(2) by (auto simp: stailq_holds_def neq_Nil_conv)
  show ?thesis
  proof (cases "xs = []")
    case True
    with assms ys ne show ?thesis by (auto simp: stailq_defs)
  next
    case False
    then have "last xs \<notin> set ys" using assms(4) last_in_set by blast
    with assms False have "chain ((stqe_next m)(last xs := stqh_first m h')) (stqh_first m h) (xs @ ys)"
      by (intro chain_link) (auto simp: stailq_holds_def)
    with assms ys ne False show ?thesis by (auto simp: stailq_defs)
  qed
qed

interpretation sq: fifo stailq_holds STAILQ_INIT STAILQ_EMPTY STAILQ_FIRST STAILQ_INSERT_TAIL
    STAILQ_REMOVE_HEAD STAILQ_CONCAT
proof
  fix m :: "'h stailqs" and h g :: 'h and x :: elem and xs zs :: "elem list"
  show "stailq_holds (STAILQ_INIT h m) h []"
    by (simp add: stailq_defs)
  show "stailq_holds (STAILQ_INIT h m) g zs" if "stailq_holds m g zs" "g \<noteq> h"
    using that by (simp add: stailq_defs)
  show "STAILQ_EMPTY h m \<longleftrightarrow> xs = []" if "stailq_holds m h xs"
    using that by (cases xs) (auto simp: stailq_defs)
  show "STAILQ_FIRST h m = Some x" if "stailq_holds m h (x # xs)"
    using that by (simp add: stailq_defs)
  show "stailq_holds (STAILQ_INSERT_TAIL h x m) h (xs @ [x])" if "stailq_holds m h xs" "x \<notin> set xs"
    using that by (rule stailq_insert_holds)
  show "stailq_holds (STAILQ_INSERT_TAIL h x m) g zs"
    if "stailq_holds m h xs" "stailq_holds m g zs" "g \<noteq> h" "x \<notin> set zs" "set xs \<inter> set zs = {}"
  proof -
    have "xs \<noteq> [] \<Longrightarrow> last xs \<notin> set zs" using that(5) last_in_set by blast
    with that show ?thesis by (cases "xs = []") (auto simp: stailq_defs)
  qed
  show "\<exists>m'. STAILQ_REMOVE_HEAD h m = Some m' \<and> stailq_holds m' h xs" if "stailq_holds m h (x # xs)"
    using that by (cases xs) (auto simp: stailq_defs)
  show "stailq_holds m' g zs" if "STAILQ_REMOVE_HEAD h m = Some m'" "stailq_holds m g zs" "g \<noteq> h" for m'
    using that by (auto simp: stailq_defs split: option.splits if_splits)
next
  fix m :: "'h stailqs" and h h' g :: 'h and xs ys zs :: "elem list"
  assume xs: "stailq_holds m h xs" and ys: "stailq_holds m h' ys"
  show "stailq_holds (STAILQ_CONCAT h h' m) h (xs @ ys) \<and> stailq_holds (STAILQ_CONCAT h h' m) h' []"
    if "h \<noteq> h'" "set xs \<inter> set ys = {}"
    using xs ys that by (rule stailq_concat_holds)
  show "stailq_holds (STAILQ_CONCAT h h' m) g zs"
    if "stailq_holds m g zs" "g \<noteq> h" "g \<noteq> h'" "set xs \<inter> set zs = {}"
  proof -
    have "xs \<noteq> [] \<Longrightarrow> last xs \<notin> set zs" using that(4) last_in_set by blast
    with xs that show ?thesis by (cases "xs = []") (auto simp: stailq_defs)
  qed
qed

end
