(* ===== verification/Simulation.thy ===== *)
theory Simulation
  imports Main
begin

text \<open>
  Outcomes of operations, runs of operations, reachable states and their invariants, and the interface of a refinement: when every operation of
  a machine, called as its callers may call it, has the outcome of the same operation of an abstract
  machine, so has every run.
\<close>

section \<open>Outcomes\<close>

text \<open>A call returns with a new state, ends in \<^verbatim>\<open>abort ()\<close>, or is undefined behaviour.\<close>

datatype 'a outcome = Ok 'a | Aborts | Undefined

fun obind :: "'a outcome \<Rightarrow> ('a \<Rightarrow> 'b outcome) \<Rightarrow> 'b outcome" where
  "obind (Ok a) f = f a"
| "obind Aborts f = Aborts"
| "obind Undefined f = Undefined"

lemma obind_Ok_right [simp]: "obind m Ok = m"
  by (cases m) auto

text \<open>Two outcomes agree when they are of the same kind and the states are related.\<close>

fun outcome_rel :: "('s \<Rightarrow> 'a \<Rightarrow> bool) \<Rightarrow> 's outcome \<Rightarrow> 'a outcome \<Rightarrow> bool" where
  "outcome_rel R (Ok s) (Ok a) \<longleftrightarrow> R s a"
| "outcome_rel R Aborts Aborts \<longleftrightarrow> True"
| "outcome_rel R Undefined Undefined \<longleftrightarrow> True"
| "outcome_rel R _ _ \<longleftrightarrow> False"

fun_cases outcome_relE: "outcome_rel R m n"

section \<open>Runs\<close>

fun run_with :: "('o \<Rightarrow> 's \<Rightarrow> 's outcome) \<Rightarrow> 'o list \<Rightarrow> 's \<Rightarrow> 's outcome" where
  "run_with f [] s = Ok s"
| "run_with f (op # ops) s = obind (f op s) (run_with f ops)"

lemma run_with_append: "run_with f (ops @ ops') s = obind (run_with f ops s) (run_with f ops')"
proof (induction ops arbitrary: s)
  case (Cons op ops)
  then show ?case by (cases "f op s") simp_all
qed simp

text \<open>Each operation of the run may be called in the state in which it is called.\<close>

fun dutiful :: "('o \<Rightarrow> 's \<Rightarrow> bool) \<Rightarrow> ('o \<Rightarrow> 's \<Rightarrow> 's outcome) \<Rightarrow> 'o list \<Rightarrow> 's \<Rightarrow> bool" where
  "dutiful may f [] s \<longleftrightarrow> True"
| "dutiful may f (op # ops) s \<longleftrightarrow> may op s \<and> (case f op s of Ok t \<Rightarrow> dutiful may f ops t | _ \<Rightarrow> True)"

lemma dutiful_append:
  "dutiful may f (ops @ ops') s \<longleftrightarrow>
     dutiful may f ops s \<and> (case run_with f ops s of Ok t \<Rightarrow> dutiful may f ops' t | _ \<Rightarrow> True)"
  by (induction ops arbitrary: s) (auto split: outcome.split)

lemma dutifulI: "(\<And>op s. op \<in> set ops \<Longrightarrow> may op s) \<Longrightarrow> dutiful may f ops s"
  by (induction ops arbitrary: s) (auto split: outcome.split)

section \<open>Reachable states\<close>

inductive reaches :: "('s \<Rightarrow> bool) \<Rightarrow> ('s \<Rightarrow> 's \<Rightarrow> bool) \<Rightarrow> 's \<Rightarrow> bool" for initial steps where
  start: "initial s \<Longrightarrow> reaches initial steps s"
| step: "reaches initial steps s \<Longrightarrow> steps s t \<Longrightarrow> reaches initial steps t"

lemma reaches_refl: "reaches ((=) s) steps s"
  by (simp add: reaches.start)

text \<open>An invariant; that a step keeps it may be shown for reachable states only.\<close>

locale invariant =
  fixes initial :: "'s \<Rightarrow> bool"
    and steps :: "'s \<Rightarrow> 's \<Rightarrow> bool"
    and I :: "'s \<Rightarrow> bool"
  assumes initially: "initial s \<Longrightarrow> I s"
    and kept: "reaches initial steps s \<Longrightarrow> I s \<Longrightarrow> steps s t \<Longrightarrow> I t"
begin

lemma always: "reaches initial steps s \<Longrightarrow> I s"
  by (induction rule: reaches.induct) (blast intro: initially kept)+

end

text \<open>A system seen through a function of its state: each step is one of the other system, or none.\<close>

locale projection =
  fixes initial :: "'s \<Rightarrow> bool"
    and steps :: "'s \<Rightarrow> 's \<Rightarrow> bool"
    and initial' :: "'a \<Rightarrow> bool"
    and steps' :: "'a \<Rightarrow> 'a \<Rightarrow> bool"
    and proj :: "'s \<Rightarrow> 'a"
  assumes projects_start: "initial s \<Longrightarrow> initial' (proj s)"
    and projects_step: "steps s t \<Longrightarrow> steps' (proj s) (proj t) \<or> proj t = proj s"
begin

lemma projects: "reaches initial steps s \<Longrightarrow> reaches initial' steps' (proj s)"
proof (induction rule: reaches.induct)
  case (start s)
  then show ?case by (intro reaches.start projects_start)
next
  case (step s t)
  from projects_step [OF step.hyps(2)] step.IH show ?case by (auto intro: reaches.step)
qed

end

section \<open>Refinement\<close>

locale simulation =
  fixes step :: "'o \<Rightarrow> 's \<Rightarrow> 's outcome"
    and abstract_step :: "'o \<Rightarrow> 'a \<Rightarrow> 'a outcome"
    and R :: "'s \<Rightarrow> 'a \<Rightarrow> bool"
    and may :: "'o \<Rightarrow> 's \<Rightarrow> bool"
    and abstract_may :: "'o \<Rightarrow> 'a \<Rightarrow> bool"
  assumes simulates: "R s a \<Longrightarrow> may op s \<Longrightarrow> abstract_may op a \<Longrightarrow> outcome_rel R (step op s) (abstract_step op a)"
begin

lemma simulates_runs:
  "R s a \<Longrightarrow> dutiful may step ops s \<Longrightarrow> dutiful abstract_may abstract_step ops a \<Longrightarrow>
   outcome_rel R (run_with step ops s) (run_with abstract_step ops a)"
proof (induction ops arbitrary: s a)
  case (Cons op ops)
  then have "outcome_rel R (step op s) (abstract_step op a)" by (intro simulates) simp_all
  then show ?case using Cons by (elim outcome_relE) auto
qed simp

lemma simulates_forward:
  assumes "R s a" "dutiful may step ops s" "dutiful abstract_may abstract_step ops a" "run_with step ops s = Ok t"
  shows "\<exists>b. run_with abstract_step ops a = Ok b \<and> R t b"
  using simulates_runs [OF assms(1-3)] assms(4) by (auto elim: outcome_relE)

lemma simulates_back:
  assumes "R s a" "dutiful may step ops s" "dutiful abstract_may abstract_step ops a" "run_with abstract_step ops a = Ok b"
  shows "\<exists>t. run_with step ops s = Ok t \<and> R t b"
  using simulates_runs [OF assms(1-3)] assms(4) by (auto elim: outcome_relE)

text \<open>The next operation after a run.\<close>

lemma simulates_next:
  assumes "R s a" "dutiful may step ops s" "dutiful abstract_may abstract_step (ops @ [op]) a"
    and "run_with step ops s = Ok t" "may op t"
  shows "\<exists>b. run_with abstract_step ops a = Ok b \<and> R t b \<and> outcome_rel R (step op t) (abstract_step op b)"
proof -
  have "dutiful abstract_may abstract_step ops a" using assms(3) by (simp add: dutiful_append)
  from simulates_forward [OF assms(1,2) this assms(4)] obtain b where
    b: "run_with abstract_step ops a = Ok b" "R t b" by blast
  moreover have "abstract_may op b" using assms(3) b(1) by (simp add: dutiful_append)
  ultimately show ?thesis using simulates [OF b(2) assms(5)] by blast
qed

end

end
