(* ===== verification/Coroutine.thy ===== *)
theory Coroutine
  imports Stailq Simulation
begin

text \<open>
  The coroutines of \<^verbatim>\<open>src/coroutine.c\<close>, one thread. A coroutine is named by the address of its
  \<^verbatim>\<open>XcpCoroutine\<close>; 0 names the \<^verbatim>\<open>dummy\<close> of the thread's data, which stands for the code that runs
  outside every coroutine. The user's callbacks are not part of the library: between two calls
  to it they are opaque, and what they do next (which function they call, or that they return) is
  an operation of the model. Control is where the current coroutine's user code runs; a saved
  \<^verbatim>\<open>sigjmp_buf\<close> is the place in the library where its owner left the processor, with the variables
  of the C frames that are live there.
\<close>

section \<open>State\<close>

type_synonym cid = elem

abbreviation dummy :: cid where
  "dummy \<equiv> 0"

datatype co_status = StatusRunning | StatusSuspend | StatusTerminated

text \<open>
  Where \<^verbatim>\<open>sigsetjmp\<close> was called: before the callback of \<^verbatim>\<open>xcp_coroutine_run\<close>, in
  \<^verbatim>\<open>xcp_coroutine_exec\<close> called by \<^verbatim>\<open>xcp_coroutine_yield\<close>, by \<^verbatim>\<open>xcp_coroutine_resume\<close> (its parameter
  \<^verbatim>\<open>coroutine\<close> and its local \<^verbatim>\<open>callee\<close>), or by the end of \<^verbatim>\<open>xcp_coroutine_run\<close>.
\<close>

datatype jmp_place = Unset | AtStart | InYield | InResume cid cid | AtEnd

record coroutine =
  co_caller :: "cid option"
  co_stack :: nat
  co_env :: jmp_place
  co_cb :: nat
  co_arg :: nat

text \<open>
  The queue heads: the field \<^verbatim>\<open>pendings\<close> of a coroutine, and the local \<^verbatim>\<open>pendings\<close> of the call to
  \<^verbatim>\<open>xcp_coroutine_resume\<close> that a coroutine is in (at most one, as its code runs again only when
  that call has returned).
\<close>

datatype head = PendingsOf cid | LocalOf cid

text \<open>
  The state of a thread: the coroutines in memory, \<^verbatim>\<open>threadData.current\<close>, the queues, and the coroutines
  that \<^verbatim>\<open>xcp_coroutine_destroy\<close> has been called for with their stacks, the last one first.
\<close>

record costate =
  objs :: "cid \<Rightarrow> coroutine option"
  cur :: "cid option"
  links :: "head stailqs"
  destroyed :: "(cid \<times> nat) list"

text \<open>Reading through a pointer to a coroutine: a freed one may not be read.\<close>

definition deref :: "cid \<Rightarrow> costate \<Rightarrow> coroutine outcome" where
  "deref x s = (case objs s x of None \<Rightarrow> Undefined | Some c \<Rightarrow> Ok c)"

text \<open>Appending to a queue writes through its tail pointer, which may lie in an element.\<close>

definition tail_live :: "head \<Rightarrow> costate \<Rightarrow> bool" where
  "tail_live h s \<longleftrightarrow>
     (case stqh_last (links s) h of FirstOf _ \<Rightarrow> True | NextOf e \<Rightarrow> objs s e \<noteq> None)"

definition set_obj :: "cid \<Rightarrow> coroutine \<Rightarrow> costate \<Rightarrow> costate" where
  "set_obj x c s = s\<lparr>objs := (objs s)(x \<mapsto> c)\<rparr>"

section \<open>Switching\<close>

definition xcp_coroutine_get_thread_data :: "costate \<Rightarrow> costate" where
  "xcp_coroutine_get_thread_data s = (if cur s = None then s\<lparr>cur := Some dummy\<rparr> else s)"

definition xcp_coroutine_get_self :: "costate \<Rightarrow> cid \<times> costate" where
  "xcp_coroutine_get_self s =
     (let s = xcp_coroutine_get_thread_data s in (the (cur s), s))"

text \<open>
  \<^verbatim>\<open>xcp_coroutine_exec\<close>, up to the jump: \<open>here\<close> is the place its caller saves, the result the place
  where the callee goes on.
\<close>

definition xcp_coroutine_exec :: "cid \<Rightarrow> jmp_place \<Rightarrow> cid \<Rightarrow> costate \<Rightarrow> (jmp_place \<times> costate) outcome" where
  "xcp_coroutine_exec caller here callee s =
     (let s = (xcp_coroutine_get_thread_data s)\<lparr>cur := Some callee\<rparr> in
      obind (deref caller s) (\<lambda>c.
        let s = set_obj caller (c\<lparr>co_env := here\<rparr>) s in
        obind (deref callee s) (\<lambda>d. Ok (co_env d, s))))"

definition xcp_coroutine_destroy :: "cid \<Rightarrow> costate \<Rightarrow> costate outcome" where
  "xcp_coroutine_destroy x s =
     (if x = dummy then Undefined
      else obind (deref x s) (\<lambda>c. Ok (s\<lparr>destroyed := (x, co_stack c) # destroyed s, objs := (objs s)(x := None)\<rparr>)))"

text \<open>
  Step 2.b of \<^verbatim>\<open>xcp_coroutine_resume\<close>, run by \<open>self\<close>: the pending coroutines of the callee are put in
  front of the queue.
\<close>

definition merge_pendings :: "cid \<Rightarrow> cid \<Rightarrow> costate \<Rightarrow> costate outcome" where
  "merge_pendings self callee s =
     obind (deref callee s) (\<lambda>_.
       if \<not> STAILQ_EMPTY (LocalOf self) (links s) \<and> \<not> tail_live (PendingsOf callee) s then Undefined
       else let m = STAILQ_CONCAT (PendingsOf callee) (LocalOf self) (links s);
           m = STAILQ_CONCAT (LocalOf self) (PendingsOf callee) m
       in Ok (s\<lparr>links := m\<rparr>))"

text \<open>
  Going on at a saved place with the status \<^verbatim>\<open>XcpCoroutineStatusRunning\<close>; \<open>x\<close> is the coroutine that does.
  User code runs, or \<^verbatim>\<open>exec\<close> returns the status inside \<^verbatim>\<open>xcp_coroutine_resume\<close>, which aborts after
  step 2.b, or at the end of \<^verbatim>\<open>xcp_coroutine_run\<close>, which aborts.
\<close>

fun land_running :: "cid \<Rightarrow> jmp_place \<times> costate \<Rightarrow> costate outcome" where
  "land_running x (Unset, s) = Undefined"
| "land_running x (AtStart, s) = Ok s"
| "land_running x (InYield, s) = Ok s"
| "land_running x (InResume arg callee, s) = obind (merge_pendings x callee s) (\<lambda>_. Aborts)"
| "land_running x (AtEnd, s) = Aborts"

text \<open>The head of the loop of \<^verbatim>\<open>xcp_coroutine_resume\<close>; when the queue is empty, the call returns.\<close>

definition resume_loop :: "cid \<Rightarrow> cid \<Rightarrow> costate \<Rightarrow> costate outcome" where
  "resume_loop self coroutine s =
     (if STAILQ_EMPTY (LocalOf self) (links s) then Ok s
      else
        let callee = the (STAILQ_FIRST (LocalOf self) (links s));
            s = s\<lparr>links := the (STAILQ_REMOVE_HEAD (LocalOf self) (links s))\<rparr>
        in obind (deref callee s) (\<lambda>c.
             if co_caller c \<noteq> None then Aborts
             else obind (xcp_coroutine_exec self (InResume coroutine callee) callee
                           (set_obj callee (c\<lparr>co_caller := Some self\<rparr>) s))
                    (land_running callee)))"

text \<open>The rest of its body, after \<^verbatim>\<open>xcp_coroutine_exec\<close> has returned \<open>ret\<close>.\<close>

definition resume_after :: "cid \<Rightarrow> cid \<Rightarrow> cid \<Rightarrow> co_status \<Rightarrow> costate \<Rightarrow> costate outcome" where
  "resume_after self coroutine callee ret s =
     obind (merge_pendings self callee s) (\<lambda>s.
       case ret of
         StatusTerminated \<Rightarrow> obind (xcp_coroutine_destroy coroutine s) (resume_loop self coroutine)
       | StatusSuspend \<Rightarrow> resume_loop self coroutine s
       | StatusRunning \<Rightarrow> Aborts)"

text \<open>Going on at a saved place with any status; \<open>x\<close> is the coroutine that does.\<close>

fun land :: "cid \<Rightarrow> co_status \<Rightarrow> jmp_place \<times> costate \<Rightarrow> costate outcome" where
  "land x st (InResume arg callee, s) = resume_after x arg callee st s"
| "land x st (ctx, s) = land_running x (ctx, s)"

section \<open>The functions of the interface\<close>

text \<open>
  \<open>mem\<close> and \<open>stack\<close> are what \<^verbatim>\<open>malloc\<close> and \<^verbatim>\<open>xcp_coroutine_create_stack\<close> gave, \<^const>\<open>None\<close> for
  \<^verbatim>\<open>NULL\<close>. \<^verbatim>\<open>xcp_coroutine_init\<close> leaves \<^const>\<open>AtStart\<close> in the new coroutine's \<^verbatim>\<open>env\<close>.
\<close>

definition xcp_coroutine_create ::
  "cid option \<Rightarrow> nat option \<Rightarrow> nat \<Rightarrow> nat \<Rightarrow> costate \<Rightarrow> cid option \<times> costate" where
  "xcp_coroutine_create mem stack cb userData s =
     (case mem of
        None \<Rightarrow> (None, s)
      | Some x \<Rightarrow>
          (case stack of
             None \<Rightarrow> (None, s)
           | Some st \<Rightarrow>
               (Some x,
                set_obj x \<lparr>co_caller = None, co_stack = st, co_env = AtStart, co_cb = cb, co_arg = userData\<rparr>
                  ((xcp_coroutine_get_thread_data s)\<lparr>links := STAILQ_INIT (PendingsOf x) (links s)\<rparr>))))"

definition xcp_coroutine_resume :: "cid \<Rightarrow> costate \<Rightarrow> costate outcome" where
  "xcp_coroutine_resume coroutine s =
     (case xcp_coroutine_get_self s of (self, s) \<Rightarrow>
        obind (deref coroutine s) (\<lambda>_.
          let m = STAILQ_INIT (LocalOf self) (links s);
              m = STAILQ_INSERT_TAIL (LocalOf self) coroutine m
          in resume_loop self coroutine (s\<lparr>links := m\<rparr>)))"

definition xcp_coroutine_yield :: "costate \<Rightarrow> costate outcome" where
  "xcp_coroutine_yield s =
     (case xcp_coroutine_get_self s of (self, s) \<Rightarrow>
        obind (deref self s) (\<lambda>c.
          case co_caller c of
            None \<Rightarrow> Aborts
          | Some caller \<Rightarrow>
              obind (xcp_coroutine_exec self InYield caller (set_obj self (c\<lparr>co_caller := None\<rparr>) s))
                (land caller StatusSuspend)))"

text \<open>What \<^verbatim>\<open>xcp_coroutine_run\<close> does when the callback has returned.\<close>

definition xcp_coroutine_run_end :: "costate \<Rightarrow> costate outcome" where
  "xcp_coroutine_run_end s =
     (case xcp_coroutine_get_self s of (self, s) \<Rightarrow>
        obind (deref self s) (\<lambda>c.
          case co_caller c of
            None \<Rightarrow> Undefined
          | Some caller \<Rightarrow>
              obind (xcp_coroutine_exec self AtEnd caller s) (land caller StatusTerminated)))"

text \<open>A build with the assertions, and one with \<^verbatim>\<open>NDEBUG\<close>, in which a coroutine may queue itself.\<close>

definition xcp_coroutine_process :: "cid \<Rightarrow> costate \<Rightarrow> costate outcome" where
  "xcp_coroutine_process coroutine s =
     (case xcp_coroutine_get_self s of (self, s) \<Rightarrow>
        obind (deref self s) (\<lambda>c.
          if co_caller c = None then xcp_coroutine_resume coroutine s
          else if coroutine = self then Aborts
          else obind (deref coroutine s) (\<lambda>_.
                 if \<not> tail_live (PendingsOf self) s then Undefined
                 else Ok (s\<lparr>links := STAILQ_INSERT_TAIL (PendingsOf self) coroutine (links s)\<rparr>))))"

definition xcp_coroutine_process_ndebug :: "cid \<Rightarrow> costate \<Rightarrow> costate outcome" where
  "xcp_coroutine_process_ndebug coroutine s =
     (case xcp_coroutine_get_self s of (self, s) \<Rightarrow>
        obind (deref self s) (\<lambda>c.
          if co_caller c = None then xcp_coroutine_resume coroutine s
          else obind (deref coroutine s) (\<lambda>_.
                 if \<not> tail_live (PendingsOf self) s then Undefined
                 else Ok (s\<lparr>links := STAILQ_INSERT_TAIL (PendingsOf self) coroutine (links s)\<rparr>))))"

section \<open>Runs\<close>

text \<open>What user code can do next.\<close>

datatype co_op =
    Create "cid option" "nat option" nat nat
  | GetSelf
  | Resume cid
  | Yield
  | Process cid
  | Return

definition run_op :: "co_op \<Rightarrow> costate \<Rightarrow> costate outcome" where
  "run_op op s =
     (case op of
        Create mem stack cb userData \<Rightarrow> Ok (snd (xcp_coroutine_create mem stack cb userData s))
      | GetSelf \<Rightarrow> Ok (snd (xcp_coroutine_get_self s))
      | Resume c \<Rightarrow> xcp_coroutine_resume c s
      | Yield \<Rightarrow> xcp_coroutine_yield s
      | Process c \<Rightarrow> xcp_coroutine_process c s
      | Return \<Rightarrow> xcp_coroutine_run_end s)"

text \<open>
  \<^verbatim>\<open>malloc\<close> gives memory that is not in use, and only a callback of a coroutine can return into
  \<^verbatim>\<open>xcp_coroutine_run\<close>.
\<close>

definition enabled :: "co_op \<Rightarrow> costate \<Rightarrow> bool" where
  "enabled op s =
     (case op of
        Create (Some x) _ _ _ \<Rightarrow> x \<noteq> dummy \<and> objs s x = None
      | Return \<Rightarrow> fst (xcp_coroutine_get_self s) \<noteq> dummy
      | _ \<Rightarrow> True)"

abbreviation run_ops :: "co_op list \<Rightarrow> costate \<Rightarrow> costate outcome" where
  "run_ops \<equiv> run_with run_op"

definition co_init :: costate where
  "co_init =
     \<lparr>objs = [dummy \<mapsto> \<lparr>co_caller = None, co_stack = 0, co_env = Unset, co_cb = 0, co_arg = 0\<rparr>],
      cur = None,
      links = \<lparr>stqh_first = (\<lambda>_. None), stqh_last = (\<lambda>h. FirstOf h), stqe_next = (\<lambda>_. None)\<rparr>,
      destroyed = []\<rparr>"

inductive co_step :: "costate \<Rightarrow> costate \<Rightarrow> bool" where
  op: "enabled op s \<Longrightarrow> run_op op s = Ok t \<Longrightarrow> co_step s t"

abbreviation co_reachable :: "costate \<Rightarrow> bool" where
  "co_reachable \<equiv> reaches ((=) co_init) co_step"

inductive_cases co_stepE: "co_step s t"

end
