(* ===== verification/Coroutine_Inv.thy ===== *)
theory Coroutine_Inv
  imports Coroutine
begin

text \<open>
  The invariant of a thread's coroutines. Following the \<^verbatim>\<open>caller\<close> fields from the current coroutine
  leads through distinct live coroutines to the thread's dummy, each of them suspended inside a
  call to \<^verbatim>\<open>xcp_coroutine_resume\<close> that waits for the one before; every other coroutine is either
  ready to be resumed or has ended. Every operation keeps it, whatever the user code does.
\<close>

section \<open>The chain of callers\<close>

text \<open>\<open>xs\<close> runs from the current coroutine down to the dummy.\<close>

fun call_chain :: "(cid \<Rightarrow> coroutine option) \<Rightarrow> cid list \<Rightarrow> bool" where
  "call_chain ob [] \<longleftrightarrow> False"
| "call_chain ob [x] \<longleftrightarrow> x = dummy \<and> (\<exists>c. ob x = Some c \<and> co_caller c = None)"
| "call_chain ob (x # y # r) \<longleftrightarrow>
     (\<exists>c. ob x = Some c \<and> co_caller c = Some y) \<and>
     (\<exists>d a. ob y = Some d \<and> co_env d = InResume a x \<and> a \<notin> set (y # r)) \<and> call_chain ob (y # r)"

text \<open>A coroutine that is not in the chain: it can be resumed, or its callback has returned.\<close>

definition ready :: "coroutine \<Rightarrow> bool" where
  "ready c \<longleftrightarrow> co_caller c = None \<and> (co_env c = AtStart \<or> co_env c = InYield)"

definition ended :: "coroutine \<Rightarrow> bool" where
  "ended c \<longleftrightarrow> co_caller c \<noteq> None \<and> co_env c = AtEnd"

definition idle_ok :: "(cid \<Rightarrow> coroutine option) \<Rightarrow> cid list \<Rightarrow> bool" where
  "idle_ok ob xs \<longleftrightarrow> (\<forall>x c. ob x = Some c \<longrightarrow> x \<notin> set xs \<longrightarrow> ready c \<or> ended c)"

definition chain_inv :: "costate \<Rightarrow> cid list \<Rightarrow> bool" where
  "chain_inv s xs \<longleftrightarrow> distinct xs \<and> call_chain (objs s) xs \<and> idle_ok (objs s) xs \<and>
     (case cur s of None \<Rightarrow> xs = [dummy] | Some x \<Rightarrow> x = hd xs)"

section \<open>Facts about chains\<close>

lemma call_chain_dummy: "call_chain ob xs \<Longrightarrow> dummy \<in> set xs"
  by (induction ob xs rule: call_chain.induct) auto

lemma call_chain_last: "call_chain ob xs \<Longrightarrow> last xs = dummy"
  by (induction ob xs rule: call_chain.induct) auto

lemma call_chain_live: "call_chain ob xs \<Longrightarrow> x \<in> set xs \<Longrightarrow> ob x \<noteq> None"
  by (induction ob xs rule: call_chain.induct) auto

text \<open>A chain depends on its own objects only.\<close>

lemma call_chain_cong:
  "call_chain ob xs \<Longrightarrow> (\<And>x. x \<in> set xs \<Longrightarrow> ob' x = ob x) \<Longrightarrow> call_chain ob' xs"
  by (induction ob xs rule: call_chain.induct) auto

lemma callers_of_chain:
  "call_chain ob xs \<Longrightarrow> y \<in> set xs \<Longrightarrow> ob y = Some d \<Longrightarrow> y = dummy \<or> co_caller d \<noteq> None"
  by (induction ob xs rule: call_chain.induct) auto

text \<open>Of its first element, only on the caller.\<close>

lemma call_chain_head:
  assumes "call_chain ob (x # r)" and "x \<notin> set r"
    and "ob x = Some c" and "co_caller c' = co_caller c"
  shows "call_chain (ob(x \<mapsto> c')) (x # r)"
proof (cases r)
  case Nil
  with assms show ?thesis by auto
next
  case (Cons y r')
  with assms have "call_chain (ob(x \<mapsto> c')) r"
    by (auto elim: call_chain_cong)
  with Cons assms show ?thesis by auto
qed

lemma call_chain_idle: "call_chain ob xs \<Longrightarrow> x \<notin> set xs \<Longrightarrow> call_chain (ob(x := v)) xs"
  by (auto elim: call_chain_cong)

lemma idle_ok_cong:
  "idle_ok ob xs \<Longrightarrow> (\<And>x. x \<notin> set ys \<Longrightarrow> ob' x = ob x) \<Longrightarrow> set xs \<subseteq> set ys \<Longrightarrow> idle_ok ob' ys"
  by (fastforce simp: idle_ok_def)

section \<open>Results that are not a state\<close>

lemma obind_Ok [simp]: "obind m f = Ok b \<longleftrightarrow> (\<exists>a. m = Ok a \<and> f a = Ok b)"
  by (cases m) auto

lemma deref_Ok [simp]: "deref x s = Ok c \<longleftrightarrow> objs s x = Some c"
  by (auto simp: deref_def split: option.split)

lemma set_obj_simps [simp]:
  "objs (set_obj x c s) = (objs s)(x \<mapsto> c)" "cur (set_obj x c s) = cur s"
  "links (set_obj x c s) = links s"
  by (simp_all add: set_obj_def)

lemma get_self_eq: "chain_inv s (x # r) \<Longrightarrow> xcp_coroutine_get_self s = (x, s\<lparr>cur := Some x\<rparr>)"
  by (cases "cur s")
    (simp_all add: chain_inv_def xcp_coroutine_get_self_def xcp_coroutine_get_thread_data_def Let_def)

lemma chain_inv_cur: "chain_inv s (x # r) \<Longrightarrow> chain_inv (s\<lparr>cur := Some x\<rparr>) (x # r)"
  by (simp add: chain_inv_def)

lemma chain_inv_Cons: "chain_inv s xs \<Longrightarrow> \<exists>x r. xs = x # r"
  by (cases xs) (auto simp: chain_inv_def)

lemma chain_inv_live: "chain_inv s xs \<Longrightarrow> y \<in> set xs \<Longrightarrow> \<exists>c. objs s y = Some c"
  using call_chain_live [of "objs s" xs y] by (auto simp: chain_inv_def)

text \<open>The invariant does not speak about the queues.\<close>

lemma chain_inv_links [simp]: "chain_inv (s\<lparr>links := m\<rparr>) xs \<longleftrightarrow> chain_inv s xs"
  by (simp add: chain_inv_def)

section \<open>The loop of \<^verbatim>\<open>xcp_coroutine_resume\<close>\<close>

lemma exec_eq:
  "xcp_coroutine_exec x here y s =
     (case objs s x of
        None \<Rightarrow> Undefined
      | Some c \<Rightarrow>
          (case ((objs s)(x \<mapsto> c\<lparr>co_env := here\<rparr>)) y of
             None \<Rightarrow> Undefined
           | Some d \<Rightarrow> Ok (co_env d, set_obj x (c\<lparr>co_env := here\<rparr>) (s\<lparr>cur := Some y\<rparr>))))"
  by (cases "objs s x"; cases "objs s y"; cases "cur s"; cases "y = x")
    (simp_all add: xcp_coroutine_exec_def Let_def set_obj_def deref_def xcp_coroutine_get_thread_data_def)

lemma exec_Ok:
  "xcp_coroutine_exec x here y s = Ok (ctx, t) \<longleftrightarrow>
     (\<exists>c d. objs s x = Some c \<and> ((objs s)(x \<mapsto> c\<lparr>co_env := here\<rparr>)) y = Some d \<and> ctx = co_env d
        \<and> t = set_obj x (c\<lparr>co_env := here\<rparr>) (s\<lparr>cur := Some y\<rparr>))"
  unfolding exec_eq by (auto split: option.splits)

lemma land_running_Ok: "land_running z (ctx, s) = Ok t \<longleftrightarrow> (ctx = AtStart \<or> ctx = InYield) \<and> t = s"
  by (cases ctx) auto

text \<open>Pushing a coroutine that is ready on top of the chain.\<close>

lemma push_chain:
  assumes inv: "chain_inv s (x # r)" and a: "a \<notin> set (x # r)"
    and y: "objs s y = Some d" "ready d" "y \<noteq> x" "y \<notin> set r"
    and c: "objs s x = Some c"
  shows "chain_inv (set_obj x (c\<lparr>co_env := InResume a y\<rparr>)
    (set_obj y (d\<lparr>co_caller := Some x\<rparr>) s\<lparr>cur := Some y\<rparr>)) (y # x # r)"
proof -
  let ?ob = "(objs s)(y \<mapsto> d\<lparr>co_caller := Some x\<rparr>, x \<mapsto> c\<lparr>co_env := InResume a y\<rparr>)"
  have "call_chain ((objs s)(y \<mapsto> d\<lparr>co_caller := Some x\<rparr>)) (x # r)"
    using inv y by (intro call_chain_idle) (auto simp: chain_inv_def)
  then have "call_chain ?ob (x # r)"
    using inv c y by (intro call_chain_head) (auto simp: chain_inv_def)
  then have "call_chain ?ob (y # x # r)"
    using y a by auto
  moreover have "idle_ok ?ob (y # x # r)"
    using inv by (auto simp: chain_inv_def elim: idle_ok_cong)
  ultimately show ?thesis
    using inv y by (simp add: chain_inv_def set_obj_def)
qed

lemma call_chain_callers:
  "call_chain ob (x # r) \<Longrightarrow> y \<in> set r \<Longrightarrow> \<exists>d a b. ob y = Some d \<and> co_env d = InResume a b \<and> ob b \<noteq> None"
proof (induction r arbitrary: x)
  case (Cons z r)
  then show ?case by (cases "y = z") auto
qed simp

text \<open>What the dummy has resumed: the last coroutine before it, or, when the dummy runs, nothing but itself.\<close>

definition dummy_callee :: "cid list \<Rightarrow> cid" where
  "dummy_callee xs = (if hd xs = dummy then dummy else last (butlast xs))"

lemma dummy_suspended:
  "call_chain ob (x # r) \<Longrightarrow> distinct (x # r) \<Longrightarrow> x \<noteq> dummy \<Longrightarrow>
    \<exists>d a. ob dummy = Some d \<and> co_env d = InResume a (dummy_callee (x # r)) \<and> ob (dummy_callee (x # r)) \<noteq> None"
proof (induction r arbitrary: x)
  case (Cons y r)
  show ?case
  proof (cases "y = dummy")
    case True
    with Cons.prems have "r = []" by (cases r) (auto dest: call_chain_dummy)
    with True Cons.prems show ?thesis by (auto simp: dummy_callee_def)
  next
    case False
    with Cons.IH [of y] Cons.prems have "\<exists>d a. ob dummy = Some d \<and> co_env d = InResume a (dummy_callee (y # r)) \<and>
        ob (dummy_callee (y # r)) \<noteq> None" by auto
    moreover have "r \<noteq> []" using Cons.prems False by auto
    then have "dummy_callee (x # y # r) = dummy_callee (y # r)"
      using Cons.prems False by (simp add: dummy_callee_def)
    ultimately show ?thesis by simp
  qed
qed auto

lemma dummy_caller: "call_chain ob xs \<Longrightarrow> ob dummy = Some d \<Longrightarrow> distinct xs \<Longrightarrow> co_caller d = None"
  by (induction ob xs rule: call_chain.induct) (auto dest: call_chain_dummy)

lemma ready_not_caller:
  "chain_inv s (x # r) \<Longrightarrow> objs s y = Some d \<Longrightarrow> co_env d = AtStart \<or> co_env d = InYield \<Longrightarrow> y \<notin> set r"
  using call_chain_callers [of "objs s" x r y] by (auto simp: chain_inv_def)

text \<open>
  What one turn of the loop does with the first element of the queue: it runs on top of the chain,
  or the process ends.
\<close>

lemma resume_loop_inv:
  assumes inv: "chain_inv s (x # r)" and cur: "cur s = Some x"
    and a: "a \<notin> set (x # r) \<or> STAILQ_FIRST (LocalOf x) (links s) = Some a"
    and run: "resume_loop x a s = Ok t"
  shows "\<exists>ys. chain_inv t ys"
proof (cases "STAILQ_EMPTY (LocalOf x) (links s)")
  case True
  with run inv show ?thesis by (auto simp: resume_loop_def)
next
  case False
  let ?s = "s\<lparr>links := the (STAILQ_REMOVE_HEAD (LocalOf x) (links s))\<rparr>"
  define y where "y = the (STAILQ_FIRST (LocalOf x) (links s))"
  from run False obtain d ctx u where d: "objs s y = Some d" "co_caller d = None"
    and ex: "xcp_coroutine_exec x (InResume a y) y (set_obj y (d\<lparr>co_caller := Some x\<rparr>) ?s) = Ok (ctx, u)"
    and ld: "land_running y (ctx, u) = Ok t"
    by (auto simp: resume_loop_def Let_def y_def split: if_splits)
  from chain_inv_live [OF inv, of x] obtain c where c: "objs s x = Some c" by auto
  have yx: "y \<noteq> x"
    using ex ld by (auto simp: exec_Ok land_running_Ok)
  have t: "t = set_obj x (c\<lparr>co_env := InResume a y\<rparr>)
      (set_obj y (d\<lparr>co_caller := Some x\<rparr>) ?s\<lparr>cur := Some y\<rparr>)"
    and start: "co_env d = AtStart \<or> co_env d = InYield"
    using ex ld yx c d by (auto simp: exec_Ok land_running_Ok set_obj_def)
  have out: "y \<notin> set r" using ready_not_caller [OF inv d(1) start] .
  with yx a have "a \<notin> set (x # r)" by (auto simp: y_def)
  moreover have "chain_inv ?s (x # r)" using inv by simp
  ultimately show ?thesis
    using push_chain [of ?s x r a y d c] yx out t c d start by (auto simp: ready_def)
qed

section \<open>Leaving a coroutine\<close>

lemma pop_chain:
  assumes inv: "chain_inv s (x # y # r)" and c': "ready c' \<or> ended c'"
  shows "chain_inv (set_obj x c' (s\<lparr>cur := Some y\<rparr>)) (y # r)"
proof -
  have "call_chain (objs s) (y # r)" using inv by (simp add: chain_inv_def)
  then have "call_chain ((objs s)(x \<mapsto> c')) (y # r)"
    using inv by (intro call_chain_idle) (simp_all add: chain_inv_def)
  moreover have "idle_ok ((objs s)(x \<mapsto> c')) (y # r)"
    using inv c' by (auto simp: chain_inv_def idle_ok_def)
  ultimately show ?thesis using inv by (simp add: chain_inv_def)
qed

lemma destroy_inv:
  assumes inv: "chain_inv s xs" and z: "z \<notin> set xs"
  shows "chain_inv (s\<lparr>destroyed := u, objs := (objs s)(z := None)\<rparr>) xs"
proof -
  have "call_chain ((objs s)(z := None)) xs"
    using inv z by (simp add: chain_inv_def call_chain_idle)
  moreover have "idle_ok ((objs s)(z := None)) xs"
    using inv by (simp add: chain_inv_def idle_ok_def)
  ultimately show ?thesis using inv by (simp add: chain_inv_def)
qed

lemma resume_after_inv:
  assumes inv: "chain_inv s (x # r)" and cur: "cur s = Some x" and a: "a \<notin> set (x # r)"
    and run: "resume_after x a y st s = Ok t"
  shows "\<exists>ys. chain_inv t ys"
proof -
  let ?s = "s\<lparr>links := STAILQ_CONCAT (LocalOf x) (PendingsOf y)
      (STAILQ_CONCAT (PendingsOf y) (LocalOf x) (links s))\<rparr>"
  from run consider "resume_loop x a ?s = Ok t"
    | u where "resume_loop x a (?s\<lparr>destroyed := u, objs := (objs s)(a := None)\<rparr>) = Ok t"
    by (cases st) (auto simp: resume_after_def merge_pendings_def xcp_coroutine_destroy_def Let_def split: if_splits)
  then show ?thesis
  proof cases
    case 1
    have "chain_inv ?s (x # r)" using inv by simp
    from resume_loop_inv [OF this _ _ 1] cur a show ?thesis by simp
  next
    case 2
    have "chain_inv (?s\<lparr>destroyed := u, objs := (objs ?s)(a := None)\<rparr>) (x # r)"
      by (rule destroy_inv) (use inv a in simp_all)
    from resume_loop_inv [OF _ _ _ 2] this cur a show ?thesis by simp
  qed
qed

text \<open>The caller of the current coroutine waits in a resumption of it.\<close>

lemma head_waits:
  assumes "chain_inv s (x # r)" and "objs s x = Some c" and "co_caller c = Some y"
  shows "\<exists>r' d a. r = y # r' \<and> objs s y = Some d \<and> co_env d = InResume a x \<and> a \<notin> set r \<and> x \<noteq> y"
  using assms by (cases r) (auto simp: chain_inv_def)

lemma yield_inv:
  assumes inv: "chain_inv s (x # r)" and run: "xcp_coroutine_yield s = Ok t"
  shows "\<exists>ys. chain_inv t ys"
proof -
  let ?s = "s\<lparr>cur := Some x\<rparr>"
  from run get_self_eq [OF inv] obtain c y where c: "objs s x = Some c" "co_caller c = Some y"
    by (auto simp: xcp_coroutine_yield_def split: option.splits)
  from head_waits [OF inv this] obtain r' d a where r: "r = y # r'" "a \<notin> set r" "x \<noteq> y"
      and d: "objs s y = Some d" "co_env d = InResume a x" by auto
  let ?t = "set_obj x (c\<lparr>co_caller := None, co_env := InYield\<rparr>) (s\<lparr>cur := Some y\<rparr>)"
  have "xcp_coroutine_exec x InYield y (set_obj x (c\<lparr>co_caller := None\<rparr>) ?s) = Ok (InResume a x, ?t)"
    using d r by (simp add: exec_eq set_obj_def)
  then have "resume_after y a x StatusSuspend ?t = Ok t"
    using run c get_self_eq [OF inv] by (simp add: xcp_coroutine_yield_def)
  moreover have "chain_inv ?t (y # r')"
    using pop_chain [of s x y r'] inv r(1) by (simp add: ready_def)
  ultimately show ?thesis using resume_after_inv [of ?t y r' a x StatusSuspend t] r by simp
qed

lemma run_end_inv:
  assumes inv: "chain_inv s (x # r)" and run: "xcp_coroutine_run_end s = Ok t"
  shows "\<exists>ys. chain_inv t ys"
proof -
  let ?s = "s\<lparr>cur := Some x\<rparr>"
  from run get_self_eq [OF inv] obtain c y where c: "objs s x = Some c" "co_caller c = Some y"
    by (auto simp: xcp_coroutine_run_end_def split: option.splits)
  from head_waits [OF inv this] obtain r' d a where r: "r = y # r'" "a \<notin> set r" "x \<noteq> y"
      and d: "objs s y = Some d" "co_env d = InResume a x" by auto
  let ?t = "set_obj x (c\<lparr>co_env := AtEnd\<rparr>) (s\<lparr>cur := Some y\<rparr>)"
  have "xcp_coroutine_exec x AtEnd y ?s = Ok (InResume a x, ?t)"
    using c d r by (simp add: exec_eq)
  then have "resume_after y a x StatusTerminated ?t = Ok t"
    using run c get_self_eq [OF inv] by (simp add: xcp_coroutine_run_end_def)
  moreover have "chain_inv ?t (y # r')"
    using pop_chain [of s x y r'] inv r(1) c by (simp add: ended_def)
  ultimately show ?thesis using resume_after_inv r by simp
qed

section \<open>Resuming, creating, processing\<close>

lemma resume_inv:
  assumes inv: "chain_inv s (x # r)" and run: "xcp_coroutine_resume a s = Ok t"
  shows "\<exists>ys. chain_inv t ys"
proof -
  let ?s = "s\<lparr>cur := Some x,
      links := STAILQ_INSERT_TAIL (LocalOf x) a (STAILQ_INIT (LocalOf x) (links s))\<rparr>"
  have "resume_loop x a ?s = Ok t"
    using run get_self_eq [OF inv] by (simp add: xcp_coroutine_resume_def)
  moreover have "chain_inv ?s (x # r)" using chain_inv_cur [OF inv] by simp
  moreover have "STAILQ_FIRST (LocalOf x) (links ?s) = Some a"
    using sq.front_eq [OF sq.singleton_holds [of "LocalOf x" a "links s"]] by simp
  ultimately show ?thesis using resume_loop_inv [of ?s x r a t] by simp
qed

lemma process_inv:
  assumes inv: "chain_inv s (x # r)" and run: "xcp_coroutine_process a s = Ok t"
  shows "\<exists>ys. chain_inv t ys"
proof -
  have cur: "chain_inv (s\<lparr>cur := Some x\<rparr>) (x # r)" using inv by (rule chain_inv_cur)
  from run get_self_eq [OF inv] consider "xcp_coroutine_resume a (s\<lparr>cur := Some x\<rparr>) = Ok t"
    | m where "t = s\<lparr>cur := Some x, links := m\<rparr>"
    by (auto simp: xcp_coroutine_process_def split: if_splits)
  then show ?thesis
    using resume_inv [OF cur] cur by cases auto
qed

lemma thread_data_inv: "chain_inv s (x # r) \<Longrightarrow> chain_inv (xcp_coroutine_get_thread_data s) (x # r)"
  by (simp add: chain_inv_def xcp_coroutine_get_thread_data_def split: option.splits)

lemma create_inv:
  assumes inv: "chain_inv s (x # r)" and new: "\<And>y. mem = Some y \<Longrightarrow> objs s y = None"
  shows "\<exists>ys. chain_inv (snd (xcp_coroutine_create mem stack cb userData s)) ys"
proof (cases "(mem, stack)")
  case (Pair m k)
  show ?thesis
  proof (cases "\<exists>y z. m = Some y \<and> k = Some z")
    case False
    with Pair inv show ?thesis
      by (auto simp: xcp_coroutine_create_def split: option.splits)
  next
    case True
    then obtain y z where yz: "mem = Some y" "stack = Some z" using Pair by auto
    let ?c = "\<lparr>co_caller = None, co_stack = z, co_env = AtStart, co_cb = cb, co_arg = userData\<rparr>"
    let ?s = "xcp_coroutine_get_thread_data s"
    have out: "y \<notin> set (x # r)" using new [OF yz(1)] chain_inv_live [OF inv] by fastforce
    have s: "chain_inv ?s (x # r)" using inv by (rule thread_data_inv)
    then have "call_chain ((objs ?s)(y \<mapsto> ?c)) (x # r)"
      by (intro call_chain_idle) (use out in \<open>simp_all add: chain_inv_def\<close>)
    moreover have "idle_ok ((objs ?s)(y \<mapsto> ?c)) (x # r)"
      using s by (auto simp: chain_inv_def idle_ok_def ready_def)
    ultimately have "chain_inv (set_obj y ?c (?s\<lparr>links := STAILQ_INIT (PendingsOf y) (links s)\<rparr>)) (x # r)"
      using s by (simp add: chain_inv_def)
    with yz show ?thesis by (auto simp: xcp_coroutine_create_def)
  qed
qed

section \<open>Every reachable state\<close>

lemma init_inv: "chain_inv co_init [dummy]"
  by (simp add: chain_inv_def co_init_def idle_ok_def)

lemma step_inv:
  assumes inv: "chain_inv s xs" and step: "co_step s t"
  shows "\<exists>ys. chain_inv t ys"
proof -
  from chain_inv_Cons [OF inv] inv obtain x r where inv: "chain_inv s (x # r)" by auto
  from step obtain op where en: "enabled op s" and run: "run_op op s = Ok t" by (auto elim: co_stepE)
  show ?thesis
  proof (cases op)
    case (Create mem stack cb userData)
    with en have "\<And>y. mem = Some y \<Longrightarrow> objs s y = None" by (simp add: enabled_def)
    from create_inv [OF inv this] Create run show ?thesis by (auto simp: run_op_def)
  next
    case GetSelf
    with run get_self_eq [OF inv] chain_inv_cur [OF inv] show ?thesis by (auto simp: run_op_def)
  qed (use run resume_inv [OF inv] yield_inv [OF inv] process_inv [OF inv] run_end_inv [OF inv] in
      \<open>auto simp: run_op_def\<close>)
qed

interpretation chain: invariant "(=) co_init" co_step "\<lambda>s. \<exists>x r. chain_inv s (x # r)"
proof
  fix s t
  show "\<exists>x r. chain_inv s (x # r)" if "co_init = s" using init_inv that by blast
  assume "\<exists>x r. chain_inv s (x # r)" and "co_step s t"
  then obtain ys where ys: "chain_inv t ys" using step_inv by blast
  from chain_inv_Cons [OF ys] ys show "\<exists>x r. chain_inv t (x # r)" by blast
qed

lemma reachable_inv: "co_reachable s \<Longrightarrow> \<exists>x r. chain_inv s (x # r)"
  by (rule chain.always)

end
