(* ===== verification/Coroutine_Spec.thy ===== *)
theory Coroutine_Spec
  imports Coroutine_Inv
begin

text \<open>
  What the coroutines promise when nothing is put on a pending list: a call stack. The abstract
  machine keeps the stack of running coroutines and the set of suspended ones; the lemmas show that
  every operation of \<^verbatim>\<open>src/coroutine.c\<close> gives the outcome the abstract machine gives, aborts and
  undefined behaviour included.
\<close>

section \<open>The abstract machine\<close>

type_synonym stack_state = "cid list \<times> cid set"

fun stack_op :: "co_op \<Rightarrow> stack_state \<Rightarrow> stack_state outcome" where
  "stack_op (Create (Some x) (Some _) _ _) (stk, idle) = Ok (stk, insert x idle)"
| "stack_op (Create _ _ _ _) a = Ok a"
| "stack_op GetSelf a = Ok a"
| "stack_op (Resume c) (stk, idle) =
     (if c \<in> set stk then Aborts
      else if c \<in> idle then Ok (c # stk, idle - {c})
      else Undefined)"
| "stack_op Yield (c # d # stk, idle) = Ok (d # stk, insert c idle)"
| "stack_op Yield a = Aborts"
| "stack_op Return (c # d # stk, idle) = Ok (d # stk, idle)"
| "stack_op Return a = Undefined"
| "stack_op (Process _) a = Undefined"

abbreviation stack_ops :: "co_op list \<Rightarrow> stack_state \<Rightarrow> stack_state outcome" where
  "stack_ops \<equiv> run_with stack_op"

definition no_process :: "co_op \<Rightarrow> bool" where
  "no_process op = (case op of Process _ \<Rightarrow> False | _ \<Rightarrow> True)"

text \<open>Runs that respect \<^verbatim>\<open>malloc\<close> and the callbacks' returns, as the list of their operations.\<close>

inductive co_run :: "co_op list \<Rightarrow> costate \<Rightarrow> bool" where
  start: "co_run [] co_init"
| step: "co_run ops s \<Longrightarrow> enabled op s \<Longrightarrow> run_op op s = Ok t \<Longrightarrow> co_run (ops @ [op]) t"

lemma co_run_iff: "co_run ops s \<longleftrightarrow> dutiful enabled run_op ops co_init \<and> run_ops ops co_init = Ok s"
proof
  show "co_run ops s \<Longrightarrow> dutiful enabled run_op ops co_init \<and> run_ops ops co_init = Ok s"
    by (induction rule: co_run.induct) (simp_all add: dutiful_append run_with_append)
  show "co_run ops s" if "dutiful enabled run_op ops co_init \<and> run_ops ops co_init = Ok s"
    using that
  proof (induction ops arbitrary: s rule: rev_induct)
    case (snoc op ops)
    then obtain t where t: "run_ops ops co_init = Ok t" "run_op op t = Ok s"
      by (cases "run_ops ops co_init") (auto simp: run_with_append)
    with snoc have "co_run ops t" "enabled op t" by (simp_all add: dutiful_append)
    with t show ?case by (rule_tac co_run.step)
  qed (simp add: co_run.start)
qed

section \<open>The simulation relation\<close>

text \<open>The calls that wait were made for the coroutine above them, and no queue has an element.\<close>

fun own_calls :: "(cid \<Rightarrow> coroutine option) \<Rightarrow> cid list \<Rightarrow> bool" where
  "own_calls ob (x # y # r) \<longleftrightarrow> (\<exists>d. ob y = Some d \<and> co_env d = InResume x x) \<and> own_calls ob (y # r)"
| "own_calls ob xs \<longleftrightarrow> True"

definition quiet :: "costate \<Rightarrow> cid list \<Rightarrow> bool" where
  "quiet s stk \<longleftrightarrow> (\<forall>x \<in> dom (objs s). stailq_holds (links s) (PendingsOf x) []) \<and>
     (\<forall>x \<in> set (tl stk). stailq_holds (links s) (LocalOf x) [])"

definition stack_rel :: "costate \<Rightarrow> stack_state \<Rightarrow> bool" where
  "stack_rel s a \<longleftrightarrow>
     (case a of (stk, idle) \<Rightarrow>
        chain_inv s stk \<and> own_calls (objs s) stk \<and> quiet s stk \<and> set stk \<inter> idle = {} \<and>
        dom (objs s) = set stk \<union> idle \<and>
        (\<forall>x c. x \<in> idle \<longrightarrow> objs s x = Some c \<longrightarrow> ready c))"

abbreviation same_outcome :: "costate outcome \<Rightarrow> stack_state outcome \<Rightarrow> bool" where
  "same_outcome \<equiv> outcome_rel stack_rel"

lemma stack_relI:
  "chain_inv s stk \<Longrightarrow> own_calls (objs s) stk \<Longrightarrow> quiet s stk \<Longrightarrow> set stk \<inter> idle = {} \<Longrightarrow>
   dom (objs s) = set stk \<union> idle \<Longrightarrow> (\<And>x c. x \<in> idle \<Longrightarrow> objs s x = Some c \<Longrightarrow> ready c) \<Longrightarrow>
   stack_rel s (stk, idle)"
  by (simp add: stack_rel_def)

lemma stack_relD:
  assumes "stack_rel s (stk, idle)"
  shows "chain_inv s stk" "own_calls (objs s) stk" "quiet s stk" "set stk \<inter> idle = {}"
    "dom (objs s) = set stk \<union> idle" "\<And>x c. x \<in> idle \<Longrightarrow> objs s x = Some c \<Longrightarrow> ready c"
  using assms by (simp_all add: stack_rel_def)

lemma quiet_push:
  assumes "quiet s (x # r)" and "stailq_holds m (LocalOf x) []"
    and "\<And>g. stailq_holds (links s) g [] \<Longrightarrow> g \<noteq> LocalOf x \<Longrightarrow> stailq_holds m g []"
    and "dom ob = dom (objs s)"
  shows "quiet (s\<lparr>objs := ob, cur := k, links := m\<rparr>) (a # x # r)"
proof -
  from assms(1) have p: "\<And>z. z \<in> dom (objs s) \<Longrightarrow> stailq_holds (links s) (PendingsOf z) []"
    and l: "\<And>z. z \<in> set r \<Longrightarrow> stailq_holds (links s) (LocalOf z) []" by (simp_all add: quiet_def)
  have "stailq_holds m (PendingsOf z) []" if "z \<in> dom ob" for z
    using assms(3) p that assms(4) by simp
  moreover have "stailq_holds m (LocalOf z) []" if "z \<in> set (x # r)" for z
    using assms(2,3) l that by (cases "z = x") simp_all
  ultimately show ?thesis by (simp add: quiet_def)
qed

lemma quiet_pop:
  "quiet s (x # y # r) \<Longrightarrow> dom ob \<subseteq> dom (objs s) \<Longrightarrow> quiet (s\<lparr>cur := k, destroyed := u, objs := ob\<rparr>) (y # r)"
  unfolding quiet_def by (cases r) auto

lemma own_calls_cong:
  "own_calls ob xs \<Longrightarrow> (\<And>x. x \<in> set (tl xs) \<Longrightarrow> ob' x = ob x) \<Longrightarrow> own_calls ob' xs"
  by (induction ob xs rule: own_calls.induct) (auto split: list.splits)

lemma own_calls_tl: "own_calls ob (x # r) \<Longrightarrow> own_calls ob r"
  by (cases r) auto

section \<open>What a resumption does, exactly\<close>

text \<open>
  The queue of the call holds the coroutine it was made for, whose turn is the first one. \<open>m\<close> is
  what the links are once it has been removed.
\<close>

lemma resume_eq:
  assumes inv: "chain_inv s (x # r)"
  obtains m where
    "stailq_holds m (LocalOf x) []"
    "\<And>g zs. stailq_holds (links s) g zs \<Longrightarrow> g \<noteq> LocalOf x \<Longrightarrow> a \<notin> set zs \<Longrightarrow> stailq_holds m g zs"
    "xcp_coroutine_resume a s =
       (case objs s a of
          None \<Rightarrow> Undefined
        | Some d \<Rightarrow>
            if co_caller d \<noteq> None then Aborts
            else obind (xcp_coroutine_exec x (InResume a a) a
                          (set_obj a (d\<lparr>co_caller := Some x\<rparr>) (s\<lparr>cur := Some x, links := m\<rparr>)))
                   (land_running a))"
proof -
  let ?l = "STAILQ_INSERT_TAIL (LocalOf x) a (STAILQ_INIT (LocalOf x) (links s))"
  have one: "stailq_holds ?l (LocalOf x) [a]" by (rule sq.singleton_holds)
  from sq.remove_holds [OF this] obtain m
    where m: "STAILQ_REMOVE_HEAD (LocalOf x) ?l = Some m" "stailq_holds m (LocalOf x) []" by auto
  have keeps: "stailq_holds m g zs"
    if "stailq_holds (links s) g zs" "g \<noteq> LocalOf x" "a \<notin> set zs" for g zs
    using sq.remove_frame [OF m(1) sq.singleton_frame [OF that] that(2)] .
  have first: "\<not> STAILQ_EMPTY (LocalOf x) ?l" "STAILQ_FIRST (LocalOf x) ?l = Some a"
    using sq.is_empty_iff [OF one] sq.front_eq [OF one] by auto
  have "xcp_coroutine_resume a s =
       (case objs s a of
          None \<Rightarrow> Undefined
        | Some d \<Rightarrow>
            if co_caller d \<noteq> None then Aborts
            else obind (xcp_coroutine_exec x (InResume a a) a
                          (set_obj a (d\<lparr>co_caller := Some x\<rparr>) (s\<lparr>cur := Some x, links := m\<rparr>)))
                   (land_running a))"
    using get_self_eq [OF inv] first m(1)
    by (simp add: xcp_coroutine_resume_def resume_loop_def deref_def split: option.split)
  from that [OF m(2) keeps this] show thesis .
qed

text \<open>A ready coroutine that is resumed runs on top of the chain, whoever resumes it.\<close>

lemma resume_ready:
  assumes inv: "chain_inv s (x # r)" and d: "objs s a = Some d" "ready d" "a \<notin> set (x # r)"
    and c: "objs s x = Some c"
  obtains m where
    "stailq_holds m (LocalOf x) []"
    "\<And>g zs. stailq_holds (links s) g zs \<Longrightarrow> g \<noteq> LocalOf x \<Longrightarrow> a \<notin> set zs \<Longrightarrow> stailq_holds m g zs"
    "xcp_coroutine_resume a s =
       Ok (s\<lparr>objs := (objs s)(a \<mapsto> d\<lparr>co_caller := Some x\<rparr>, x \<mapsto> c\<lparr>co_env := InResume a a\<rparr>),
             cur := Some a, links := m\<rparr>)"
proof -
  from resume_eq [OF inv, of a] obtain m where m: "stailq_holds m (LocalOf x) []"
    "\<And>g zs. stailq_holds (links s) g zs \<Longrightarrow> g \<noteq> LocalOf x \<Longrightarrow> a \<notin> set zs \<Longrightarrow> stailq_holds m g zs"
    "xcp_coroutine_resume a s =
       (case objs s a of
          None \<Rightarrow> Undefined
        | Some d \<Rightarrow>
            if co_caller d \<noteq> None then Aborts
            else obind (xcp_coroutine_exec x (InResume a a) a
                          (set_obj a (d\<lparr>co_caller := Some x\<rparr>) (s\<lparr>cur := Some x, links := m\<rparr>)))
                   (land_running a))" by blast
  have "xcp_coroutine_resume a s =
       Ok (s\<lparr>objs := (objs s)(a \<mapsto> d\<lparr>co_caller := Some x\<rparr>, x \<mapsto> c\<lparr>co_env := InResume a a\<rparr>),
             cur := Some a, links := m\<rparr>)"
    using m(3) d c by (cases "co_env d") (auto simp: exec_eq set_obj_def ready_def)
  from that [OF m(1) m(2) this] show thesis .
qed

text \<open>
  What happens to the first coroutine \<open>p\<close> of the queue when it is not ready: a freed one is undefined, a
  live one makes the process abort. The dummy gets as far as merging the pending coroutines of its callee
  with its own queue, which must not write through a dangling tail pointer.
\<close>

definition dangling :: "cid list \<Rightarrow> head stailqs \<Rightarrow> costate \<Rightarrow> bool" where
  "dangling xs m s \<longleftrightarrow> \<not> STAILQ_EMPTY (LocalOf dummy) m \<and> \<not> tail_live (PendingsOf (dummy_callee xs)) (s\<lparr>links := m\<rparr>)"

lemma merge_then_abort:
  "objs s v \<noteq> None \<Longrightarrow> obind (merge_pendings x v s) (\<lambda>_. Aborts) =
    (if STAILQ_EMPTY (LocalOf x) (links s) \<or> tail_live (PendingsOf v) s then Aborts else Undefined)"
  by (auto simp: merge_pendings_def deref_def Let_def split: option.split)

lemma tail_live_cong:
  "stqh_last (links t) h = stqh_last (links s) h \<Longrightarrow> dom (objs t) = dom (objs s) \<Longrightarrow> tail_live h t = tail_live h s"
  by (auto simp: tail_live_def dom_def split: cell.split)

lemma not_ready_cases:
  assumes inv: "chain_inv s (x # r)" and d: "objs s p = Some d" and p: "p \<in> set (x # r) \<or> \<not> ready d"
  obtains "co_caller d \<noteq> None" "p \<noteq> dummy" | "p = dummy" "co_caller d = None"
proof (cases "p = dummy")
  case True
  with inv d have "co_caller d = None"
    using dummy_caller [of "objs s" "x # r" d] by (simp add: chain_inv_def)
  with True show thesis by (rule that(2))
next
  case False
  have "co_caller d \<noteq> None"
  proof (cases "p \<in> set (x # r)")
    case True
    with False inv d show ?thesis
      using callers_of_chain [of "objs s" "x # r" p d] by (simp add: chain_inv_def)
  next
    case F: False
    with p d inv show ?thesis by (fastforce simp: chain_inv_def idle_ok_def ended_def)
  qed
  from this False show thesis by (rule that(1))
qed

lemma loop_not_ready:
  assumes inv: "chain_inv s (x # r)" and q: "stailq_holds (links s) (LocalOf x) (p # ps)"
    and p: "\<And>d. objs s p = Some d \<Longrightarrow> p \<in> set (x # r) \<or> \<not> ready d"
    and m: "STAILQ_REMOVE_HEAD (LocalOf x) (links s) = Some m"
  shows "resume_loop x a s =
    (if objs s p = None \<or> p = dummy \<and> dangling (x # r) m s then Undefined else Aborts)"
proof (cases "objs s p")
  case None
  then show ?thesis
    using sq.is_empty_iff [OF q] sq.front_eq [OF q] by (simp add: resume_loop_def deref_def Let_def)
next
  case (Some d)
  from chain_inv_live [OF inv, of x] obtain c where c: "objs s x = Some c" by auto
  have loop: "resume_loop x a s =
      (if co_caller d \<noteq> None then Aborts
       else obind (xcp_coroutine_exec x (InResume a p) p (set_obj p (d\<lparr>co_caller := Some x\<rparr>) (s\<lparr>links := m\<rparr>)))
              (land_running p))"
    using sq.is_empty_iff [OF q] sq.front_eq [OF q] m Some by (simp add: resume_loop_def deref_def)
  show ?thesis
    using inv Some p [OF Some]
  proof (cases rule: not_ready_cases)
    case 1
    with loop Some show ?thesis by simp
  next
    case 2
    let ?v = "dummy_callee (x # r)"
    let ?t = "s\<lparr>links := m, cur := Some p,
      objs := (objs s)(p \<mapsto> d\<lparr>co_caller := Some x\<rparr>, x \<mapsto> (if p = x then d\<lparr>co_caller := Some x\<rparr> else c)\<lparr>co_env := InResume a p\<rparr>)\<rparr>"
    have "resume_loop x a s = obind (merge_pendings dummy ?v ?t) (\<lambda>_. Aborts)"
    proof (cases "p = x")
      case True
      with 2 loop Some show ?thesis by (simp add: exec_eq set_obj_def dummy_callee_def)
    next
      case False
      with 2 inv dummy_suspended [of "objs s" x r] obtain b where "co_env d = InResume b ?v"
        using Some by (auto simp: chain_inv_def)
      with False 2 loop Some c show ?thesis by (simp add: exec_eq set_obj_def)
    qed
    also have "objs ?t ?v \<noteq> None"
      using 2 inv dummy_suspended [of "objs s" x r] Some by (auto simp: chain_inv_def dummy_callee_def)
    note merge_then_abort [OF this, of dummy]
    also have "tail_live (PendingsOf ?v) ?t = tail_live (PendingsOf ?v) (s\<lparr>links := m\<rparr>)"
      by (rule tail_live_cong) (use Some c in auto)
    finally show ?thesis using Some 2 by (simp add: dangling_def)
  qed
qed

lemma resume_is_loop:
  assumes inv: "chain_inv s (x # r)"
  obtains l m where "stailq_holds l (LocalOf x) [a]" "STAILQ_REMOVE_HEAD (LocalOf x) l = Some m"
    "stailq_holds m (LocalOf x) []"
    "\<And>g. g \<noteq> LocalOf x \<Longrightarrow> stqh_first m g = stqh_first (links s) g \<and> stqh_last m g = stqh_last (links s) g"
    "xcp_coroutine_resume a s =
      (if objs s a = None then Undefined else resume_loop x a (s\<lparr>cur := Some x, links := l\<rparr>))"
proof -
  let ?l = "STAILQ_INSERT_TAIL (LocalOf x) a (STAILQ_INIT (LocalOf x) (links s))"
  have one: "stailq_holds ?l (LocalOf x) [a]" by (rule sq.singleton_holds)
  from sq.remove_holds [OF this] obtain m
    where m: "STAILQ_REMOVE_HEAD (LocalOf x) ?l = Some m" "stailq_holds m (LocalOf x) []" by auto
  have "stqh_first m g = stqh_first (links s) g \<and> stqh_last m g = stqh_last (links s) g" if "g \<noteq> LocalOf x" for g
    using m(1) that by (auto simp: STAILQ_REMOVE_HEAD_def STAILQ_INSERT_TAIL_def STAILQ_INIT_def assign_cell_def Let_def
        split: option.splits if_splits)
  moreover have "xcp_coroutine_resume a s =
      (if objs s a = None then Undefined else resume_loop x a (s\<lparr>cur := Some x, links := ?l\<rparr>))"
    using get_self_eq [OF inv] by (simp add: xcp_coroutine_resume_def deref_def split: option.split)
  ultimately show thesis using that [OF one m] by blast
qed

lemma resume_not_ready:
  assumes inv: "chain_inv s (x # r)" and a: "\<forall>d. objs s a = Some d \<longrightarrow> a \<in> set (x # r) \<or> \<not> ready d"
  shows "xcp_coroutine_resume a s =
    (if objs s a = None \<or> a = dummy \<and> x \<noteq> dummy \<and> dangling (x # r) (links s) s then Undefined else Aborts)"
proof -
  from resume_is_loop [OF inv, of a] obtain l m where l: "stailq_holds l (LocalOf x) [a]"
      "STAILQ_REMOVE_HEAD (LocalOf x) l = Some m" "stailq_holds m (LocalOf x) []"
      "\<And>g. g \<noteq> LocalOf x \<Longrightarrow> stqh_first m g = stqh_first (links s) g \<and> stqh_last m g = stqh_last (links s) g"
      "xcp_coroutine_resume a s =
        (if objs s a = None then Undefined else resume_loop x a (s\<lparr>cur := Some x, links := l\<rparr>))" by metis
  let ?s = "s\<lparr>cur := Some x, links := l\<rparr>"
  have "dangling (x # r) m ?s \<longleftrightarrow> x \<noteq> dummy \<and> dangling (x # r) (links s) s"
  proof (cases "x = dummy")
    case True
    with sq.is_empty_iff [OF l(3)] show ?thesis by (simp add: dangling_def)
  next
    case False
    with l(4) [of "LocalOf dummy"] l(4) [of "PendingsOf (dummy_callee (x # r))"] show ?thesis
      by (auto simp: dangling_def STAILQ_EMPTY_def tail_live_def split: cell.splits)
  qed
  moreover have "resume_loop x a ?s = (if objs s a = None \<or> a = dummy \<and> dangling (x # r) m ?s then Undefined else Aborts)"
    using loop_not_ready [of ?s x r a "[]" m a] inv l(1,2) a by (auto simp: chain_inv_def)
  ultimately show ?thesis using l(5) by (cases "objs s a = None") simp_all
qed

lemma not_dangling: "stailq_holds (links s) (LocalOf dummy) [] \<Longrightarrow> \<not> dangling xs (links s) s"
  using sq.is_empty_iff [of "links s" "LocalOf dummy" "[]"] by (simp add: dangling_def)

section \<open>Returning to the caller when no queue has an element\<close>

lemma after_quiet:
  assumes "stailq_holds (links s) (LocalOf y) []" and "stailq_holds (links s) (PendingsOf x) []"
    and "objs s x = Some c"
  shows "resume_after y x x StatusSuspend s = Ok s"
    and "x \<noteq> dummy \<Longrightarrow> resume_after y x x StatusTerminated s =
      Ok (s\<lparr>destroyed := (x, co_stack c) # destroyed s, objs := (objs s)(x := None)\<rparr>)"
  using assms sq.is_empty_iff [OF assms(1)] sq.is_empty_iff [OF assms(2)]
  by (simp_all add: resume_after_def merge_pendings_def resume_loop_def STAILQ_CONCAT_def xcp_coroutine_destroy_def deref_def)

lemma yield_quiet:
  assumes inv: "chain_inv s (x # y # r)" and own: "own_calls (objs s) (x # y # r)"
    and q: "stailq_holds (links s) (LocalOf y) []" "stailq_holds (links s) (PendingsOf x) []"
    and c: "objs s x = Some c"
  shows "xcp_coroutine_yield s =
    Ok (s\<lparr>cur := Some y, objs := (objs s)(x \<mapsto> c\<lparr>co_caller := None, co_env := InYield\<rparr>)\<rparr>)"
proof -
  from own inv c obtain d where d: "objs s y = Some d" "co_env d = InResume x x"
      "co_caller c = Some y" "x \<noteq> y" by (auto simp: chain_inv_def)
  with get_self_eq [OF inv] c after_quiet(1) [of "s\<lparr>cur := Some y, objs := (objs s)(x \<mapsto> c\<lparr>co_caller := None, co_env := InYield\<rparr>)\<rparr>" y x]
  show ?thesis using q by (simp add: xcp_coroutine_yield_def deref_def exec_eq set_obj_def)
qed

lemma return_quiet:
  assumes inv: "chain_inv s (x # y # r)" and own: "own_calls (objs s) (x # y # r)"
    and q: "stailq_holds (links s) (LocalOf y) []" "stailq_holds (links s) (PendingsOf x) []"
    and c: "objs s x = Some c"
  shows "xcp_coroutine_run_end s =
    Ok (s\<lparr>cur := Some y, destroyed := (x, co_stack c) # destroyed s, objs := (objs s)(x := None)\<rparr>)"
proof -
  from own inv c obtain d where d: "objs s y = Some d" "co_env d = InResume x x"
      "co_caller c = Some y" "x \<noteq> y" by (auto simp: chain_inv_def)
  have "dummy \<in> set (y # r)"
    by (rule call_chain_dummy [of "objs s"]) (use inv in \<open>simp add: chain_inv_def\<close>)
  moreover have "x \<notin> set (y # r)" using inv by (simp add: chain_inv_def)
  ultimately have "x \<noteq> dummy" by metis
  with c d get_self_eq [OF inv] after_quiet(2) [of "s\<lparr>cur := Some y, objs := (objs s)(x \<mapsto> c\<lparr>co_env := AtEnd\<rparr>)\<rparr>" y x]
  show ?thesis using q by (simp add: xcp_coroutine_run_end_def deref_def exec_eq set_obj_def)
qed

lemma main_yields: "chain_inv s [x] \<Longrightarrow> xcp_coroutine_yield s = Aborts"
  using get_self_eq [of s x "[]"] by (auto simp: xcp_coroutine_yield_def chain_inv_def deref_def)

section \<open>The simulation, operation by operation\<close>

lemma rel_init: "stack_rel co_init ([dummy], {})"
proof -
  have "stailq_holds (links co_init) h []" for h by (simp add: co_init_def stailq_holds_def)
  moreover have "dom (objs co_init) = {dummy}" by (simp add: co_init_def)
  ultimately show ?thesis using init_inv by (simp add: stack_rel_def quiet_def)
qed

lemma rel_live: "stack_rel s (stk, idle) \<Longrightarrow> x \<in> set stk \<or> x \<in> idle \<Longrightarrow> \<exists>c. objs s x = Some c"
  by (simp add: stack_rel_def) (metis domD UnCI)

lemma rel_Cons: "stack_rel s (stk, idle) \<Longrightarrow> \<exists>x r. stk = x # r"
  using chain_inv_Cons by (auto simp: stack_rel_def)

lemma sim_resume_ready:
  assumes rel: "stack_rel s (x # r, idle)" and True: "a \<in> idle"
  shows "same_outcome (xcp_coroutine_resume a s) (stack_op (Resume a) (x # r, idle))"
proof -
  note inv = stack_relD(1) [OF rel]
  from chain_inv_live [OF inv, of x] obtain c where c: "objs s x = Some c" by auto
  from rel_live [OF rel, of a] True obtain d where d: "objs s a = Some d" by auto
  have out: "a \<notin> set (x # r)" using True stack_relD(4) [OF rel] by blast
  then have ax: "a \<noteq> x" "a \<notin> set r" by auto
  have rd: "ready d" using stack_relD(6) [OF rel True d] .
  from resume_ready [OF inv d rd out c] obtain m where m: "stailq_holds m (LocalOf x) []"
    and keeps: "\<And>g zs. stailq_holds (links s) g zs \<Longrightarrow> g \<noteq> LocalOf x \<Longrightarrow> a \<notin> set zs \<Longrightarrow> stailq_holds m g zs"
    and eq: "xcp_coroutine_resume a s =
       Ok (s\<lparr>objs := (objs s)(a \<mapsto> d\<lparr>co_caller := Some x\<rparr>, x \<mapsto> c\<lparr>co_env := InResume a a\<rparr>),
             cur := Some a, links := m\<rparr>)" by blast
  let ?ob = "(objs s)(a \<mapsto> d\<lparr>co_caller := Some x\<rparr>, x \<mapsto> c\<lparr>co_env := InResume a a\<rparr>)"
  have dom: "dom ?ob = dom (objs s)" using d c by auto
  have "stack_rel (s\<lparr>objs := ?ob, cur := Some a, links := m\<rparr>) (a # x # r, idle - {a})"
  proof (rule stack_relI)
    show "chain_inv (s\<lparr>objs := ?ob, cur := Some a, links := m\<rparr>) (a # x # r)"
      using push_chain [OF inv out d rd ax c] by (simp add: set_obj_def chain_inv_def)
    have "x \<notin> set r" using inv by (simp add: chain_inv_def)
    then have "own_calls ?ob (x # r)"
      using own_calls_cong [OF stack_relD(2) [OF rel], of ?ob] ax by fastforce
    then show "own_calls (objs (s\<lparr>objs := ?ob, cur := Some a, links := m\<rparr>)) (a # x # r)" by simp
    show "quiet (s\<lparr>objs := ?ob, cur := Some a, links := m\<rparr>) (a # x # r)"
      by (rule quiet_push [OF stack_relD(3) [OF rel] m _ dom]) (simp add: keeps)
    show "dom (objs (s\<lparr>objs := ?ob, cur := Some a, links := m\<rparr>)) = set (a # x # r) \<union> (idle - {a})"
      using dom stack_relD(5) [OF rel] True by auto
    show "ready c'" if "z \<in> idle - {a}" "objs (s\<lparr>objs := ?ob, cur := Some a, links := m\<rparr>) z = Some c'" for z c'
    proof -
      have "z \<noteq> x" using that(1) stack_relD(4) [OF rel] by auto
      with that stack_relD(6) [OF rel, of z c'] show ?thesis by simp
    qed
  qed (use stack_relD(4) [OF rel] in auto)
  then show ?thesis using eq True out by simp
qed

lemma sim_resume_not_ready:
  assumes rel: "stack_rel s (x # r, idle)" and a: "a \<notin> idle"
  shows "xcp_coroutine_resume a s = (if objs s a = None then Undefined else Aborts)"
proof -
  note inv = stack_relD(1) [OF rel]
  have "a \<in> set (x # r) \<or> \<not> ready d" if "objs s a = Some d" for d
    using that a stack_relD(5) [OF rel] by (metis UnE domI)
  moreover have "\<not> dangling (x # r) (links s) s" if "x \<noteq> dummy"
  proof (rule not_dangling)
    have "dummy \<in> set (x # r)"
      by (rule call_chain_dummy [of "objs s"]) (use inv in \<open>simp add: chain_inv_def\<close>)
    with that stack_relD(3) [OF rel] show "stailq_holds (links s) (LocalOf dummy) []" by (auto simp: quiet_def)
  qed
  ultimately show ?thesis using resume_not_ready [OF inv, of a] by auto
qed

lemma sim_resume:
  assumes rel: "stack_rel s (x # r, idle)"
  shows "same_outcome (xcp_coroutine_resume a s) (stack_op (Resume a) (x # r, idle))"
proof (cases "a \<in> idle")
  case False
  moreover have "objs s a = None \<longleftrightarrow> a \<notin> set (x # r)"
    using False stack_relD(5) [OF rel] by blast
  ultimately show ?thesis using sim_resume_not_ready [OF rel False] by simp
qed (rule sim_resume_ready [OF rel])

lemma rel_pop:
  assumes rel: "stack_rel s (x # y # r, idle)" and c: "objs s x = Some c"
  shows "stack_rel (s\<lparr>cur := Some y, objs := (objs s)(x \<mapsto> c\<lparr>co_caller := None, co_env := InYield\<rparr>)\<rparr>)
      (y # r, insert x idle)" (is "stack_rel ?s1 _")
    and "stack_rel (s\<lparr>cur := Some y, destroyed := u, objs := (objs s)(x := None)\<rparr>) (y # r, idle)" (is "stack_rel ?s2 _")
proof -
  let ?c = "c\<lparr>co_caller := None, co_env := InYield\<rparr>"
  note inv = stack_relD(1) [OF rel]
  then have x: "x \<notin> set (y # r)" by (simp add: chain_inv_def)
  have own: "own_calls ((objs s)(x := v)) (y # r)" for v
    by (rule own_calls_cong [OF own_calls_tl [OF stack_relD(2) [OF rel]]]) (use x in auto)
  have pop: "chain_inv ?s1 (y # r)"
    using pop_chain [OF inv, of ?c] by (simp add: set_obj_def ready_def)
  have dom: "dom (objs s) = insert x (set (y # r) \<union> idle)" using stack_relD(5) [OF rel] by simp
  then have sub: "dom ((objs s)(x := v)) \<subseteq> dom (objs s)" for v by auto
  show "stack_rel ?s1 (y # r, insert x idle)"
  proof (rule stack_relI [OF pop])
    show "quiet ?s1 (y # r)"
      using quiet_pop [OF stack_relD(3) [OF rel] sub, where k = "Some y" and u = "destroyed s"] by simp
    show "dom (objs ?s1) = set (y # r) \<union> insert x idle" using dom by auto
    show "ready c'" if "z \<in> insert x idle" "objs ?s1 z = Some c'" for z c'
      using that stack_relD(6) [OF rel, of z c'] by (cases "z = x") (auto simp: ready_def)
  qed (use own x stack_relD(4) [OF rel] in auto)
  have "chain_inv ?s2 (y # r)"
    using destroy_inv [OF pop x] by simp
  then show "stack_rel ?s2 (y # r, idle)"
  proof (rule stack_relI)
    have "x \<notin> idle" using stack_relD(4) [OF rel] by auto
    then show "dom (objs ?s2) = set (y # r) \<union> idle" using dom x by auto
    show "quiet ?s2 (y # r)" by (rule quiet_pop [OF stack_relD(3) [OF rel] sub])
    show "ready c'" if "z \<in> idle" "objs ?s2 z = Some c'" for z c'
      using that stack_relD(6) [OF rel, of z c'] by (cases "z = x") auto
  qed (use own stack_relD(4) [OF rel] in auto)
qed

lemma quiet_top:
  assumes "stack_rel s (x # y # r, idle)"
  shows "stailq_holds (links s) (LocalOf y) []" "stailq_holds (links s) (PendingsOf x) []"
  using stack_relD(3,5) [OF assms] by (auto simp: quiet_def)

lemma sim_yield:
  assumes rel: "stack_rel s (stk, idle)"
  shows "same_outcome (xcp_coroutine_yield s) (stack_op Yield (stk, idle))"
proof (cases "(objs s, stk)" rule: call_chain.cases)
  case 1
  with rel show ?thesis by (simp add: stack_rel_def chain_inv_def)
next
  case (2 ob x)
  with rel main_yields [of s x] show ?thesis by (simp add: stack_rel_def)
next
  case (3 ob x y r)
  with rel have rel: "stack_rel s (x # y # r, idle)" by simp
  from rel_live [OF this, of x] obtain c where c: "objs s x = Some c" by auto
  have "xcp_coroutine_yield s =
      Ok (s\<lparr>cur := Some y, objs := (objs s)(x \<mapsto> c\<lparr>co_caller := None, co_env := InYield\<rparr>)\<rparr>)"
    by (rule yield_quiet) (use stack_relD(1,2) [OF rel] quiet_top [OF rel] c in auto)
  with rel_pop(1) [OF rel c] 3 show ?thesis by simp
qed

lemma sim_return:
  assumes rel: "stack_rel s (stk, idle)" and en: "enabled Return s"
  shows "same_outcome (xcp_coroutine_run_end s) (stack_op Return (stk, idle))"
proof (cases "(objs s, stk)" rule: call_chain.cases)
  case 1
  with rel show ?thesis by (simp add: stack_rel_def chain_inv_def)
next
  case (2 ob x)
  with rel have "chain_inv s [x]" "x = dummy" by (auto simp: stack_rel_def chain_inv_def)
  with en get_self_eq [of s x "[]"] show ?thesis by (simp add: enabled_def)
next
  case (3 ob x y r)
  with rel have rel: "stack_rel s (x # y # r, idle)" by simp
  from rel_live [OF this, of x] obtain c where c: "objs s x = Some c" by auto
  note return_quiet [OF stack_relD(1,2) [OF rel] quiet_top [OF rel] c]
  with rel_pop(2) [OF rel c] 3 show ?thesis by simp
qed

lemma rel_thread_data:
  assumes rel: "stack_rel s (x # r, idle)"
  shows "stack_rel (s\<lparr>cur := Some x\<rparr>) (x # r, idle)"
  using rel chain_inv_cur [OF stack_relD(1) [OF rel]] by (simp add: stack_rel_def quiet_def)

lemma sim_create:
  assumes rel: "stack_rel s (x # r, idle)" and en: "enabled (Create mem stack cb ud) s"
  shows "same_outcome (Ok (snd (xcp_coroutine_create mem stack cb ud s)))
    (stack_op (Create mem stack cb ud) (x # r, idle))"
proof (cases "\<exists>y z. mem = Some y \<and> stack = Some z")
  case False
  then show ?thesis
    using rel by (cases mem; cases stack) (auto simp: xcp_coroutine_create_def)
next
  case True
  then obtain y z where yz: "mem = Some y" "stack = Some z" by auto
  let ?d = "\<lparr>co_caller = None, co_stack = z, co_env = AtStart, co_cb = cb, co_arg = ud\<rparr>"
  let ?s = "set_obj y ?d (s\<lparr>cur := Some x, links := STAILQ_INIT (PendingsOf y) (links s)\<rparr>)"
  have new: "y \<notin> set (x # r)" "y \<notin> idle"
    using en yz stack_relD(5) [OF rel] by (auto simp: enabled_def)
  note inv = chain_inv_cur [OF stack_relD(1) [OF rel]]
  have "stack_rel ?s (x # r, insert y idle)"
  proof (rule stack_relI)
    have "call_chain ((objs s)(y \<mapsto> ?d)) (x # r)"
      using inv new by (intro call_chain_idle) (simp_all add: chain_inv_def)
    moreover have "idle_ok ((objs s)(y \<mapsto> ?d)) (x # r)"
      using inv by (auto simp: chain_inv_def idle_ok_def ready_def)
    ultimately show "chain_inv ?s (x # r)" using inv by (simp add: chain_inv_def)
    show "own_calls (objs ?s) (x # r)"
      by (rule own_calls_cong [OF stack_relD(2) [OF rel]]) (use new in auto)
    have "quiet s (x # r)" by (rule stack_relD(3) [OF rel])
    then show "quiet ?s (x # r)"
      using sq.init_holds [of "PendingsOf y" "links s"] sq.init_frame [of "links s" _ "[]" "PendingsOf y"]
      by (auto simp: quiet_def)
    show "dom (objs ?s) = set (x # r) \<union> insert y idle" using stack_relD(5) [OF rel] by auto
    show "ready c'" if "v \<in> insert y idle" "objs ?s v = Some c'" for v c'
      using that stack_relD(6) [OF rel, of v c'] by (cases "v = y") (auto simp: ready_def)
  qed (use stack_relD(4) [OF rel] new in auto)
  moreover have "xcp_coroutine_get_thread_data s = s\<lparr>cur := Some x\<rparr>"
    using inv stack_relD(1) [OF rel]
    by (cases "cur s") (simp_all add: xcp_coroutine_get_thread_data_def chain_inv_def)
  ultimately show ?thesis using yz by (simp add: xcp_coroutine_create_def)
qed

lemma sim_step:
  assumes rel: "stack_rel s (x # r, idle)" and en: "enabled op s" and np: "no_process op"
  shows "same_outcome (run_op op s) (stack_op op (x # r, idle))"
proof (cases op)
  case (Create mem stack cb ud)
  with sim_create [OF rel] en show ?thesis by (simp add: run_op_def)
next
  case GetSelf
  with rel_thread_data [OF rel] get_self_eq [OF stack_relD(1) [OF rel]] show ?thesis
    by (simp add: run_op_def)
next
  case (Process c)
  with np show ?thesis by (simp add: no_process_def)
qed (use sim_resume [OF rel] sim_yield [OF rel] sim_return [OF rel] en in \<open>simp_all add: run_op_def\<close>)

text \<open>The stack machine is refined by the operations that put nothing on a pending list.\<close>

interpretation stk: simulation run_op stack_op stack_rel enabled "\<lambda>op _. no_process op"
proof
  fix s a op
  assume "stack_rel s a" and "enabled op s" "no_process op"
  moreover from this(1) rel_Cons [of s "fst a" "snd a"] obtain x r where "a = (x # r, snd a)" by (cases a) auto
  ultimately show "same_outcome (run_op op s) (stack_op op a)" by (metis sim_step)
qed

lemma sim_run:
  assumes "co_run ops s" and "list_all no_process (ops @ [op])" and "enabled op s"
  shows "\<exists>x r idle. stack_ops ops ([dummy], {}) = Ok (x # r, idle) \<and> stack_rel s (x # r, idle) \<and>
    same_outcome (run_op op s) (stack_op op (x # r, idle))"
proof -
  note run = assms(1) [unfolded co_run_iff]
  have duty: "dutiful (\<lambda>op _. no_process op) stack_op (ops @ [op]) ([dummy], {})"
    using assms(2) by (intro dutifulI) (auto simp: list_all_iff)
  from stk.simulates_next [OF rel_init conjunct1 [OF run] duty conjunct2 [OF run] assms(3)]
  obtain b where b: "stack_ops ops ([dummy], {}) = Ok b" "stack_rel s b" "same_outcome (run_op op s) (stack_op op b)" by blast
  moreover from b(2) rel_Cons [of s "fst b" "snd b"] obtain x r where "b = (x # r, snd b)" by (cases b) auto
  ultimately show ?thesis by metis
qed

end
