(* ===== verification/Coroutine_Pending.thy ===== *)
theory Coroutine_Pending
  imports Coroutine_Spec
begin

text \<open>
  What leaving a coroutine does with the coroutines that wait on its pending list: they go in front
  of the queue of the resumption that ran it, and the first of that queue runs next.
\<close>

section \<open>The queues after a coroutine is left\<close>

text \<open>The two concatenations put the pending list in front of the queue of the call.\<close>

definition merged :: "cid \<Rightarrow> cid \<Rightarrow> costate \<Rightarrow> costate" where
  "merged c x s = s\<lparr>links := sq.splice (PendingsOf c) (LocalOf x) (links s)\<rparr>"

lemma merged_simps [simp]:
  "objs (merged c x s) = objs s" "cur (merged c x s) = cur s"
  "chain_inv (merged c x s) xs \<longleftrightarrow> chain_inv s xs"
  by (simp_all add: merged_def)

lemma resume_after_eq:
  assumes ps: "stailq_holds (links s) (PendingsOf c) ps" and live: "set ps \<subseteq> dom (objs s)"
    and d: "objs s c = Some d"
  shows "resume_after x a c st s =
    (case st of
       StatusTerminated \<Rightarrow> obind (xcp_coroutine_destroy a (merged c x s)) (resume_loop x a)
     | StatusSuspend \<Rightarrow> resume_loop x a (merged c x s)
     | StatusRunning \<Rightarrow> Aborts)"
proof -
  have "tail_live (PendingsOf c) s"
  proof (cases "ps = []")
    case True
    with ps show ?thesis by (simp add: tail_live_def stailq_holds_def)
  next
    case False
    then have "objs s (last ps) \<noteq> None" using live last_in_set by blast
    with ps False show ?thesis by (simp add: tail_live_def stailq_holds_def)
  qed
  with d show ?thesis
    by (cases st) (simp_all add: resume_after_def merge_pendings_def deref_def Let_def merged_def sq.splice_def)
qed

lemma merged_holds:
  assumes "stailq_holds (links s) (PendingsOf c) ps" and "stailq_holds (links s) (LocalOf x) ls"
    and "set ps \<inter> set ls = {}"
  shows "stailq_holds (links (merged c x s)) (LocalOf x) (ps @ ls)"
    and "stailq_holds (links (merged c x s)) (PendingsOf c) []"
  using sq.splice_holds [OF assms(1,2) _ assms(3)] by (simp_all add: merged_def)

section \<open>The next turn of the loop\<close>

lemma resume_loop_Nil: "stailq_holds (links s) (LocalOf x) [] \<Longrightarrow> resume_loop x a s = Ok s"
  using sq.is_empty_iff [of "links s" "LocalOf x" "[]"] by (simp add: resume_loop_def)

lemma resume_loop_Cons:
  assumes q: "stailq_holds (links s) (LocalOf x) (p # qs)"
    and e: "objs s p = Some e" "ready e" and c: "objs s x = Some c" and px: "p \<noteq> x"
  obtains m where
    "stailq_holds m (LocalOf x) qs"
    "\<And>g zs. stailq_holds (links s) g zs \<Longrightarrow> g \<noteq> LocalOf x \<Longrightarrow> stailq_holds m g zs"
    "resume_loop x a s =
       Ok (s\<lparr>objs := (objs s)(p \<mapsto> e\<lparr>co_caller := Some x\<rparr>, x \<mapsto> c\<lparr>co_env := InResume a p\<rparr>),
             cur := Some p, links := m\<rparr>)"
proof -
  from sq.remove_holds [OF q] obtain m
    where m: "STAILQ_REMOVE_HEAD (LocalOf x) (links s) = Some m" "stailq_holds m (LocalOf x) qs" by auto
  have keeps: "stailq_holds m g zs" if "stailq_holds (links s) g zs" "g \<noteq> LocalOf x" for g zs
    using sq.remove_frame [OF m(1) that] .
  have first: "\<not> STAILQ_EMPTY (LocalOf x) (links s)" "STAILQ_FIRST (LocalOf x) (links s) = Some p"
    using sq.is_empty_iff [OF q] sq.front_eq [OF q] by auto
  have "resume_loop x a s =
       Ok (s\<lparr>objs := (objs s)(p \<mapsto> e\<lparr>co_caller := Some x\<rparr>, x \<mapsto> c\<lparr>co_env := InResume a p\<rparr>),
             cur := Some p, links := m\<rparr>)"
    using first m(1) e c px
    by (cases "co_env e") (auto simp: resume_loop_def deref_def exec_eq set_obj_def ready_def)
  from that [OF m(2) keeps this] show thesis .
qed

section \<open>Leaving\<close>

text \<open>What the current coroutine \<open>c\<close> and its caller look like, for a call made for \<open>a\<close>.\<close>

definition running_for :: "cid \<Rightarrow> cid \<Rightarrow> cid \<Rightarrow> costate \<Rightarrow> bool" where
  "running_for c x a s \<longleftrightarrow> fst (xcp_coroutine_get_self s) = c \<and>
     (\<exists>d e. objs s c = Some d \<and> co_caller d = Some x \<and> objs s x = Some e \<and> co_env e = InResume a c)"

lemma running_forD:
  assumes inv: "chain_inv s (z # r)" and run: "running_for c x a s"
  shows "z = c" "\<exists>r'. r = x # r'" "x \<noteq> c" "a \<notin> set r"
proof -
  from run get_self_eq [OF inv] show z: "z = c" by (simp add: running_for_def)
  from run obtain d e where "objs s c = Some d" "co_caller d = Some x" "objs s x = Some e"
    "co_env e = InResume a c" by (auto simp: running_for_def)
  with head_waits [of s c r d x] inv z show "\<exists>r'. r = x # r'" "x \<noteq> c" "a \<notin> set r" by auto
qed

lemma yield_eq:
  assumes inv: "chain_inv s (c # r)" and run: "running_for c x a s" and d: "objs s c = Some d"
  shows "xcp_coroutine_yield s =
    resume_after x a c StatusSuspend
      (s\<lparr>cur := Some x, objs := (objs s)(c \<mapsto> d\<lparr>co_caller := None, co_env := InYield\<rparr>)\<rparr>)"
  using run d running_forD(3) [OF inv run] get_self_eq [OF inv]
  by (auto simp: running_for_def xcp_coroutine_yield_def deref_def exec_eq set_obj_def)

lemma run_end_eq:
  assumes inv: "chain_inv s (c # r)" and run: "running_for c x a s" and d: "objs s c = Some d"
  shows "xcp_coroutine_run_end s =
    resume_after x a c StatusTerminated
      (s\<lparr>cur := Some x, objs := (objs s)(c \<mapsto> d\<lparr>co_env := AtEnd\<rparr>)\<rparr>)"
  using run d running_forD(3) [OF inv run] get_self_eq [OF inv]
  by (auto simp: running_for_def xcp_coroutine_run_end_def deref_def exec_eq set_obj_def)

text \<open>The first of the queue runs for the same call, or the call returns.\<close>

lemma resume_loop_next:
  assumes q: "stailq_holds (links s) (LocalOf x) qs" and c: "objs s x = Some c"
    and cur: "cur s = Some x"
    and first: "qs \<noteq> [] \<Longrightarrow> hd qs \<noteq> x \<and> (\<exists>e. objs s (hd qs) = Some e \<and> ready e)"
  shows "\<exists>t. resume_loop x a s = Ok t \<and> stailq_holds (links t) (LocalOf x) (tl qs) \<and>
    (\<forall>g zs. g \<noteq> LocalOf x \<longrightarrow> stailq_holds (links s) g zs \<longrightarrow> stailq_holds (links t) g zs) \<and>
    (\<forall>z. z \<noteq> x \<longrightarrow> qs = [] \<or> z \<noteq> hd qs \<longrightarrow> objs t z = objs s z) \<and>
    (if qs = [] then cur t = Some x else cur t = Some (hd qs) \<and> running_for (hd qs) x a t)"
proof (cases qs)
  case Nil
  with q cur show ?thesis using resume_loop_Nil by (intro exI [of _ s]) simp
next
  case (Cons p ps)
  with first obtain e where e: "p \<noteq> x" "objs s p = Some e" "ready e" by auto
  from resume_loop_Cons [OF q [unfolded Cons] e(2,3) c e(1), of a] obtain m where
    "stailq_holds m (LocalOf x) ps" "\<And>g zs. stailq_holds (links s) g zs \<Longrightarrow> g \<noteq> LocalOf x \<Longrightarrow> stailq_holds m g zs"
    "resume_loop x a s =
       Ok (s\<lparr>objs := (objs s)(p \<mapsto> e\<lparr>co_caller := Some x\<rparr>, x \<mapsto> c\<lparr>co_env := InResume a p\<rparr>),
             cur := Some p, links := m\<rparr>)" by metis
  then show ?thesis using Cons e(1)
    by (simp add: running_for_def xcp_coroutine_get_self_def xcp_coroutine_get_thread_data_def)
qed

section \<open>Without the assertion\<close>

lemma process_ndebug_other:
  "c \<noteq> fst (xcp_coroutine_get_self s) \<Longrightarrow> xcp_coroutine_process_ndebug c s = xcp_coroutine_process c s"
  by (cases "xcp_coroutine_get_self s")
    (simp add: xcp_coroutine_process_ndebug_def xcp_coroutine_process_def)

text \<open>
  A coroutine that puts itself on its own pending list does not give the processor back: its next
  \<^verbatim>\<open>xcp_coroutine_yield\<close> returns to itself, with the same caller, when nothing else is queued.
\<close>

lemma process_self_ndebug:
  assumes inv: "chain_inv s (c # r)" and run: "running_for c x a s"
    and ps: "stailq_holds (links s) (PendingsOf c) []" and ls: "stailq_holds (links s) (LocalOf x) []"
  shows "\<exists>t u. xcp_coroutine_process_ndebug c s = Ok t \<and> xcp_coroutine_yield t = Ok u \<and>
    cur u = Some c \<and> running_for c x a u"
proof -
  let ?t = "s\<lparr>cur := Some c, links := STAILQ_INSERT_TAIL (PendingsOf c) c (links s)\<rparr>"
  from run obtain d e where d: "objs s c = Some d" "co_caller d = Some x" "objs s x = Some e"
    by (auto simp: running_for_def)
  have "xcp_coroutine_process_ndebug c s = Ok ?t"
    using get_self_eq [OF inv] d ps
    by (simp add: xcp_coroutine_process_ndebug_def deref_def tail_live_def stailq_holds_def)
  moreover have inv': "chain_inv ?t (c # r)" using inv by (simp add: chain_inv_def)
  moreover have run': "running_for c x a ?t"
    using run by (simp add: running_for_def xcp_coroutine_get_self_def xcp_coroutine_get_thread_data_def)
  have q: "stailq_holds (links ?t) (PendingsOf c) [c]" "stailq_holds (links ?t) (LocalOf x) []"
    using sq.insert_holds [OF ps, of c] sq.insert_frame [OF ps ls] by simp_all
  let ?s = "?t\<lparr>cur := Some x, objs := (objs s)(c \<mapsto> d\<lparr>co_caller := None, co_env := InYield\<rparr>)\<rparr>"
  note xc = running_forD(3) [OF inv run]
  have "xcp_coroutine_yield ?t = resume_loop x a (merged c x ?s)"
    using yield_eq [OF inv' run'] resume_after_eq [of ?s c "[c]"] d q(1) by simp
  moreover have "stailq_holds (links (merged c x ?s)) (LocalOf x) [c]"
    using merged_holds(1) [of ?s c "[c]" x "[]"] q by simp
  from resume_loop_next [OF this, of e a] xc d obtain u where
    "resume_loop x a (merged c x ?s) = Ok u" "cur u = Some c" "running_for c x a u"
    by (auto simp: ready_def)
  ultimately show ?thesis by auto
qed

section \<open>A coroutine that is on a queue twice\<close>

text \<open>Its \<^verbatim>\<open>next\<close> field points at itself, so removing it from the queue leaves it there.\<close>

definition self_loop :: "cid \<Rightarrow> cid \<Rightarrow> cid \<Rightarrow> costate \<Rightarrow> bool" where
  "self_loop x a p s \<longleftrightarrow> running_for p x a s \<and>
     stqh_first (links s) (LocalOf x) = Some p \<and> stqh_last (links s) (LocalOf x) = NextOf p \<and>
     stqe_next (links s) p = Some p \<and>
     stqh_first (links s) (PendingsOf p) = None \<and> stqh_last (links s) (PendingsOf p) = FirstOf (PendingsOf p)"

lemma self_loop_yield:
  assumes inv: "chain_inv s (p # r)" and loop: "self_loop x a p s"
  shows "\<exists>t. xcp_coroutine_yield s = Ok t \<and> self_loop x a p t"
proof -
  have run: "running_for p x a s" using loop by (simp add: self_loop_def)
  note xp = running_forD(3) [OF inv run]
  from run obtain d e where d: "objs s p = Some d" "objs s x = Some e"
    by (auto simp: running_for_def)
  let ?ob = "(objs s)(p \<mapsto> d\<lparr>co_caller := None, co_env := InYield\<rparr>)"
  let ?s = "s\<lparr>cur := Some x, objs := ?ob\<rparr>"
  let ?m = "links (merged p x ?s)"
  have "xcp_coroutine_yield s = resume_loop x a (merged p x ?s)"
    using yield_eq [OF inv run d(1)] loop
    by (simp add: self_loop_def resume_after_def merge_pendings_def tail_live_def deref_def merged_def sq.splice_def)
  moreover have m: "stqh_first ?m (LocalOf x) = Some p" "stqh_last ?m (LocalOf x) = NextOf p"
      "stqe_next ?m p = Some p" "stqh_first ?m (PendingsOf p) = None"
      "stqh_last ?m (PendingsOf p) = FirstOf (PendingsOf p)"
    using loop by (simp_all add: self_loop_def merged_def sq.splice_def stailq_defs)
  ultimately have y: "xcp_coroutine_yield s =
      Ok (merged p x ?s\<lparr>links := the (STAILQ_REMOVE_HEAD (LocalOf x) ?m), cur := Some p,
            objs := (objs s)(p \<mapsto> d\<lparr>co_env := InYield, co_caller := Some x\<rparr>, x \<mapsto> e\<lparr>co_env := InResume a p\<rparr>)\<rparr>)"
    using d xp
    by (simp add: resume_loop_def STAILQ_EMPTY_def STAILQ_FIRST_def deref_def exec_eq set_obj_def)
  show ?thesis
    unfolding y
    using m xp by (simp add: self_loop_def running_for_def xcp_coroutine_get_self_def
        xcp_coroutine_get_thread_data_def STAILQ_REMOVE_HEAD_def)
qed

text \<open>
  A coroutine that can be resumed and has nothing pending. \<^verbatim>\<open>xcp_coroutine_process\<close>, called by a coroutine
  that has a caller, only changes the pointers of its queue.
\<close>

definition idle_co :: "cid \<Rightarrow> costate \<Rightarrow> bool" where
  "idle_co p s \<longleftrightarrow> (\<exists>e. objs s p = Some e \<and> ready e) \<and> stailq_holds (links s) (PendingsOf p) []"

lemma idle_co_other: "running_for c x a s \<Longrightarrow> idle_co p s \<Longrightarrow> p \<noteq> c \<and> p \<noteq> x"
  by (auto simp: running_for_def idle_co_def ready_def)

definition queued :: "cid \<Rightarrow> cid \<Rightarrow> costate \<Rightarrow> costate" where
  "queued c p s = s\<lparr>cur := Some c, links := STAILQ_INSERT_TAIL (PendingsOf c) p (links s)\<rparr>"

lemma queued_simps [simp]:
  "objs (queued c p s) = objs s" "links (queued c p s) = STAILQ_INSERT_TAIL (PendingsOf c) p (links s)"
  "chain_inv s (c # r) \<Longrightarrow> chain_inv (queued c p s) (c # r)"
  "running_for c x a s \<Longrightarrow> running_for c x a (queued c p s)"
  by (simp_all add: queued_def chain_inv_def running_for_def xcp_coroutine_get_self_def
      xcp_coroutine_get_thread_data_def)

lemma process_queues:
  assumes "chain_inv s (c # r)" and "running_for c x a s" and "p \<noteq> c" and "objs s p \<noteq> None"
    and "tail_live (PendingsOf c) s"
  shows "run_op (Process p) s = Ok (queued c p s)" and "tail_live (PendingsOf c) (queued c p s)"
proof -
  from assms(2) obtain d where d: "objs s c = Some d" "co_caller d = Some x" by (auto simp: running_for_def)
  with assms(3-5) show "run_op (Process p) s = Ok (queued c p s)"
    using get_self_eq [OF assms(1)]
    by (auto simp: run_op_def xcp_coroutine_process_def deref_def queued_def tail_live_def split: option.splits cell.splits)
  show "tail_live (PendingsOf c) (queued c p s)"
    using assms(4) by (simp add: tail_live_def STAILQ_INSERT_TAIL_def Let_def)
qed

text \<open>Twice in a row: the first yield enters the loop.\<close>

lemma twice_enters_loop:
  assumes inv: "chain_inv s (c # r)" and run: "running_for c x a s" and p: "idle_co p s"
    and pend: "stailq_holds (links s) (PendingsOf c) []" and loc: "stailq_holds (links s) (LocalOf x) []"
  shows "\<exists>t. xcp_coroutine_yield (queued c p (queued c p s)) = Ok t \<and> self_loop x a p t"
proof -
  let ?u = "queued c p (queued c p s)"
  have inv': "chain_inv ?u (c # r)" and run': "running_for c x a ?u" using inv run by simp_all
  note px = idle_co_other [OF run p] and xc = running_forD(3) [OF inv run]
  from p obtain f where f: "objs s p = Some f" "ready f" by (auto simp: idle_co_def)
  from run obtain d e where d: "objs s c = Some d" "co_caller d = Some x" "objs s x = Some e"
    by (auto simp: running_for_def)
  let ?s = "?u\<lparr>cur := Some x, objs := (objs s)(c \<mapsto> d\<lparr>co_caller := None, co_env := InYield\<rparr>)\<rparr>"
  let ?m = "links (merged c x ?s)"
  have u: "stqh_first (links ?u) (PendingsOf c) = Some p" "stqh_last (links ?u) (PendingsOf c) = NextOf p"
      "stqe_next (links ?u) p = Some p" "stqh_first (links ?u) (LocalOf x) = None"
      "stqh_last (links ?u) (LocalOf x) = FirstOf (LocalOf x)"
      "stqh_first (links ?u) (PendingsOf p) = None" "stqh_last (links ?u) (PendingsOf p) = FirstOf (PendingsOf p)"
    using pend loc p px by (simp_all add: stailq_defs idle_co_def)
  have "xcp_coroutine_yield ?u = resume_loop x a (merged c x ?s)"
    using yield_eq [OF inv' run', of d] d u f(1)
    by (simp add: resume_after_def merge_pendings_def tail_live_def deref_def merged_def sq.splice_def STAILQ_EMPTY_def)
  moreover have m: "stqh_first ?m (LocalOf x) = Some p" "stqh_last ?m (LocalOf x) = NextOf p"
      "stqe_next ?m p = Some p" "stqh_first ?m (PendingsOf p) = None"
      "stqh_last ?m (PendingsOf p) = FirstOf (PendingsOf p)"
    using u px by (simp_all add: merged_def sq.splice_def STAILQ_CONCAT_def STAILQ_EMPTY_def STAILQ_INIT_def
        assign_cell_def Let_def)
  ultimately have y: "xcp_coroutine_yield ?u =
      Ok (merged c x ?s\<lparr>links := the (STAILQ_REMOVE_HEAD (LocalOf x) ?m), cur := Some p,
            objs := (objs s)(c \<mapsto> d\<lparr>co_caller := None, co_env := InYield\<rparr>, p \<mapsto> f\<lparr>co_caller := Some x\<rparr>,
              x \<mapsto> e\<lparr>co_env := InResume a p\<rparr>)\<rparr>)"
    using d f px xc
    by (cases "co_env f") (simp_all add: resume_loop_def STAILQ_EMPTY_def STAILQ_FIRST_def deref_def exec_eq set_obj_def ready_def)
  show ?thesis
    unfolding y
    using m px by (simp add: self_loop_def running_for_def xcp_coroutine_get_self_def
        xcp_coroutine_get_thread_data_def STAILQ_REMOVE_HEAD_def)
qed

text \<open>With another coroutine in between: the pointers are those of a queue with the first alone.\<close>

lemma between_is_unlinked:
  assumes "stailq_holds m h []" and "p \<noteq> q" and "\<And>g. g \<in> {k, l} \<Longrightarrow> g \<noteq> h \<and> stailq_holds m g []"
  shows "stailq_holds (STAILQ_INSERT_TAIL h p (STAILQ_INSERT_TAIL h q (STAILQ_INSERT_TAIL h p m))) h [p]"
    "g \<in> {k, l} \<Longrightarrow> stailq_holds (STAILQ_INSERT_TAIL h p (STAILQ_INSERT_TAIL h q (STAILQ_INSERT_TAIL h p m))) g []"
  using assms by (auto simp: stailq_defs)

lemma between_runs_once:
  assumes inv: "chain_inv u (c # r)" and run: "running_for c x a u" and p: "objs u p = Some f" "ready f"
    and q: "q \<noteq> c" "q \<noteq> x" "q \<noteq> p" and px: "p \<noteq> c" "p \<noteq> x"
    and holds: "stailq_holds (links u) (PendingsOf c) [p]" "stailq_holds (links u) (LocalOf x) []"
      "stailq_holds (links u) (PendingsOf p) []"
  shows "\<exists>t. xcp_coroutine_yield u = Ok t \<and> running_for p x a t \<and> objs t q = objs u q \<and>
    stailq_holds (links t) (PendingsOf c) [] \<and> stailq_holds (links t) (LocalOf x) [] \<and>
    stailq_holds (links t) (PendingsOf p) []"
proof -
  from run obtain d e where d: "objs u c = Some d" "co_caller d = Some x" "objs u x = Some e"
    by (auto simp: running_for_def)
  note xc = running_forD(3) [OF inv run]
  let ?s = "u\<lparr>cur := Some x, objs := (objs u)(c \<mapsto> d\<lparr>co_caller := None, co_env := InYield\<rparr>)\<rparr>"
  have "resume_after x a c StatusSuspend ?s = resume_loop x a (merged c x ?s)"
    by (subst resume_after_eq [where ps = "[p]"]) (use holds(1) p(1) in auto)
  then have "xcp_coroutine_yield u = resume_loop x a (merged c x ?s)"
    using yield_eq [OF inv run d(1)] by simp
  moreover have m: "stailq_holds (links (merged c x ?s)) (LocalOf x) [p]"
      "stailq_holds (links (merged c x ?s)) (PendingsOf c) []"
    using merged_holds [of ?s c "[p]" x "[]"] holds by simp_all
  moreover have "stailq_holds (links (merged c x ?s)) (PendingsOf p) []"
    using sq.splice_frame [OF holds(1,2) _ _ holds(3)] px by (simp add: merged_def)
  moreover have "objs (merged c x ?s) x = Some e" using d xc by simp
  ultimately show ?thesis
    using resume_loop_next [of "merged c x ?s" x "[p]" e a] p px q by (auto simp: ready_def)
qed

lemma yield_alone:
  assumes inv: "chain_inv t (p # r)" and run: "running_for p x a t" and q: "q \<noteq> p" "q \<noteq> x"
    and holds: "stailq_holds (links t) (PendingsOf p) []" "stailq_holds (links t) (LocalOf x) []"
      "stailq_holds (links t) (PendingsOf c) []" "c \<noteq> p"
  shows "\<exists>u. xcp_coroutine_yield t = Ok u \<and> fst (xcp_coroutine_get_self u) = x \<and> objs u q = objs t q \<and>
    stailq_holds (links u) (PendingsOf c) [] \<and> stailq_holds (links u) (LocalOf x) []"
proof -
  from run obtain d where d: "objs t p = Some d" "co_caller d = Some x" by (auto simp: running_for_def)
  let ?s = "t\<lparr>cur := Some x, objs := (objs t)(p \<mapsto> d\<lparr>co_caller := None, co_env := InYield\<rparr>)\<rparr>"
  have m: "stailq_holds (links (merged p x ?s)) (LocalOf x) []"
    using merged_holds(1) [of ?s p "[]" x "[]"] holds by simp
  have "stailq_holds (links (merged p x ?s)) (PendingsOf c) []"
    using sq.splice_frame [OF holds(1,2) _ _ holds(3)] holds(4) by (simp add: merged_def)
  moreover have "xcp_coroutine_yield t = Ok (merged p x ?s)"
    using yield_eq [OF inv run d(1)] resume_after_eq [of ?s p "[]"] holds(1) resume_loop_Nil [OF m] by simp
  ultimately show ?thesis
    using m q by (simp add: xcp_coroutine_get_self_def xcp_coroutine_get_thread_data_def)
qed

end
