(* ===== verification/Coroutine_Properties.thy ===== *)
theory Coroutine_Properties
  imports Coroutine_Pending
begin

text \<open>
  The properties of the coroutines: the chain of callers on every reachable state, what resuming
  and yielding do on every branch, the refinement of the call stack, the order of pending coroutines,
  and two ways in which pending coroutines go wrong.
\<close>

text \<open>
  C3: in every state that user code can reach, following the callers from the running coroutine
  leads through distinct live coroutines to the thread's dummy, each waiting in a resumption of the
  one before it, and every other coroutine can be resumed or has ended.
\<close>
theorem reachable_chain:
  "co_reachable s \<Longrightarrow> \<exists>xs. chain_inv s xs \<and> fst (xcp_coroutine_get_self s) = hd xs \<and> last xs = dummy"
proof -
  assume "co_reachable s"
  from reachable_inv [OF this] obtain x r where inv: "chain_inv s (x # r)" by auto
  moreover have "last (x # r) = dummy" using inv by (intro call_chain_last [of "objs s"]) (simp add: chain_inv_def)
  ultimately show ?thesis using get_self_eq [OF inv] by (intro exI [of _ "x # r"]) simp
qed

text \<open>A first run: two coroutines, the second resumed by the first.\<close>

abbreviation new_co :: "cid \<Rightarrow> co_op" where
  "new_co x \<equiv> Create (Some x) (Some x) 0 0"

fun enabled_run :: "co_op list \<Rightarrow> costate \<Rightarrow> costate outcome" where
  "enabled_run [] s = Ok s"
| "enabled_run (op # ops) s = (if enabled op s then obind (run_op op s) (enabled_run ops) else Undefined)"

lemma enabled_run_reachable: "enabled_run ops s = Ok t \<Longrightarrow> co_reachable s \<Longrightarrow> co_reachable t"
proof (induction ops arbitrary: s)
  case (Cons op ops)
  then obtain u where "enabled op s" "run_op op s = Ok u" "enabled_run ops u = Ok t"
    by (auto split: if_splits)
  with Cons.IH [of u] Cons.prems(2) show ?case by (blast intro: reaches.step co_step.op)
qed simp

lemma enabled_run_run: "enabled_run ops s = Ok t \<Longrightarrow> co_run pre s \<Longrightarrow> co_run (pre @ ops) t"
proof (induction ops arbitrary: s pre)
  case (Cons op ops)
  then obtain u where "enabled op s" "run_op op s = Ok u" "enabled_run ops u = Ok t"
    by (auto split: if_splits)
  with Cons.IH [of u "pre @ [op]"] Cons.prems(2) co_run.step show ?case by fastforce
qed simp

definition ran :: "co_op list \<Rightarrow> costate" where
  "ran ops = (case enabled_run ops co_init of Ok s \<Rightarrow> s | _ \<Rightarrow> co_init)"

lemma ran_eq: "obind (enabled_run ops co_init) (\<lambda>_. Ok ()) = Ok () \<Longrightarrow> enabled_run ops co_init = Ok (ran ops)"
  by (auto simp: ran_def)

lemma ran_reachable: "obind (enabled_run ops co_init) (\<lambda>_. Ok ()) = Ok () \<Longrightarrow> co_reachable (ran ops)"
  by (rule enabled_run_reachable [OF ran_eq reaches_refl])

lemma ran_run: "obind (enabled_run ops co_init) (\<lambda>_. Ok ()) = Ok () \<Longrightarrow> co_run ops (ran ops)"
  using enabled_run_run [OF ran_eq co_run.start] by simp

definition two_deep :: "co_op list" where
  "two_deep = [new_co 1, new_co 2, Resume 1, Resume 2]"

lemma two_deep_runs: "obind (enabled_run two_deep co_init) (\<lambda>_. Ok ()) = Ok ()"
  by code_simp

lemma reachable_chain_witness:
  "\<exists>xs. chain_inv (ran two_deep) xs \<and> fst (xcp_coroutine_get_self (ran two_deep)) = hd xs \<and> last xs = dummy"
  by (rule reachable_chain [OF ran_reachable [OF two_deep_runs]])

text \<open>
  C10: from a reachable state a resumption is undefined behaviour when the coroutine has been freed,
  aborts when it has a caller or has ended, and otherwise runs it with the resuming coroutine as its
  caller, every other caller staying as it is. Resuming the dummy aborts as well, unless it has a queue
  and the pending coroutines of its callee end in one that has been freed.
\<close>
theorem resume_outcomes:
  assumes "co_reachable s" and "x = fst (xcp_coroutine_get_self s)"
  shows "case objs s a of
      None \<Rightarrow> xcp_coroutine_resume a s = Undefined
    | Some d \<Rightarrow>
        if a = dummy then
          xcp_coroutine_resume a s = Aborts \<or>
          xcp_coroutine_resume a s = Undefined \<and> x \<noteq> dummy \<and> \<not> STAILQ_EMPTY (LocalOf dummy) (links s) \<and>
            (\<exists>v. objs s v \<noteq> None \<and> \<not> tail_live (PendingsOf v) s)
        else if co_caller d \<noteq> None then xcp_coroutine_resume a s = Aborts
        else \<exists>t. xcp_coroutine_resume a s = Ok t \<and> cur t = Some a \<and>
          map_option co_caller \<circ> objs t = (map_option co_caller \<circ> objs s)(a \<mapsto> Some x)"
proof -
  from reachable_inv [OF assms(1)] obtain y r where inv: "chain_inv s (y # r)" by auto
  with get_self_eq [OF inv] assms(2) have inv: "chain_inv s (x # r)" by simp
  from chain_inv_live [OF inv, of x] obtain c where c: "objs s x = Some c" by auto
  show ?thesis
  proof (cases "objs s a")
    case None
    with resume_not_ready [OF inv, of a] show ?thesis by simp
  next
    case (Some d)
    show ?thesis
    proof (cases "a \<in> set (x # r) \<or> \<not> ready d")
      case True
      from inv Some True show ?thesis
      proof (cases rule: not_ready_cases)
        case 1
        with resume_not_ready [OF inv, of a] True Some show ?thesis by simp
      next
        case 2
        have "objs s (dummy_callee (x # r)) \<noteq> None" if "x \<noteq> dummy"
          using dummy_suspended [of "objs s" x r] inv that by (auto simp: chain_inv_def)
        with 2 resume_not_ready [OF inv, of a] True Some show ?thesis by (auto simp: dangling_def)
      qed
    next
      case False
      moreover have "dummy \<in> set (x # r)"
        by (rule call_chain_dummy [of "objs s"]) (use inv in \<open>simp add: chain_inv_def\<close>)
      ultimately have "a \<noteq> dummy" "co_caller d = None"
        by (metis, simp add: ready_def)
      moreover from False resume_ready [OF inv Some _ _ c] obtain m where
        "xcp_coroutine_resume a s =
           Ok (s\<lparr>objs := (objs s)(a \<mapsto> d\<lparr>co_caller := Some x\<rparr>, x \<mapsto> c\<lparr>co_env := InResume a a\<rparr>),
                 cur := Some a, links := m\<rparr>)" by blast
      moreover have "a \<noteq> x" using False by auto
      ultimately show ?thesis using Some c by (auto simp: fun_eq_iff)
    qed
  qed
qed

text \<open>In \<^const>\<open>two_deep\<close> the coroutine 1 runs: it cannot be resumed again.\<close>

lemma resume_outcomes_witness: "xcp_coroutine_resume 1 (ran two_deep) = Aborts"
proof -
  have "map_option co_caller (objs (ran two_deep) 1) = Some (Some dummy)" by code_simp
  with resume_outcomes [OF ran_reachable [OF two_deep_runs] refl, of 1] show ?thesis by auto
qed

text \<open>
  C2: without pending coroutines the library is a call stack. A run of creations, resumptions, yields
  and returns gives the stack and the suspended coroutines of the abstract machine, whose members are
  exactly the coroutines in memory (so each is freed when its callback returns), and the next call
  ends as the abstract machine says, by an abort or undefined behaviour included.
\<close>
theorem coroutines_are_a_stack:
  assumes "co_run ops s" and "list_all no_process (ops @ [op])" and "enabled op s"
  shows "\<exists>stk idle. stack_ops ops ([dummy], {}) = Ok (stk, idle) \<and>
    fst (xcp_coroutine_get_self s) = hd stk \<and> dom (objs s) = set stk \<union> idle \<and>
    same_outcome (run_op op s) (stack_op op (stk, idle))"
proof -
  from sim_run [OF assms] obtain x r idle
    where a: "stack_ops ops ([dummy], {}) = Ok (x # r, idle)" and rel: "stack_rel s (x # r, idle)"
      and "same_outcome (run_op op s) (stack_op op (x # r, idle))" by blast
  with get_self_eq [OF stack_relD(1) [OF rel]] stack_relD(5) [OF rel]
  show ?thesis by (intro exI [of _ "x # r"] exI [of _ idle]) simp
qed

lemma coroutines_are_a_stack_witness:
  "\<exists>stk idle. stack_ops two_deep ([dummy], {}) = Ok (stk, idle) \<and>
    fst (xcp_coroutine_get_self (ran two_deep)) = hd stk \<and> dom (objs (ran two_deep)) = set stk \<union> idle \<and>
    same_outcome (run_op Yield (ran two_deep)) (stack_op Yield (stk, idle))"
  by (rule coroutines_are_a_stack [OF ran_run [OF two_deep_runs]])
    (simp_all add: two_deep_def no_process_def enabled_def)

text \<open>
  When a coroutine yields, its pending coroutines go in front of the queue of the resumption that
  ran it, in their order. If that queue is then empty the resumption returns to its caller; otherwise
  the first of it, when ready, runs next with the same caller, and the rest stays queued. The yielding
  coroutine is suspended without a caller and its pending list is empty.
\<close>
theorem yield_runs_pendings_first:
  assumes reach: "co_reachable s" and run: "running_for c x a s"
    and ps: "stailq_holds (links s) (PendingsOf c) ps" and ls: "stailq_holds (links s) (LocalOf x) ls"
    and sep: "set ps \<inter> set ls = {}" and live: "set ps \<subseteq> dom (objs s)"
    and fst: "\<And>p. ps @ ls \<noteq> [] \<Longrightarrow> p = hd (ps @ ls) \<Longrightarrow> p \<noteq> c \<and> (\<exists>e. objs s p = Some e \<and> ready e)"
  shows "\<exists>t. xcp_coroutine_yield s = Ok t \<and>
    (\<exists>d. objs t c = Some d \<and> ready d) \<and>
    stailq_holds (links t) (PendingsOf c) [] \<and> stailq_holds (links t) (LocalOf x) (tl (ps @ ls)) \<and>
    (if ps @ ls = [] then cur t = Some x
     else cur t = Some (hd (ps @ ls)) \<and> running_for (hd (ps @ ls)) x a t)"
proof -
  from reachable_inv [OF reach] obtain z r where "chain_inv s (z # r)" by auto
  with running_forD(1) [OF this run] have inv: "chain_inv s (c # r)" by simp
  note xc = running_forD(3) [OF inv run]
  from run obtain d e0 where d: "objs s c = Some d" "objs s x = Some e0" "co_env e0 = InResume a c"
    by (auto simp: running_for_def)
  let ?d = "d\<lparr>co_caller := None, co_env := InYield\<rparr>"
  let ?s = "s\<lparr>cur := Some x, objs := (objs s)(c \<mapsto> ?d)\<rparr>"
  have live': "set ps \<subseteq> dom (objs ?s)" using live by auto
  have eq: "xcp_coroutine_yield s = resume_loop x a (merged c x ?s)"
    using yield_eq [OF inv run d(1)] resume_after_eq [of ?s c ps ?d x a StatusSuspend] ps live' by simp
  have q: "stailq_holds (links (merged c x ?s)) (LocalOf x) (ps @ ls)"
      "stailq_holds (links (merged c x ?s)) (PendingsOf c) []"
    using merged_holds [of ?s c ps x ls] ps ls sep by simp_all
  have "hd (ps @ ls) \<noteq> x \<and> (\<exists>e. objs (merged c x ?s) (hd (ps @ ls)) = Some e \<and> ready e)" if "ps @ ls \<noteq> []"
    using fst [OF that refl] d by (auto simp: ready_def)
  from resume_loop_next [OF q(1) _ _ this, of e0 a] d(2) xc eq obtain t where t: "xcp_coroutine_yield s = Ok t"
      "stailq_holds (links t) (LocalOf x) (tl (ps @ ls))" "stailq_holds (links t) (PendingsOf c) []"
      "\<forall>z. z \<noteq> x \<longrightarrow> ps @ ls = [] \<or> z \<noteq> hd (ps @ ls) \<longrightarrow> objs t z = objs ?s z"
      "if ps @ ls = [] then cur t = Some x else cur t = Some (hd (ps @ ls)) \<and> running_for (hd (ps @ ls)) x a t"
    using q(2) by auto
  have "objs t c = Some ?d" using t(4) xc fst by (cases "ps @ ls = []") auto
  with t show ?thesis by (auto simp: ready_def)
qed

text \<open>A coroutine with two pending ones.\<close>

definition two_pending :: "co_op list" where
  "two_pending = [new_co 1, new_co 2, new_co 3, Resume 1, Process 2, Process 3]"

lemma two_pending_runs: "obind (enabled_run two_pending co_init) (\<lambda>_. Ok ()) = Ok ()"
  by code_simp

lemma running_forI:
  "fst (xcp_coroutine_get_self s) = c \<Longrightarrow> map_option co_caller (objs s c) = Some (Some x) \<Longrightarrow>
   map_option co_env (objs s x) = Some (InResume a c) \<Longrightarrow> running_for c x a s"
  by (auto simp: running_for_def)

lemma readyI:
  "map_option (\<lambda>e. (co_caller e, co_env e)) (objs s p) = Some (None, AtStart) \<Longrightarrow>
   \<exists>e. objs s p = Some e \<and> ready e"
  by (auto simp: ready_def)

lemma two_pending_state:
  "running_for 1 0 1 (ran two_pending)"
  "stailq_holds (links (ran two_pending)) (PendingsOf 1) [2, 3]"
  "stailq_holds (links (ran two_pending)) (LocalOf 0) []"
  "\<exists>e. objs (ran two_pending) 2 = Some e \<and> ready e"
  "\<exists>e. objs (ran two_pending) 3 = Some e \<and> ready e"
      apply (rule running_forI; code_simp)
     apply code_simp
    apply code_simp
   apply (rule readyI; code_simp)
  apply (rule readyI; code_simp)
  done

lemma yield_runs_pendings_first_witness:
  "\<exists>t. xcp_coroutine_yield (ran two_pending) = Ok t \<and>
    (\<exists>d. objs t 1 = Some d \<and> ready d) \<and>
    stailq_holds (links t) (PendingsOf 1) [] \<and> stailq_holds (links t) (LocalOf 0) (tl ([2, 3] @ [])) \<and>
    (if [2, 3] @ [] = ([] :: cid list) then cur t = Some 0
     else cur t = Some (hd ([2, 3] @ [])) \<and> running_for (hd ([2, 3] @ [])) 0 1 t)"
  using two_pending_state
  by (intro yield_runs_pendings_first [OF ran_reachable [OF two_pending_runs]]) auto








lemma enabled_simps [simp]: "enabled Yield s" "enabled (Process p) s"
  by (simp_all add: enabled_def)







end
