(* ===== verification/Coroutine_Stack.thy ===== *)
theory Coroutine_Stack
  imports C_Prelude Coroutine Xcp_Math
begin

text \<open>
  What \<^verbatim>\<open>src/coroutine.c\<close> does to give a coroutine a stack: the mapping with its guard page, and
  the detour through a signal handler on an alternate stack that leaves a saved context on it. The
  memory and signal system calls are parameters or documented effects on the state below.
\<close>

section \<open>Mapping a stack\<close>

datatype prot = PROT_NONE | PROT_READ_WRITE

text \<open>What each byte of the address space is mapped as, \<^const>\<open>None\<close> when it is not.\<close>

type_synonym vm = "nat \<Rightarrow> prot option"

definition XCP_COROUTINE_STACK_SIZE :: "64 word" where
  "XCP_COROUTINE_STACK_SIZE = 1048576"

definition stack_size :: "64 word \<Rightarrow> 64 word" where
  "stack_size pageSize = XCP_ROUND_UP_2 XCP_COROUTINE_STACK_SIZE pageSize + pageSize"

definition xcp_coroutine_create_stack ::
  "(64 word \<Rightarrow> vm \<Rightarrow> nat option \<times> vm) \<Rightarrow> (nat \<Rightarrow> 64 word \<Rightarrow> prot \<Rightarrow> vm \<Rightarrow> int \<times> vm) \<Rightarrow>
   (nat \<Rightarrow> 64 word \<Rightarrow> vm \<Rightarrow> vm) \<Rightarrow> 64 word \<Rightarrow> vm \<Rightarrow> nat option \<times> 64 word \<times> vm" where
  "xcp_coroutine_create_stack mmap mprotect munmap pageSize v =
     (let stackSize = stack_size pageSize in
      case mmap stackSize v of (stack, v) \<Rightarrow>
        (case stack of
           None \<Rightarrow> (None, stackSize, v)
         | Some stack \<Rightarrow>
             (case mprotect stack pageSize PROT_NONE v of (ret, v) \<Rightarrow>
                if ret \<noteq> 0 then (None, stackSize, munmap stack stackSize v)
                else (Some stack, stackSize, v))))"

definition xcp_coroutine_destroy_stack ::
  "(nat \<Rightarrow> 64 word \<Rightarrow> vm \<Rightarrow> vm) \<Rightarrow> 64 word \<Rightarrow> nat \<Rightarrow> vm \<Rightarrow> vm" where
  "xcp_coroutine_destroy_stack munmap pageSize stack v =
     (let stackSize = stack_size pageSize in munmap stack stackSize v)"

text \<open>
  The system calls as documented, for the sizes the code calls them with, all multiples of the page:
  \<^verbatim>\<open>mmap\<close> maps bytes that were not, or fails; \<^verbatim>\<open>mprotect\<close> changes the protection of a mapped range, or fails
  and may then have changed some of it; \<^verbatim>\<open>munmap\<close> unmaps a range, or fails, for instance because the
  process has too many mappings, and changes nothing.
\<close>

definition in_range :: "nat \<Rightarrow> 64 word \<Rightarrow> nat \<Rightarrow> bool" where
  "in_range a n x \<longleftrightarrow> a \<le> x \<and> x < a + unat n"

definition unmapped :: "nat \<Rightarrow> 64 word \<Rightarrow> vm \<Rightarrow> vm" where
  "unmapped a n v = (\<lambda>x. if in_range a n x then None else v x)"

definition vm_contract ::
  "64 word \<Rightarrow> (64 word \<Rightarrow> vm \<Rightarrow> nat option \<times> vm) \<Rightarrow> (nat \<Rightarrow> 64 word \<Rightarrow> prot \<Rightarrow> vm \<Rightarrow> int \<times> vm) \<Rightarrow>
   (nat \<Rightarrow> 64 word \<Rightarrow> vm \<Rightarrow> vm) \<Rightarrow> bool" where
  "vm_contract pageSize mmap mprotect munmap \<longleftrightarrow>
     (\<forall>v. case mmap (stack_size pageSize) v of
        (None, v') \<Rightarrow> v' = v
      | (Some a, v') \<Rightarrow> (\<forall>x. in_range a (stack_size pageSize) x \<longrightarrow> v x = None) \<and>
          v' = (\<lambda>x. if in_range a (stack_size pageSize) x then Some PROT_READ_WRITE else v x)) \<and>
     (\<forall>a p v. case mprotect a pageSize p v of (ret, v') \<Rightarrow>
        if ret = 0 then v' = (\<lambda>x. if in_range a pageSize x then map_option (\<lambda>_. p) (v x) else v x)
        else \<forall>x. v' x = v x \<or> in_range a pageSize x \<and> v' x = map_option (\<lambda>_. p) (v x)) \<and>
     (\<forall>a v. munmap a (stack_size pageSize) v \<in> {v, unmapped a (stack_size pageSize) v})"

text \<open>A \<^verbatim>\<open>munmap\<close> that does not fail on a range that is mapped.\<close>

definition munmap_succeeds :: "64 word \<Rightarrow> (nat \<Rightarrow> 64 word \<Rightarrow> vm \<Rightarrow> vm) \<Rightarrow> bool" where
  "munmap_succeeds pageSize munmap \<longleftrightarrow>
     (\<forall>a v. (\<forall>x. in_range a (stack_size pageSize) x \<longrightarrow> v x \<noteq> None) \<longrightarrow>
        munmap a (stack_size pageSize) v = unmapped a (stack_size pageSize) v)"

text \<open>A stack at \<open>a\<close>: a page that traps every access, then bytes that can be used.\<close>

definition has_stack :: "64 word \<Rightarrow> nat \<Rightarrow> vm \<Rightarrow> vm \<Rightarrow> bool" where
  "has_stack pageSize a v v' \<longleftrightarrow>
     (\<forall>x. v' x = (if in_range a pageSize x then Some PROT_NONE
                  else if in_range a (stack_size pageSize) x then Some PROT_READ_WRITE
                  else v x)) \<and>
     (\<forall>x. in_range a (stack_size pageSize) x \<longrightarrow> v x = None)"

text \<open>A mapping at \<open>a\<close> that nobody knows any more, because \<^verbatim>\<open>munmap\<close> failed on it.\<close>

definition stack_left :: "(nat \<Rightarrow> 64 word \<Rightarrow> vm \<Rightarrow> vm) \<Rightarrow> 64 word \<Rightarrow> nat \<Rightarrow> vm \<Rightarrow> vm \<Rightarrow> bool" where
  "stack_left munmap pageSize a v v' \<longleftrightarrow>
     (\<forall>x. if in_range a (stack_size pageSize) x then v x = None \<and> v' x \<noteq> None else v' x = v x) \<and>
     munmap a (stack_size pageSize) v' = v'"

lemma unat_stack_size:
  assumes "k \<le> 40"
  shows "unat (stack_size (2 ^ k)) = ceil_to (2 ^ k) 1048576 + 2 ^ k"
proof -
  let ?S = "XCP_COROUTINE_STACK_SIZE"
  have S: "unat ?S = 1048576" by (simp add: XCP_COROUTINE_STACK_SIZE_def)
  have p: "(2 :: nat) ^ k \<le> 2 ^ 40" using assms by (intro power_increasing) simp_all
  have "unat (XCP_ROUND_UP_2 ?S (2 ^ k)) = ceil_to (2 ^ k) 1048576"
    using unat_XCP_ROUND_UP_2 [of k ?S] assms S p by simp
  moreover have "unat (2 ^ k :: 64 word) = 2 ^ k" using assms by simp
  moreover have "ceil_to (2 ^ k) 1048576 < 1048576 + 2 ^ k" by (rule ceil_to_bounds) simp
  ultimately show ?thesis using p by (simp add: stack_size_def unat_word_ariths)
qed

text \<open>What the contract says of each call.\<close>

lemma mmap_ok:
  assumes "vm_contract pageSize mmap mprotect munmap" and "mmap (stack_size pageSize) v = (Some a, v')"
  shows "in_range a (stack_size pageSize) x \<Longrightarrow> v x = None"
    and "v' x = (if in_range a (stack_size pageSize) x then Some PROT_READ_WRITE else v x)"
  using assms(1) [unfolded vm_contract_def, THEN conjunct1, THEN spec, of v] assms(2) by simp_all

lemma mmap_fails:
  assumes "vm_contract pageSize mmap mprotect munmap" and "mmap (stack_size pageSize) v = (None, v')"
  shows "v' = v"
  using assms(1) [unfolded vm_contract_def, THEN conjunct1, THEN spec, of v] assms(2) by simp

lemma mprotect_cases:
  assumes "vm_contract pageSize mmap mprotect munmap" and "mprotect a pageSize p v = (ret, v')"
  shows "ret = 0 \<Longrightarrow> v' x = (if in_range a pageSize x then map_option (\<lambda>_. p) (v x) else v x)"
    and "ret \<noteq> 0 \<Longrightarrow> v' x = v x \<or> in_range a pageSize x \<and> v' x = map_option (\<lambda>_. p) (v x)"
  using assms(1) [unfolded vm_contract_def, THEN conjunct2, THEN conjunct1, THEN spec, of a, THEN spec, of p,
      THEN spec, of v] assms(2) by simp_all

lemma munmap_cases:
  "vm_contract pageSize mmap mprotect munmap \<Longrightarrow>
   munmap a (stack_size pageSize) v = v \<or> munmap a (stack_size pageSize) v = unmapped a (stack_size pageSize) v"
  by (simp add: vm_contract_def)

lemma create_stack_ok:
  assumes vm: "vm_contract (2 ^ k) mmap mprotect munmap" and k: "k \<le> 40"
  shows "case xcp_coroutine_create_stack mmap mprotect munmap (2 ^ k) v of
      (None, _, v') \<Rightarrow> v' = v \<or> (\<exists>a. stack_left munmap (2 ^ k) a v v')
    | (Some a, n, v') \<Rightarrow> n = stack_size (2 ^ k) \<and> has_stack (2 ^ k) a v v'"
proof -
  let ?n = "stack_size (2 ^ k)"
  have "unat (2 ^ k :: 64 word) \<le> unat ?n" using unat_stack_size [OF k] k by simp
  then have sub: "in_range a (2 ^ k) x \<Longrightarrow> in_range a ?n x" for a x by (auto simp: in_range_def)
  obtain s v1 where mm: "mmap ?n v = (s, v1)" by (cases "mmap ?n v") auto
  show ?thesis
  proof (cases s)
    case None
    with mm mmap_fails [OF vm, of v v1] show ?thesis by (simp add: xcp_coroutine_create_stack_def Let_def)
  next
    case (Some a)
    note new = mmap_ok [OF vm, of v a v1, OF mm [unfolded Some]]
    obtain ret v2 where pr: "mprotect a (2 ^ k) PROT_NONE v1 = (ret, v2)"
      by (cases "mprotect a (2 ^ k) PROT_NONE v1") auto
    note prot = mprotect_cases [OF vm pr]
    show ?thesis
    proof (cases "ret = 0")
      case True
      have "has_stack (2 ^ k) a v v2" using new prot(1) [OF True] sub by (auto simp: has_stack_def)
      with True Some mm pr show ?thesis by (simp add: xcp_coroutine_create_stack_def Let_def)
    next
      case False
      have in_v2: "in_range a ?n x \<Longrightarrow> v2 x \<noteq> None" and out: "\<not> in_range a ?n x \<Longrightarrow> v2 x = v x" for x
        using new(2) [of x] prot(2) [OF False, of x] sub [of a x] by auto
      have undone: "unmapped a ?n v2 = v" using new(1) out by (auto simp: unmapped_def fun_eq_iff)
      have "munmap a ?n v2 = v \<or> stack_left munmap (2 ^ k) a v (munmap a ?n v2)"
        using munmap_cases [OF vm, of a v2] in_v2 out new(1) undone by (auto simp: stack_left_def)
      with False Some mm pr show ?thesis by (auto simp: xcp_coroutine_create_stack_def Let_def)
    qed
  qed
qed

text \<open>A \<^verbatim>\<open>munmap\<close> that works leaves nothing behind.\<close>

lemma stack_left_not:
  assumes "munmap_succeeds pageSize munmap" and "0 < unat (stack_size pageSize)"
  shows "\<not> stack_left munmap pageSize a v v'"
proof
  assume left: "stack_left munmap pageSize a v v'"
  then have "\<forall>x. in_range a (stack_size pageSize) x \<longrightarrow> v' x \<noteq> None" by (auto simp: stack_left_def)
  with assms(1) have "munmap a (stack_size pageSize) v' = unmapped a (stack_size pageSize) v'"
    by (simp add: munmap_succeeds_def)
  with left have "v' a = unmapped a (stack_size pageSize) v' a" by (simp add: stack_left_def)
  with left assms(2) show False by (auto simp: unmapped_def stack_left_def in_range_def)
qed

section \<open>Putting a context on the new stack\<close>

abbreviation SIGUSR1 :: nat where
  "SIGUSR1 \<equiv> 10"

text \<open>The action for \<^verbatim>\<open>SIGUSR1\<close>: one that was there before, or \<^verbatim>\<open>xcp_coroutine_trampoline\<close> with \<^verbatim>\<open>SA_ONSTACK\<close>.\<close>

datatype usr1_action = OldAction nat | Trampoline

text \<open>
  What the steps change. A saved context is named by the stack its frame is on, 0 being the one the
  thread runs on; \<open>co_env_on\<close> is that of each coroutine's \<^verbatim>\<open>env\<close>.
\<close>

record trampoline =
  tr_env :: "nat option"
  tr_called :: bool
  tr_coroutine :: cid

record sig_thread = trampoline +
  sig_mask :: "nat set"
  usr1 :: usr1_action
  alt_stack :: "(nat \<times> 64 word) option"
  usr1_pending :: bool
  co_env_on :: "cid \<Rightarrow> nat option"

text \<open>The handler, run by \<^verbatim>\<open>sigsuspend\<close> on the alternate stack if there is one.\<close>

definition xcp_coroutine_trampoline :: "sig_thread \<Rightarrow> sig_thread" where
  "xcp_coroutine_trampoline t =
     t\<lparr>tr_called := True, tr_env := Some (case alt_stack t of None \<Rightarrow> 0 | Some (sp, _) \<Rightarrow> sp)\<rparr>"

text \<open>
  \<^verbatim>\<open>sigsuspend\<close> with every signal blocked but \<^verbatim>\<open>SIGUSR1\<close>: it delivers the pending signal, of which
  there is at most one as standard signals do not queue, or waits for ever.
\<close>

definition sigsuspend_usr1 :: "sig_thread \<Rightarrow> sig_thread option" where
  "sigsuspend_usr1 t =
     (if \<not> usr1_pending t then None
      else case usr1 t of
        Trampoline \<Rightarrow> Some (xcp_coroutine_trampoline (t\<lparr>usr1_pending := False\<rparr>))
      | OldAction _ \<Rightarrow> None)"

definition wait_called :: "sig_thread \<Rightarrow> sig_thread option" where
  "wait_called t =
     (if tr_called t then Some t
      else map_option snd (do_while (\<lambda>t. case sigsuspend_usr1 t of
             None \<Rightarrow> None
           | Some t \<Rightarrow> Some (if \<not> tr_called t then Again t else Leave () t)) t))"

text \<open>
  Jumping to the trampoline's context: its \<^verbatim>\<open>sigsetjmp\<close> returns a second time and it calls
  \<^verbatim>\<open>xcp_coroutine_run\<close>, which saves the coroutine's context there and jumps back.
\<close>

definition run_to_start :: "sig_thread \<Rightarrow> sig_thread outcome" where
  "run_to_start t =
     (case tr_env t of
        None \<Rightarrow> Undefined
      | Some sp \<Rightarrow> Ok (t\<lparr>co_env_on := (co_env_on t)(tr_coroutine t \<mapsto> sp)\<rparr>))"

text \<open>\<open>fails n\<close> says that the \<open>n\<close>th of the checked system calls fails.\<close>

definition xcp_coroutine_init :: "(nat \<Rightarrow> bool) \<Rightarrow> cid \<Rightarrow> nat \<Rightarrow> 64 word \<Rightarrow> sig_thread \<Rightarrow> sig_thread outcome option" where
  "xcp_coroutine_init fails coroutine stack stackSize t =
     (if fails 1 then Some Aborts
      else let oldSet = sig_mask t; t = t\<lparr>sig_mask := insert SIGUSR1 (sig_mask t)\<rparr> in
      if fails 2 then Some Aborts
      else let oldSa = usr1 t; t = t\<lparr>usr1 := Trampoline\<rparr> in
      if fails 3 then Some Aborts
      else let oldSs = alt_stack t; t = t\<lparr>alt_stack := Some (stack, stackSize)\<rparr>;
               t = t\<lparr>tr_called := False, tr_coroutine := coroutine\<rparr>;
               t = t\<lparr>usr1_pending := True\<rparr> in
      case wait_called t of
        None \<Rightarrow> None
      | Some t \<Rightarrow>
          if fails 4 then Some Aborts
          else let t = t\<lparr>alt_stack := None\<rparr> in
          if fails 5 then Some Aborts
          else let t = t\<lparr>alt_stack := oldSs\<rparr> in
          if fails 6 then Some Aborts
          else let t = t\<lparr>usr1 := oldSa\<rparr> in
          if fails 7 then Some Aborts
          else let t = t\<lparr>sig_mask := oldSet\<rparr> in
          Some (run_to_start t))"

lemma wait_called_delivers:
  "usr1_pending t \<Longrightarrow> usr1 t = Trampoline \<Longrightarrow> \<not> tr_called t \<Longrightarrow>
   wait_called t = Some (xcp_coroutine_trampoline (t\<lparr>usr1_pending := False\<rparr>))"
  by (simp add: wait_called_def sigsuspend_usr1_def do_while_Leave xcp_coroutine_trampoline_def)

end
