(* ===== verification/Stack_Properties.thy ===== *)
theory Stack_Properties
  imports Coroutine_Stack
begin

text \<open>The properties of a coroutine's stack and of \<^verbatim>\<open>xcp_coroutine_init\<close>.\<close>

text \<open>
  C25: for every page size up to 1 TiB, and where \<^verbatim>\<open>munmap\<close> does not fail, \<^verbatim>\<open>xcp_coroutine_create_stack\<close>
  fails and leaves the address space as it was, or has mapped a page that traps every access and, above it,
  at least 1 MiB that can be used; \<^verbatim>\<open>xcp_coroutine_destroy_stack\<close> then leaves the address space as it was before.
\<close>
theorem stack_lifecycle:
  assumes "vm_contract (2 ^ k) mmap mprotect munmap" and "munmap_succeeds (2 ^ k) munmap" and "k \<le> 40"
  shows "case xcp_coroutine_create_stack mmap mprotect munmap (2 ^ k) v of
      (None, _, v') \<Rightarrow> v' = v
    | (Some a, n, v') \<Rightarrow>
        (\<forall>x. in_range a (2 ^ k) x \<longrightarrow> v' x = Some PROT_NONE) \<and>
        (\<forall>x. a + 2 ^ k \<le> x \<and> x < a + unat n \<longrightarrow> v' x = Some PROT_READ_WRITE) \<and>
        2 ^ k + 1048576 \<le> unat n \<and>
        xcp_coroutine_destroy_stack munmap (2 ^ k) a v' = v"
proof -
  let ?n = "stack_size (2 ^ k)"
  note ok = create_stack_ok [OF assms(1,3), of v]
  have size: "unat ?n = ceil_to (2 ^ k) 1048576 + 2 ^ k" "1048576 \<le> ceil_to (2 ^ k) 1048576"
    using unat_stack_size [OF assms(3)] by (simp_all add: ceil_to_bounds)
  have pg: "unat (2 ^ k :: 64 word) = 2 ^ k" using assms(3) by simp
  show ?thesis
  proof (cases "xcp_coroutine_create_stack mmap mprotect munmap (2 ^ k) v")
    case (fields s n v')
    show ?thesis
    proof (cases s)
      case None
      with fields ok stack_left_not [OF assms(2)] size show ?thesis by auto
    next
      case (Some a)
      with fields ok have n: "n = ?n" and st: "has_stack (2 ^ k) a v v'" by simp_all
      have "in_range a (2 ^ k) x \<Longrightarrow> in_range a ?n x" for x
        using pg size by (auto simp: in_range_def)
      then have "unmapped a ?n v' = v" using st by (intro ext) (auto simp: has_stack_def unmapped_def)
      moreover have "\<forall>x. in_range a ?n x \<longrightarrow> v' x \<noteq> None" using st by (auto simp: has_stack_def)
      ultimately have "munmap a ?n v' = v" using assms(2) by (simp add: munmap_succeeds_def)
      with Some fields n st size pg show ?thesis
        by (auto simp: has_stack_def in_range_def xcp_coroutine_destroy_stack_def Let_def)
    qed
  qed
qed

text \<open>An address space that maps at 1 GiB, once.\<close>

definition mmap_at :: "64 word \<Rightarrow> vm \<Rightarrow> nat option \<times> vm" where
  "mmap_at n v =
     (if \<forall>x. in_range 1073741824 n x \<longrightarrow> v x = None
      then (Some 1073741824, \<lambda>x. if in_range 1073741824 n x then Some PROT_READ_WRITE else v x)
      else (None, v))"

definition mprotect_ok :: "nat \<Rightarrow> 64 word \<Rightarrow> prot \<Rightarrow> vm \<Rightarrow> int \<times> vm" where
  "mprotect_ok a n p v = (0, \<lambda>x. if in_range a n x then map_option (\<lambda>_. p) (v x) else v x)"

definition munmap_ok :: "nat \<Rightarrow> 64 word \<Rightarrow> vm \<Rightarrow> vm" where
  "munmap_ok a n v = (\<lambda>x. if in_range a n x then None else v x)"

lemma vm_contract_at: "vm_contract pageSize mmap_at mprotect_ok munmap_ok"
  by (simp add: vm_contract_def mmap_at_def mprotect_ok_def munmap_ok_def unmapped_def)

lemma munmap_ok_succeeds: "munmap_succeeds pageSize munmap_ok"
  by (simp add: munmap_succeeds_def munmap_ok_def unmapped_def)

lemma stack_lifecycle_witness:
  "case xcp_coroutine_create_stack mmap_at mprotect_ok munmap_ok (2 ^ 12) (\<lambda>_. None) of
      (None, _, v') \<Rightarrow> v' = (\<lambda>_. None)
    | (Some a, n, v') \<Rightarrow>
        (\<forall>x. in_range a (2 ^ 12) x \<longrightarrow> v' x = Some PROT_NONE) \<and>
        (\<forall>x. a + 2 ^ 12 \<le> x \<and> x < a + unat n \<longrightarrow> v' x = Some PROT_READ_WRITE) \<and>
        2 ^ 12 + 1048576 \<le> unat n \<and>
        xcp_coroutine_destroy_stack munmap_ok (2 ^ 12) a v' = (\<lambda>_. None)"
by (rule stack_lifecycle [OF vm_contract_at munmap_ok_succeeds]) simp

text \<open>
  When none of its system calls fails, \<^verbatim>\<open>xcp_coroutine_init\<close> returns with the signal mask, the
  action for \<^verbatim>\<open>SIGUSR1\<close> and the alternate stack as they were, and the new coroutine's context lies
  on its own stack; no other coroutine's context changes. A \<^verbatim>\<open>SIGUSR1\<close> that was pending before is
  lost, whoever sent it. When a call fails the process ends; it never waits for ever.
\<close>
lemma init_is_transparent:
  "case xcp_coroutine_init fails coroutine stack n t of
     None \<Rightarrow> False
   | Some Undefined \<Rightarrow> False
   | Some Aborts \<Rightarrow> \<exists>i \<in> {1..7}. fails i
   | Some (Ok t') \<Rightarrow>
       sig_mask t' = sig_mask t \<and> usr1 t' = usr1 t \<and> alt_stack t' = alt_stack t \<and>
       co_env_on t' = (co_env_on t)(coroutine \<mapsto> stack) \<and> \<not> usr1_pending t'"
  by (simp add: xcp_coroutine_init_def Let_def wait_called_delivers xcp_coroutine_trampoline_def run_to_start_def)
    (auto intro: bexI [of _ 1] bexI [of _ 2] bexI [of _ 3] bexI [of _ 4] bexI [of _ 5] bexI [of _ 6] bexI [of _ 7])

end
