(* ===== verification/C_String.thy ===== *)
theory C_String
  imports C_Prelude "HOL-Library.Monad_Syntax"
begin

text \<open>
  The functions of \<^verbatim>\<open>string.h\<close> the sources use, on blocks of characters. A string is a block
  with a null character in it; a pointer into it is an offset. \<^const>\<open>None\<close> is undefined
  behaviour: a string without a null character, or an access outside a block.
\<close>

abbreviation NUL :: char where
  "NUL \<equiv> CHR 0x00"

section \<open>Functions\<close>

definition strlen :: "char list \<Rightarrow> nat option" where
  "strlen b = (if NUL \<in> set b then Some (length (takeWhile (\<lambda>c. c \<noteq> NUL) b)) else None)"

text \<open>The last occurrence of a character in the first \<open>n\<close> bytes.\<close>

fun memrchr :: "char list \<Rightarrow> char \<Rightarrow> nat \<Rightarrow> nat option option" where
  "memrchr b c 0 = Some None"
| "memrchr b c (Suc n) =
     do { x \<leftarrow> blk_read b (int n); if x = c then Some (Some n) else memrchr b c n }"

definition strrchr :: "char list \<Rightarrow> char \<Rightarrow> nat option option" where
  "strrchr b c = do { n \<leftarrow> strlen b; memrchr b c (n + 1) }"

definition strdup :: "(nat \<Rightarrow> char list ptr) \<Rightarrow> char list \<Rightarrow> char list ptr option" where
  "strdup malloc b =
     do { n \<leftarrow> strlen b;
          case malloc (n + 1) of
            NULL \<Rightarrow> Some NULL
          | Ptr m \<Rightarrow> map_option Ptr (blk_copy m 0 (take (n + 1) b)) }"

text \<open>At most \<open>k\<close> characters are read, so a string of \<open>k\<close> characters need not be terminated.\<close>

definition strndup :: "(nat \<Rightarrow> char list ptr) \<Rightarrow> char list \<Rightarrow> nat \<Rightarrow> char list ptr option" where
  "strndup malloc b k =
     (let n = length (takeWhile (\<lambda>c. c \<noteq> NUL) (take k b)) in
      if n < k \<and> length b \<le> n then None
      else case malloc (n + 1) of
             NULL \<Rightarrow> Some NULL
           | Ptr m \<Rightarrow> do { m \<leftarrow> blk_copy m 0 (take n b); map_option Ptr (blk_write m (int n) NUL) })"

fun strcmp_eq :: "char list \<Rightarrow> char list \<Rightarrow> bool option" where
  "strcmp_eq (x # xs) (y # ys) =
     (if x \<noteq> y then Some False else if x = NUL then Some True else strcmp_eq xs ys)"
| "strcmp_eq _ _ = None"

section \<open>Blocks that hold a string\<close>

definition is_str :: "char list \<Rightarrow> bool" where
  "is_str s \<longleftrightarrow> NUL \<notin> set s"

lemma is_str_simps [simp]:
  "is_str []" "is_str (c # s) \<longleftrightarrow> c \<noteq> NUL \<and> is_str s" "is_str (s @ t) \<longleftrightarrow> is_str s \<and> is_str t"
  by (auto simp: is_str_def)

lemma is_str_take: "is_str s \<Longrightarrow> is_str (take n s)"
  by (auto simp: is_str_def dest: in_set_takeD)

lemma takeWhile_str: "is_str s \<Longrightarrow> takeWhile (\<lambda>c. c \<noteq> NUL) (s @ NUL # r) = s"
  by (induction s) auto

lemma strlen_str [cmem_simps]: "is_str s \<Longrightarrow> strlen (s @ NUL # r) = Some (length s)"
  by (simp add: strlen_def takeWhile_str)

lemma memrchr_none: "n \<le> length b \<Longrightarrow> c \<notin> set (take n b) \<Longrightarrow> memrchr b c n = Some None"
proof (induction n)
  case (Suc n)
  then have "take (Suc n) b = take n b @ [b ! n]" by (simp add: take_Suc_conv_app_nth)
  with Suc show ?case by (auto simp: blk_read_nat)
qed simp

lemma blk_read_at: "length p = i \<Longrightarrow> blk_read (p @ c # q) (int i) = Some c"
  by (auto simp: blk_read_def nth_append)

text \<open>What is left and right of the last occurrence.\<close>

lemma memrchr_found:
  "length p = i \<Longrightarrow> c \<notin> set q \<Longrightarrow> n = i + 1 + length q \<Longrightarrow> memrchr (p @ c # q @ r) c n = Some (Some i)"
proof (induction q arbitrary: n r rule: rev_induct)
  case Nil
  then show ?case using blk_read_at [of p i c r] by simp
next
  case (snoc x q)
  then have "n = Suc (i + 1 + length q)" by simp
  moreover have "blk_read (p @ c # (q @ [x]) @ r) (int (i + 1 + length q)) = Some x"
    using snoc.prems(1) blk_read_at [of "p @ c # q" "i + 1 + length q" x r] by simp
  moreover have "x \<noteq> c" using snoc.prems(2) by auto
  ultimately show ?case using snoc.IH [of "i + 1 + length q" "x # r"] snoc.prems by simp
qed

lemma strrchr_found:
  "is_str (p @ c # q) \<Longrightarrow> c \<notin> set q \<Longrightarrow> strrchr (p @ c # q @ NUL # r) c = Some (Some (length p))"
  using strlen_str [of "p @ c # q" r] memrchr_found [of p "length p" c "q @ [NUL]" _ r]
  by (simp add: strrchr_def)

lemma strrchr_none:
  "is_str s \<Longrightarrow> c \<notin> set s \<Longrightarrow> c \<noteq> NUL \<Longrightarrow> strrchr (s @ NUL # r) c = Some None"
  using strlen_str [of s r] memrchr_none [of "length s + 1" "s @ NUL # r" c]
  by (simp add: strrchr_def)

text \<open>Copies: on success the block holds the string and its terminator, and nothing else.\<close>

definition alloc :: "(nat \<Rightarrow> 'a list ptr) \<Rightarrow> 'a list \<Rightarrow> 'a list ptr" where
  "alloc malloc b = (case malloc (length b) of NULL \<Rightarrow> NULL | Ptr _ \<Rightarrow> Ptr b)"

lemma alloc_cases: "alloc malloc b = NULL \<or> alloc malloc b = Ptr b"
  by (simp add: alloc_def split: ptr.split)

lemma strdup_str:
  "malloc_ok malloc \<Longrightarrow> is_str s \<Longrightarrow> strdup malloc (s @ NUL # r) = Some (alloc malloc (s @ [NUL]))"
  by (auto simp: strdup_def strlen_str alloc_def blk_copy_def malloc_ok_def split: ptr.split)

lemma strndup_str:
  assumes "malloc_ok malloc" and "is_str s" and "k \<le> length s"
  shows "strndup malloc (s @ NUL # r) k = Some (alloc malloc (take k s @ [NUL]))"
proof -
  have "takeWhile (\<lambda>c. c \<noteq> NUL) (take k s) = take k s"
    using is_str_take [OF assms(2), of k] by (auto simp: is_str_def takeWhile_eq_all_conv)
  with assms(3) have n: "length (takeWhile (\<lambda>c. c \<noteq> NUL) (take k (s @ NUL # r))) = k"
    by (metis append_Nil2 append_take_drop_id diff_is_0_eq length_take min.absorb2 take0 take_append)
  have "blk_write (take k s @ drop k m) (int k) NUL = Some (take k s @ [NUL])" if "length m = k + 1" for m
  proof -
    have "drop k m = [m ! k]" using that by (simp add: Cons_nth_drop_Suc [symmetric])
    with that assms(3) show ?thesis by (simp add: blk_write_def list_update_append)
  qed
  with n assms(1,3) show ?thesis
    by (auto simp: strndup_def alloc_def blk_copy_def malloc_ok_def Let_def split: ptr.split)
qed

lemma strndup_str_whole:
  assumes "malloc_ok malloc" and "is_str s"
  shows "strndup malloc (s @ NUL # r) (length s + 1) = Some (alloc malloc (s @ [NUL]))"
proof -
  have n: "length (takeWhile (\<lambda>c. c \<noteq> NUL) (take (length s + 1) (s @ NUL # r))) = length s"
    using takeWhile_str [OF assms(2), of "[]"] by simp
  have "blk_write (s @ drop (length s) m) (int (length s)) NUL = Some (s @ [NUL])"
    if "length m = length s + 1" for m
  proof -
    have "drop (length s) m = [m ! length s]" using that by (simp add: Cons_nth_drop_Suc [symmetric])
    with that show ?thesis by (simp add: blk_write_def list_update_append)
  qed
  with n assms(1) show ?thesis
    by (auto simp: strndup_def alloc_def blk_copy_def malloc_ok_def Let_def split: ptr.split)
qed

lemma strcmp_eq_str:
  "is_str s \<Longrightarrow> is_str t \<Longrightarrow> strcmp_eq (s @ NUL # r) (t @ NUL # r') = Some (s = t)"
proof (induction s arbitrary: t)
  case Nil
  then show ?case by (cases t) auto
next
  case (Cons c s)
  then show ?case by (cases t) auto
qed

text \<open>A new block that holds a string, perhaps with more behind its terminator.\<close>

definition new_str :: "(nat \<Rightarrow> char list ptr) \<Rightarrow> string \<Rightarrow> char list ptr \<Rightarrow> bool" where
  "new_str malloc s x \<longleftrightarrow> (\<exists>n. malloc n = NULL \<and> x = NULL) \<or> (\<exists>r. x = Ptr (s @ NUL # r))"

lemma new_str_alloc [simp]: "new_str malloc s (alloc malloc (s @ [NUL]))"
  by (auto simp: new_str_def alloc_def split: ptr.split)

end
