(* ===== verification/Xcp_Path.thy ===== *)
theory Xcp_Path
  imports C_String
begin

text \<open>
  \<^verbatim>\<open>src/path.c\<close>. A pathname is a block with a null-terminated string in it; the result is a
  new block, \<^verbatim>\<open>NULL\<close> when \<^verbatim>\<open>malloc\<close> fails, or \<^const>\<open>None\<close> for undefined behaviour.
\<close>

section \<open>Functions\<close>

abbreviation slash :: char where
  "slash \<equiv> CHR ''/''"

definition xcp_path_is_abs :: "char list \<Rightarrow> bool option" where
  "xcp_path_is_abs pathname = do { c \<leftarrow> blk_read pathname 0; Some (c = slash) }"

definition xcp_path_combine ::
  "(nat \<Rightarrow> char list ptr) \<Rightarrow> char list \<Rightarrow> char list \<Rightarrow> char list ptr option" where
  "xcp_path_combine malloc pathname subpath =
     do { c \<leftarrow> blk_read pathname 0;
          b \<leftarrow> (if c = NUL then Some True else xcp_path_is_abs subpath);
          if b then strdup malloc subpath
          else do {
            pathnameLen \<leftarrow> strlen pathname;
            subpathLen \<leftarrow> strlen subpath;
            c \<leftarrow> blk_read pathname (int pathnameLen - 1);
            let addSeparator = (c \<noteq> slash);
            case malloc (usz (pathnameLen + subpathLen + 1 + of_bool addSeparator)) of
              NULL \<Rightarrow> Some NULL
            | Ptr res \<Rightarrow> do {
                res \<leftarrow> blk_copy res 0 (take pathnameLen pathname);
                res \<leftarrow> (if addSeparator then blk_write res (int pathnameLen) slash else Some res);
                res \<leftarrow> blk_copy res (pathnameLen + of_bool addSeparator) (take (subpathLen + 1) subpath);
                Some (Ptr res) } } }"

text \<open>
  \<^verbatim>\<open>get_first_slash (start, pos)\<close> is always called with \<^verbatim>\<open>start\<close> the first byte, offset 0; its
  loop variable \<^verbatim>\<open>p\<close> is one less than the argument of the recursion, which is what it returns.
\<close>

fun get_first_slash :: "char list \<Rightarrow> nat \<Rightarrow> nat option" where
  "get_first_slash b 0 = Some 0"
| "get_first_slash b (Suc p) =
     do { c \<leftarrow> blk_read b (int p); if c \<noteq> slash then Some (Suc p) else get_first_slash b p }"

text \<open>Step 2 of \<^verbatim>\<open>xcp_path_parent_dir\<close>: the slash before the last component of a path that ends in one.\<close>

definition parent_slash :: "char list \<Rightarrow> nat option \<Rightarrow> nat option option" where
  "parent_slash pathname sl =
     (case sl of
        None \<Rightarrow> Some None
      | Some i \<Rightarrow>
          if i = 0 then Some (Some i)
          else do {
            c \<leftarrow> blk_read pathname (int i + 1);
            if c \<noteq> NUL then Some (Some i)
            else do {
              p \<leftarrow> get_first_slash pathname i;
              if p \<noteq> 0 then memrchr pathname slash p else Some (Some i) } })"

text \<open>The copy of what is before the slash at offset \<open>i\<close> and the slashes before it.\<close>

definition parent_cut :: "(nat \<Rightarrow> char list ptr) \<Rightarrow> char list \<Rightarrow> nat \<Rightarrow> char list ptr option" where
  "parent_cut malloc pathname i =
     do { p \<leftarrow> get_first_slash pathname i;
          let len = (if p = 0 then (if i = 1 then i + 1 else 1) else p);
          dir \<leftarrow> strndup malloc pathname (len + 1);
          case dir of
            NULL \<Rightarrow> Some NULL
          | Ptr d \<Rightarrow> map_option Ptr (blk_write d (int len) NUL) }"

definition xcp_path_parent_dir :: "(nat \<Rightarrow> char list ptr) \<Rightarrow> char list ptr \<Rightarrow> char list ptr option" where
  "xcp_path_parent_dir malloc path =
     do { sl \<leftarrow> (case path of NULL \<Rightarrow> Some None | Ptr pathname \<Rightarrow> strrchr pathname slash);
          let pathname = (case path of NULL \<Rightarrow> [] | Ptr b \<Rightarrow> b);
          sl \<leftarrow> parent_slash pathname sl;
          case sl of
            None \<Rightarrow>
              (case malloc 2 of
                 NULL \<Rightarrow> Some NULL
               | Ptr dir \<Rightarrow> do {
                   dir \<leftarrow> blk_write dir 0 (CHR ''.'');
                   dir \<leftarrow> blk_write dir 1 NUL;
                   Some (Ptr dir) })
          | Some i \<Rightarrow> parent_cut malloc pathname i }"

section \<open>What they promise\<close>

text \<open>Paths as strings, without their terminator.\<close>

definition path_join :: "string \<Rightarrow> string \<Rightarrow> string" where
  "path_join p s =
     (if p = [] \<or> (s \<noteq> [] \<and> hd s = slash) then s
      else if last p = slash then p @ s
      else p @ [slash] @ s)"

definition strip_slashes :: "string \<Rightarrow> string" where
  "strip_slashes s = rev (dropWhile (\<lambda>c. c = slash) (rev s))"

definition strip_component :: "string \<Rightarrow> string" where
  "strip_component s = rev (dropWhile (\<lambda>c. c \<noteq> slash) (rev s))"

text \<open>
  The directory of a path: its trailing slashes and its last component removed, then the slashes
  before that. A path made of slashes is its own directory, \<^verbatim>\<open>//\<close> when there are two of them and
  \<^verbatim>\<open>/\<close> otherwise.
\<close>

definition root_of :: "string \<Rightarrow> string" where
  "root_of s = (if length s = 2 then ''//'' else ''/'')"

definition path_parent :: "string \<Rightarrow> string" where
  "path_parent s =
     (if slash \<notin> set s then ''.''
      else if strip_slashes s = [] then root_of s
      else let d = strip_component (strip_slashes s) in
        if d = [] then ''.'' else if strip_slashes d = [] then root_of d else strip_slashes d)"

section \<open>Stripping\<close>

lemma strip_slashes_simps [simp]:
  "strip_slashes [] = []" "strip_slashes [c] = (if c = slash then [] else [c])"
  "strip_slashes (s @ [c]) = (if c = slash then strip_slashes s else s @ [c])"
  by (simp_all add: strip_slashes_def)

lemma strip_slashes_le: "length (strip_slashes s) \<le> length s"
  by (induction s rule: rev_induct) auto

lemma strip_slashes_take: "take (length (strip_slashes s)) s = strip_slashes s"
  by (induction s rule: rev_induct) (auto simp: strip_slashes_le)

lemma strip_slashes_id: "q \<noteq> [] \<Longrightarrow> last q \<noteq> slash \<Longrightarrow> strip_slashes (p @ q) = p @ q"
  by (cases q rule: rev_cases) (simp_all flip: append_assoc)

lemma strip_component_eq: "slash \<notin> set q \<Longrightarrow> strip_component (p @ slash # q) = p @ [slash]"
  by (subst strip_component_def) (simp, subst dropWhile_append2, auto)

lemma strip_component_none: "slash \<notin> set q \<Longrightarrow> strip_component q = []"
  by (auto simp: strip_component_def dropWhile_eq_Nil_conv)

lemma get_first_slash_eq:
  "i \<le> length b \<Longrightarrow> get_first_slash b i = Some (length (strip_slashes (take i b)))"
proof (induction i)
  case (Suc i)
  then have "take (Suc i) b = take i b @ [b ! i]" by (simp add: take_Suc_conv_app_nth)
  with Suc show ?case by (simp add: blk_read_nat)
qed simp

section \<open>Combining\<close>

text \<open>What is written into a block of the right size.\<close>

lemma combine_writes:
  assumes m: "length m = length p + length s + 1 + of_bool a"
  shows "do {
      res \<leftarrow> blk_copy m 0 p;
      res \<leftarrow> (if a then blk_write res (int (length p)) slash else Some res);
      blk_copy res (length p + of_bool a) (s @ [NUL]) } = Some (p @ (if a then [slash] else []) @ s @ [NUL])"
proof (cases a)
  case True
  have "blk_write (p @ drop (length p) m) (int (length p)) slash = Some (p @ slash # drop (length p + 1) m)"
    using m True by (simp add: blk_write_def list_update_append Cons_nth_drop_Suc [symmetric])
  with True m show ?thesis by (simp add: blk_copy_def)
qed (use m in \<open>simp add: blk_copy_def\<close>)

lemma path_combine_eq:
  assumes "malloc_ok malloc" and p: "is_str p" and s: "is_str s"
    and fits: "length p + length s + 2 < 2 ^ 64"
  shows "xcp_path_combine malloc (p @ NUL # r) (s @ NUL # r') = Some (alloc malloc (path_join p s @ [NUL]))"
proof (cases "p = [] \<or> (s \<noteq> [] \<and> hd s = slash)")
  case True
  have "xcp_path_combine malloc (p @ NUL # r) (s @ NUL # r') = strdup malloc (s @ NUL # r')"
    using True p by (cases p; cases s) (auto simp: xcp_path_combine_def xcp_path_is_abs_def blk_read_def)
  with True assms show ?thesis by (simp add: strdup_str path_join_def)
next
  case False
  then obtain u c where u: "p = u @ [c]" by (cases p rule: rev_cases) auto
  let ?a = "c \<noteq> slash" and ?n = "length p + length s + 1 + of_bool (c \<noteq> slash)"
  have "blk_read (p @ NUL # r) 0 = Some (hd p)" "hd p \<noteq> NUL"
    using False p by (cases p; simp add: blk_read_def)+
  moreover have "xcp_path_is_abs (s @ NUL # r') = Some False"
    using False by (cases s) (auto simp: xcp_path_is_abs_def blk_read_def)
  moreover have "blk_read (p @ NUL # r) (int (length p) - 1) = Some c"
    using blk_read_at [of u "length u" c "NUL # r"] u by simp
  moreover have "usz ?n = ?n" using fits by (intro usz_id) (simp add: of_bool_def)
  ultimately have "xcp_path_combine malloc (p @ NUL # r) (s @ NUL # r') =
     (case malloc ?n of
        NULL \<Rightarrow> Some NULL
      | Ptr res \<Rightarrow> map_option Ptr (do {
          res \<leftarrow> blk_copy res 0 p;
          res \<leftarrow> (if ?a then blk_write res (int (length p)) slash else Some res);
          blk_copy res (length p + of_bool ?a) (s @ [NUL]) }))"
    using p s by (cases ?a) (simp_all add: xcp_path_combine_def strlen_str map_option_case split: ptr.split
        Option.bind_splits option.split)
  also have "\<dots> = Some (alloc malloc (p @ (if ?a then [slash] else []) @ s @ [NUL]))"
  proof (cases "malloc ?n")
    case NULL
    then show ?thesis by (cases ?a) (auto simp: alloc_def)
  next
    case (Ptr m)
    then have "length m = ?n" using assms(1) by (simp add: malloc_ok_def)
    from combine_writes [OF this] Ptr show ?thesis by (cases ?a) (auto simp: alloc_def)
  qed
  also have "p @ (if ?a then [slash] else []) @ s @ [NUL] = path_join p s @ [NUL]"
    using False u by (auto simp: path_join_def)
  finally show ?thesis .
qed

section \<open>The parent directory\<close>

definition root_or :: "string \<Rightarrow> string" where
  "root_or d = (if strip_slashes d = [] then root_of d else strip_slashes d)"

lemma strndup_cut:
  assumes "malloc_ok malloc" and "is_str s" and "k \<le> length s"
  shows "\<exists>x. do { dir \<leftarrow> strndup malloc (s @ NUL # r) (k + 1);
      case dir of NULL \<Rightarrow> Some NULL | Ptr d \<Rightarrow> map_option Ptr (blk_write d (int k) NUL) } = Some x \<and>
    new_str malloc (take k s) x"
proof (cases "k = length s")
  case True
  have "blk_write (s @ [NUL]) (int (length s)) NUL = Some (s @ [NUL])"
    by (simp add: blk_write_def list_update_append)
  with strndup_str_whole [OF assms(1,2), of r] True show ?thesis
    by (auto simp: alloc_def new_str_def split: ptr.split)
next
  case False
  then have "take (k + 1) s = take k s @ [s ! k]" using assms(3) by (simp add: take_Suc_conv_app_nth)
  then have "blk_write (take (k + 1) s @ [NUL]) (int k) NUL = Some (take k s @ NUL # [NUL])"
    using assms(3) False by (simp add: blk_write_def list_update_append)
  with strndup_str [OF assms(1,2), of "k + 1" r] False assms(3) show ?thesis
    by (auto simp: alloc_def new_str_def split: ptr.split)
qed

text \<open>The last step, from the slash at offset \<open>length p\<close> on.\<close>

lemma parent_from:
  assumes ok: "malloc_ok malloc" and str: "is_str s" and s: "s = p @ slash # q"
  shows "\<exists>x. parent_cut malloc (s @ NUL # r) (length p) = Some x \<and>
    new_str malloc (root_or (p @ [slash])) x"
proof -
  let ?k = "length (strip_slashes p)"
  let ?len = "if ?k = 0 then (if length p = 1 then length p + 1 else 1) else ?k"
  have first: "get_first_slash (s @ NUL # r) (length p) = Some ?k"
    using get_first_slash_eq [of "length p" "s @ NUL # r"] s by simp
  have taken: "take ?len s = root_or (p @ [slash])"
  proof (cases "strip_slashes p = []")
    case True
    then have "set p \<subseteq> {slash}" by (auto simp: strip_slashes_def dropWhile_eq_Nil_conv)
    then have "take ?len s = root_of (p @ [slash])"
      using True s by (cases p) (auto simp: root_of_def)
    with True show ?thesis by (simp add: root_or_def)
  next
    case False
    with s strip_slashes_le [of p] strip_slashes_take [of p] show ?thesis by (simp add: root_or_def)
  qed
  have "?len \<le> length s" using s strip_slashes_le [of p] by auto
  from strndup_cut [OF ok str this, of r] show ?thesis
    unfolding taken parent_cut_def first Let_def bind.bind_lunit .
qed

text \<open>Without a directory the answer is a new \<^verbatim>\<open>"."\<close>.\<close>

lemma dot_dir:
  assumes "malloc_ok malloc"
  shows "\<exists>x. (case malloc 2 of NULL \<Rightarrow> Some NULL | Ptr dir \<Rightarrow> do {
             dir \<leftarrow> blk_write dir 0 (CHR ''.''); dir \<leftarrow> blk_write dir 1 NUL; Some (Ptr dir) }) = Some x
    \<and> new_str malloc ''.'' x"
proof (cases "malloc 2")
  case (Ptr d)
  then have "length d = 2" using assms by (simp add: malloc_ok_def)
  then obtain a b where "d = [a, b]" by (auto simp: length_Suc_conv numeral_2_eq_2)
  with Ptr show ?thesis by (auto simp: blk_write_def new_str_def)
qed (auto simp: new_str_def)

text \<open>
  The slash that ends the parent, for a path whose last slash is at \<open>length p\<close>: this one, or, when nothing
  but slashes follows a component, one before that component.
\<close>

definition ends_parent :: "string \<Rightarrow> nat option \<Rightarrow> bool" where
  "ends_parent s i \<longleftrightarrow>
     (case i of
        None \<Rightarrow> path_parent s = ''.''
      | Some n \<Rightarrow> \<exists>p q. n = length p \<and> s = p @ slash # q \<and> path_parent s = root_or (p @ [slash]))"

lemma blk_read_behind:
  "s = p @ slash # q \<Longrightarrow> blk_read (s @ NUL # r) (int (length p) + 1) = Some (if q = [] then NUL else hd q)"
  using blk_read_at [of "p @ [slash]" "length p + 1"] by (cases q) (simp_all add: add.commute)

lemma parent_slash_here:
  assumes str: "is_str s" and s: "s = p @ slash # q" "slash \<notin> set q"
    and here: "q \<noteq> [] \<or> strip_slashes p = []"
  shows "\<exists>i. parent_slash (s @ NUL # r) (Some (length p)) = Some i \<and> ends_parent s i"
proof -
  have "path_parent s = root_or (p @ [slash])"
  proof (cases "q = []")
    case True
    with here s show ?thesis by (simp add: path_parent_def root_or_def)
  next
    case False
    moreover have "last q \<noteq> slash" using False s(2) by (metis last_in_set)
    ultimately show ?thesis
      using s strip_slashes_id [of "slash # q" p] strip_component_eq [OF s(2), of p]
      by (simp add: path_parent_def root_or_def Let_def)
  qed
  then have "ends_parent s (Some (length p))" using s by (auto simp: ends_parent_def)
  moreover have "parent_slash (s @ NUL # r) (Some (length p)) = Some (Some (length p))"
    using here blk_read_behind [OF s(1), of r] str s get_first_slash_eq [of "length p" "s @ NUL # r"]
    by (cases q) (auto simp: parent_slash_def)
  ultimately show ?thesis by blast
qed

lemma parent_slash_before:
  assumes s: "s = p @ [slash]" and before: "strip_slashes p \<noteq> []"
  shows "\<exists>i. parent_slash (s @ NUL # r) (Some (length p)) = Some i \<and> ends_parent s i"
proof -
  let ?b = "s @ NUL # r" and ?w = "strip_slashes p"
  have step: "parent_slash ?b (Some (length p)) = memrchr ?b slash (length ?w)"
    using before blk_read_behind [of s p "[]" r] get_first_slash_eq [of "length p" ?b] s
    by (auto simp: parent_slash_def)
  have w: "take (length ?w) ?b = ?w"
    using s strip_slashes_take [of p] strip_slashes_le [of p] by simp
  have strip: "strip_slashes s = ?w" using s by simp
  show ?thesis
  proof (cases "slash \<in> set ?w")
    case False
    have "length ?w \<le> length ?b" using strip_slashes_le [of p] s by simp
    with False w step have "parent_slash ?b (Some (length p)) = Some None"
      using memrchr_none by metis
    moreover have "path_parent s = ''.''"
      using strip before s strip_component_none [OF False] by (simp add: path_parent_def)
    ultimately show ?thesis by (auto simp: ends_parent_def)
  next
    case True
    then obtain u v where uv: "?w = u @ slash # v" "slash \<notin> set v" by (metis split_list_last)
    have "?b = ?w @ drop (length ?w) ?b" using w by (metis append_take_drop_id)
    then have "memrchr ?b slash (length ?w) = Some (Some (length u))"
      using memrchr_found [of u "length u" slash v "length ?w" "drop (length ?w) ?b"] uv by simp
    moreover obtain v' where "s = u @ slash # v'"
      using uv s strip_slashes_take [of p] by (metis append.assoc append_Cons append_take_drop_id)
    moreover have "path_parent s = root_or (u @ [slash])"
      using strip before s uv strip_component_eq [OF uv(2), of u]
      by (simp add: path_parent_def root_or_def Let_def)
    ultimately show ?thesis using step by (auto simp: ends_parent_def)
  qed
qed

lemma parent_dir_eq:
  assumes ok: "malloc_ok malloc" and str: "is_str s"
  shows "\<exists>x. xcp_path_parent_dir malloc (Ptr (s @ NUL # r)) = Some x \<and> new_str malloc (path_parent s) x"
proof (cases "slash \<in> set s")
  case False
  with str have "strrchr (s @ NUL # r) slash = Some None" by (simp add: strrchr_none)
  with dot_dir [OF ok] False show ?thesis by (simp add: xcp_path_parent_dir_def parent_slash_def path_parent_def)
next
  case True
  then obtain p q where s: "s = p @ slash # q" "slash \<notin> set q" by (metis split_list_last)
  have last: "strrchr (s @ NUL # r) slash = Some (Some (length p))"
    using strrchr_found [of p slash q r] s str by simp
  obtain i where i: "parent_slash (s @ NUL # r) (Some (length p)) = Some i" "ends_parent s i"
    using parent_slash_here [OF str s, of r] parent_slash_before [of s p r] s(1) by blast
  show ?thesis
  proof (cases i)
    case None
    with dot_dir [OF ok] last i show ?thesis by (simp add: xcp_path_parent_dir_def ends_parent_def)
  next
    case (Some n)
    with i obtain u v where "n = length u" "s = u @ slash # v" "path_parent s = root_or (u @ [slash])"
      by (auto simp: ends_parent_def)
    with parent_from [OF ok str, of u v r] last i(1) Some show ?thesis by (simp add: xcp_path_parent_dir_def)
  qed
qed

end
