(* ===== verification/Path_Properties.thy ===== *)
theory Path_Properties
  imports Xcp_Path
begin

text \<open>The properties of \<^verbatim>\<open>src/path.c\<close>.\<close>

text \<open>Every allocation succeeds, with a block of other contents.\<close>

definition malloc_x :: "nat \<Rightarrow> char list ptr" where
  "malloc_x n = Ptr (replicate n (CHR ''x''))"

lemma malloc_x_ok: "malloc_ok malloc_x"
  by (auto simp: malloc_ok_def malloc_x_def)

text \<open>
  C17: \<^verbatim>\<open>xcp_path_parent_dir\<close> never reads or writes outside its blocks and gives a new string: the
  path without its last component and the slashes around it, \<^verbatim>\<open>/\<close> or \<^verbatim>\<open>//\<close> for what lies in the
  root, and \<^verbatim>\<open>.\<close> for a path without a directory.
\<close>
theorem parent_dir_computes_parent:
  assumes "malloc_ok malloc" and "is_str s"
  shows "\<exists>x. xcp_path_parent_dir malloc (Ptr (s @ NUL # r)) = Some x \<and> new_str malloc (path_parent s) x"
  using parent_dir_eq [OF assms] .

lemma parent_dir_computes_parent_witness:
  "\<exists>x. xcp_path_parent_dir malloc_x (Ptr (''/usr//lib/'' @ NUL # ''rest'')) = Some x \<and>
    new_str malloc_x (path_parent ''/usr//lib/'') x"
  by (rule parent_dir_computes_parent [OF malloc_x_ok]) (simp add: is_str_def)

text \<open>The string that comes back, up to its terminator.\<close>

definition parent_of :: "string \<Rightarrow> string" where
  "parent_of s =
     (case xcp_path_parent_dir malloc_x (Ptr (s @ [NUL])) of
        Some (Ptr d) \<Rightarrow> takeWhile (\<lambda>c. c \<noteq> NUL) d | _ \<Rightarrow> [])"

text \<open>
  The seventeen examples that the comment before \<^verbatim>\<open>xcp_path_parent_dir\<close> gives are what it
  computes; a null pathname gives \<^verbatim>\<open>.\<close>.
\<close>

lemma parent_dir_examples:
  "xcp_path_parent_dir malloc_x NULL = Some (Ptr (''.'' @ [NUL])) \<and>
   map parent_of
     [''/'', ''/toto'', ''titi/a'', ''gfrg/grg/'', ''/gfrg/grg/'', ''////gfrg///grg///'',
      ''///gfrg////grg'', ''/gfrg////grg'', ''titia'', ''/toto/'', ''//'', ''///'', ''////'',
      ''//a'', ''///b'', ''////c'', ''////c/d''] =
     [''/'', ''/'', ''titi'', ''gfrg'', ''/gfrg'', ''////gfrg'',
      ''///gfrg'', ''/gfrg'', ''.'', ''/'', ''//'', ''/'', ''/'',
      ''//'', ''/'', ''/'', ''////c'']"
  by code_simp

text \<open>
  C30: \<^verbatim>\<open>xcp_path_combine\<close> allocates exactly the joined path and its terminator and fills the block
  completely: the subpath alone when it is absolute or the pathname is empty, otherwise both with
  exactly one slash added when the pathname does not end in one.
\<close>
theorem combine_joins:
  assumes "malloc_ok malloc" and "is_str p" and "is_str s" and "length p + length s + 2 < 2 ^ 64"
  shows "xcp_path_combine malloc (p @ NUL # r) (s @ NUL # r') = Some (alloc malloc (path_join p s @ [NUL]))"
  using path_combine_eq [OF assms] .

lemma combine_joins_witness:
  "xcp_path_combine malloc_x (''/usr'' @ NUL # []) (''lib'' @ NUL # [])
     = Some (alloc malloc_x (path_join ''/usr'' ''lib'' @ [NUL]))"
  by (rule combine_joins [OF malloc_x_ok]) (simp_all add: is_str_def)

text \<open>
  C18: for a pathname that is not empty and does not end in a slash and a subpath that is a single
  component (not empty, without a slash), taking the parent directory of the combined path gives the
  pathname back, in a new block, or \<^verbatim>\<open>NULL\<close> when memory does not suffice.
\<close>
theorem parent_of_combine:
  assumes "malloc_ok malloc" and "is_str p" and "is_str s" and "length p + length s + 2 < 2 ^ 64"
    and p: "p \<noteq> []" "last p \<noteq> slash" and s: "s \<noteq> []" "slash \<notin> set s"
    and b: "xcp_path_combine malloc (p @ NUL # r) (s @ NUL # r') = Some (Ptr b)"
  shows "\<exists>x. xcp_path_parent_dir malloc (Ptr b) = Some x \<and> new_str malloc p x"
proof -
  have "hd s \<noteq> slash" using s by (metis hd_in_set)
  then have join: "path_join p s = p @ slash # s" using p by (simp add: path_join_def)
  then have "b = (p @ slash # s) @ NUL # []"
    using path_combine_eq [OF assms(1-4)] b alloc_cases [of malloc "path_join p s @ [NUL]"] by auto
  moreover have "path_parent (p @ slash # s) = p"
  proof -
    have "last s \<noteq> slash" using s by (metis last_in_set)
    then have "strip_slashes (p @ slash # s) = p @ slash # s"
      using strip_slashes_id [of "slash # s" p] s(1) by simp
    moreover have "strip_slashes (p @ [slash]) = p" using strip_slashes_id [of p "[]"] p by simp
    ultimately show ?thesis using p strip_component_eq [OF s(2), of p] by (simp add: path_parent_def Let_def)
  qed
  ultimately show ?thesis using parent_dir_eq [OF assms(1), of "p @ slash # s" "[]"] assms(2,3) by simp
qed

lemma parent_of_combine_witness:
  "\<exists>x. xcp_path_parent_dir malloc_x (Ptr (''/usr/lib'' @ [NUL])) = Some x \<and> new_str malloc_x ''/usr'' x"
proof (rule parent_of_combine [OF malloc_x_ok])
  show "xcp_path_combine malloc_x (''/usr'' @ NUL # []) (''lib'' @ NUL # []) = Some (Ptr (''/usr/lib'' @ [NUL]))"
    using path_combine_eq [OF malloc_x_ok, of "''/usr''" "''lib''" "[]" "[]"]
    by (simp add: is_str_def path_join_def alloc_def malloc_x_def)
qed (simp_all add: is_str_def)

end
