(* ===== verification/Xcp_String.thy ===== *)
theory Xcp_String
  imports C_String
begin

text \<open>
  \<^verbatim>\<open>src/string.c\<close>. Strings and buffers are blocks; \<^const>\<open>None\<close> is undefined behaviour. An output
  parameter \<^verbatim>\<open>bool *ok\<close> is a \<^typ>\<open>bool ptr\<close>.
\<close>

section \<open>The parts of the C library the file uses\<close>

text \<open>\<^verbatim>\<open>isspace\<close> in the C locale.\<close>

definition isspace :: "char \<Rightarrow> bool" where
  "isspace c \<longleftrightarrow> c \<in> {CHR '' '', CHR 0x09, CHR 0x0A, CHR 0x0B, CHR 0x0C, CHR 0x0D}"

definition digit_val :: "char \<Rightarrow> nat option" where
  "digit_val c = (if 48 \<le> (of_char c :: nat) \<and> (of_char c :: nat) \<le> 57 then Some (of_char c - 48) else None)"

definition LLONG_MAX :: int where
  "LLONG_MAX = 9223372036854775807"

definition LLONG_MIN :: int where
  "LLONG_MIN = - 9223372036854775808"

text \<open>
  \<^verbatim>\<open>strtoll (str, &end, 10)\<close> on a string without its terminator: white space, an optional sign and
  digits. It gives the value (limited to the range of the type), the offset of \<^verbatim>\<open>*end\<close>, which is 0
  when there is no digit, and whether it set \<^verbatim>\<open>errno\<close> to \<^verbatim>\<open>ERANGE\<close>.
\<close>

definition is_digit :: "char \<Rightarrow> bool" where
  "is_digit c \<longleftrightarrow> digit_val c \<noteq> None"

definition digits_value :: "string \<Rightarrow> nat" where
  "digits_value ds = foldl (\<lambda>n c. 10 * n + the (digit_val c)) 0 ds"

definition clamp :: "int \<Rightarrow> int" where
  "clamp v = (if v > LLONG_MAX then LLONG_MAX else if v < LLONG_MIN then LLONG_MIN else v)"

definition strtoll :: "string \<Rightarrow> int \<times> nat \<times> bool" where
  "strtoll s =
     (let sp = takeWhile isspace s;
          s1 = drop (length sp) s;
          neg = (s1 \<noteq> [] \<and> hd s1 = CHR ''-'');
          sign = (if s1 \<noteq> [] \<and> hd s1 \<in> {CHR ''-'', CHR ''+''} then 1 else 0);
          ds = takeWhile is_digit (drop sign s1);
          v = (if neg then - int (digits_value ds) else int (digits_value ds))
      in if ds = [] then (0, 0, False)
         else (clamp v, length sp + sign + length ds, v \<noteq> clamp v))"

section \<open>Functions\<close>

text \<open>They set \<^verbatim>\<open>errno\<close>, which is the last component of their results.\<close>

definition store_ok :: "bool ptr \<Rightarrow> bool \<Rightarrow> bool ptr" where
  "store_ok ok b = (case ok of NULL \<Rightarrow> NULL | Ptr _ \<Rightarrow> Ptr b)"

definition xcp_str_to_longlong :: "string \<Rightarrow> bool ptr \<Rightarrow> int \<times> bool ptr \<times> int" where
  "xcp_str_to_longlong str ok =
     (case strtoll str of (value, end_pos, erange) \<Rightarrow>
        let err = (if erange then ERANGE else 0) in
        (value, store_ok ok (end_pos \<noteq> 0 \<and> err \<noteq> ERANGE), err))"

definition xcp_str_to_int :: "string \<Rightarrow> bool ptr \<Rightarrow> int \<times> bool ptr \<times> int" where
  "xcp_str_to_int str ok =
     (case xcp_str_to_longlong str ok of (value, ok, err) \<Rightarrow>
        (s32 value, (if value \<noteq> s32 value then store_ok ok False else ok), err))"

text \<open>\<^verbatim>\<open>long\<close> has 64 bits.\<close>

definition xcp_str_to_long :: "string \<Rightarrow> bool ptr \<Rightarrow> int \<times> bool ptr \<times> int" where
  "xcp_str_to_long str ok =
     (case xcp_str_to_longlong str ok of (value, ok, err) \<Rightarrow>
        (s64 value, (if value \<noteq> s64 value then store_ok ok False else ok), err))"

text \<open>
  A plain \<^verbatim>\<open>char\<close> is signed; \<^verbatim>\<open>isspace\<close> is defined for the values of an \<^verbatim>\<open>unsigned char\<close> and for
  \<^verbatim>\<open>EOF\<close>, which is -1, the value of the byte 255.
\<close>

definition isspace_defined :: "char \<Rightarrow> bool" where
  "isspace_defined c \<longleftrightarrow> (of_char c :: nat) < 128 \<or> (of_char c :: nat) = 255"

text \<open>
  The loop variable \<^verbatim>\<open>end\<close> is one less than the argument of the recursion, which is what it leaves.
  At 0 the pointer before the string has been formed, which is undefined.
\<close>

fun trim_end_loop :: "char list \<Rightarrow> nat \<Rightarrow> nat option" where
  "trim_end_loop str 0 = None"
| "trim_end_loop str (Suc e) =
     do { c \<leftarrow> blk_read str (int e);
          if \<not> isspace_defined c then None
          else if isspace c then trim_end_loop str e else Some (Suc e) }"

definition xcp_str_trim_end :: "char list \<Rightarrow> char list option" where
  "xcp_str_trim_end str =
     do { n \<leftarrow> strlen str; e \<leftarrow> trim_end_loop str n; blk_write str (int e) NUL }"

definition hex_digits :: "char list" where
  "hex_digits = ''0123456789ABCDEF''"

definition hex_char :: "byte \<Rightarrow> char" where
  "hex_char b = hex_digits ! unat b"

text \<open>
  The two loops of \<^verbatim>\<open>xcp_create_hex_buf\<close>, from the offset \<^verbatim>\<open>pos\<close> on; \<open>buf\<close> is what is left of the
  buffer.
\<close>

fun hex_forward :: "byte list \<Rightarrow> int \<Rightarrow> char list \<Rightarrow> char list option" where
  "hex_forward [] pos hexBuf = Some hexBuf"
| "hex_forward (b # buf) pos hexBuf =
     do { h \<leftarrow> blk_write hexBuf pos (hex_char (drop_bit 4 b));
          h \<leftarrow> blk_write h (pos + 1) (hex_char (and b 0xF));
          hex_forward buf (pos + 2) h }"

fun hex_backward :: "byte list \<Rightarrow> int \<Rightarrow> char list \<Rightarrow> char list option" where
  "hex_backward [] pos hexBuf = Some hexBuf"
| "hex_backward (b # buf) pos hexBuf =
     do { h \<leftarrow> blk_write hexBuf pos (hex_char (and b 0xF));
          h \<leftarrow> blk_write h (pos - 1) (hex_char (drop_bit 4 b));
          hex_backward buf (pos - 2) h }"

definition xcp_create_hex_buf ::
  "(nat \<Rightarrow> char list ptr) \<Rightarrow> byte list \<Rightarrow> nat \<Rightarrow> bool \<Rightarrow> char list ptr option" where
  "xcp_create_hex_buf malloc buf count reverse =
     (if count = 0 then Some NULL
      else if length buf < count then None
      else let prefix = ''0x''; prefixSize = length prefix;
               hexBufSize = usz (prefixSize + count * 2 + 1)
      in case malloc hexBufSize of
           NULL \<Rightarrow> Some NULL
         | Ptr hexBuf \<Rightarrow> do {
             hexBuf \<leftarrow> blk_copy hexBuf 0 prefix;
             hexBuf \<leftarrow> blk_write hexBuf (int hexBufSize - 1) NUL;
             hexBuf \<leftarrow> (if reverse then hex_backward (take count buf) (int hexBufSize - 2) hexBuf
                        else hex_forward (take count buf) (int prefixSize) hexBuf);
             Some (Ptr hexBuf) })"

definition xcp_buf_to_hex :: "(nat \<Rightarrow> char list ptr) \<Rightarrow> byte list \<Rightarrow> nat \<Rightarrow> char list ptr option" where
  "xcp_buf_to_hex malloc buf count = xcp_create_hex_buf malloc buf count False"

definition xcp_buf_to_reverse_hex ::
  "(nat \<Rightarrow> char list ptr) \<Rightarrow> byte list \<Rightarrow> nat \<Rightarrow> char list ptr option" where
  "xcp_buf_to_reverse_hex malloc buf count = xcp_create_hex_buf malloc buf count True"

section \<open>Hexadecimal\<close>

text \<open>The digits of a buffer, and how they are read back.\<close>

definition hex_of :: "byte list \<Rightarrow> string" where
  "hex_of bs = concat (map (\<lambda>b. [hex_char (drop_bit 4 b), hex_char (and b 0xF)]) bs)"

fun index_of :: "'a \<Rightarrow> 'a list \<Rightarrow> nat" where
  "index_of x [] = 0"
| "index_of x (y # ys) = (if x = y then 0 else Suc (index_of x ys))"

fun hex_decode :: "string \<Rightarrow> byte list" where
  "hex_decode (h # l # s) =
     (push_bit 4 (of_nat (index_of h hex_digits)) + of_nat (index_of l hex_digits)) # hex_decode s"
| "hex_decode _ = []"

lemma hex_of_simps [simp]:
  "hex_of [] = []" "hex_of (b # bs) = hex_char (drop_bit 4 b) # hex_char (and b 0xF) # hex_of bs"
  "hex_of (xs @ ys) = hex_of xs @ hex_of ys"
  by (simp_all add: hex_of_def)

lemma length_hex_of [simp]: "length (hex_of bs) = 2 * length bs"
  by (induction bs) auto

lemma blk_write_at: "length p = nat i \<Longrightarrow> 0 \<le> i \<Longrightarrow> blk_write (p @ c # q) i x = Some (p @ x # q)"
  by (auto simp: blk_write_def list_update_append)

lemma hex_forward_eq:
  "0 \<le> pos \<Longrightarrow> length p = nat pos \<Longrightarrow> length m = 2 * length buf \<Longrightarrow>
   hex_forward buf pos (p @ m @ q) = Some (p @ hex_of buf @ q)"
proof (induction buf arbitrary: p pos m)
  case (Cons b buf)
  then obtain x y m' where m: "m = x # y # m'" by (cases m; cases "tl m") auto
  let ?h = "hex_char (drop_bit 4 b)" and ?l = "hex_char (and b 0xF)"
  have "blk_write (p @ x # y # m' @ q) pos ?h = Some (p @ ?h # y # m' @ q)"
    using Cons.prems by (intro blk_write_at) auto
  moreover have "blk_write ((p @ [?h]) @ y # m' @ q) (pos + 1) ?l = Some ((p @ [?h]) @ ?l # m' @ q)"
    using Cons.prems by (intro blk_write_at) (auto simp: nat_add_distrib)
  moreover have "hex_forward buf (pos + 2) ((p @ [?h, ?l]) @ m' @ q) = Some ((p @ [?h, ?l]) @ hex_of buf @ q)"
    using Cons.prems m by (intro Cons.IH) (auto simp: nat_add_distrib)
  ultimately show ?case using m by simp
qed simp

lemma hex_backward_eq:
  "length p = k \<Longrightarrow> length m = 2 * length buf \<Longrightarrow> pos = int k + 2 * int (length buf) - 1 \<Longrightarrow>
   hex_backward buf pos (p @ m @ q) = Some (p @ hex_of (rev buf) @ q)"
proof (induction buf arbitrary: q pos m)
  case (Cons b buf)
  obtain x y m' where m: "m = m' @ [x, y]"
  proof -
    have "length m = Suc (Suc (2 * length buf))" using Cons.prems by simp
    then show thesis using that by (cases m rule: rev_cases; cases "butlast m" rule: rev_cases) auto
  qed
  let ?h = "hex_char (drop_bit 4 b)" and ?l = "hex_char (and b 0xF)"
  have lm: "length m' = 2 * length buf" using Cons.prems m by simp
  have "blk_write ((p @ m' @ [x]) @ y # q) pos ?l = Some ((p @ m' @ [x]) @ ?l # q)"
    using Cons.prems lm by (intro blk_write_at) auto
  moreover have "blk_write ((p @ m') @ x # ?l # q) (pos - 1) ?h = Some ((p @ m') @ ?h # ?l # q)"
    using Cons.prems lm by (intro blk_write_at) auto
  moreover have "hex_backward buf (pos - 2) (p @ m' @ ?h # ?l # q) = Some (p @ hex_of (rev buf) @ ?h # ?l # q)"
    using Cons.prems lm by (intro Cons.IH) auto
  ultimately show ?case using m by simp
qed simp

lemma create_hex_buf_eq:
  assumes ok: "malloc_ok malloc" and n: "0 < count" "count \<le> length buf" "2 * count + 3 < 2 ^ 64"
  shows "xcp_create_hex_buf malloc buf count reverse =
    Some (alloc malloc (''0x'' @ hex_of (if reverse then rev (take count buf) else take count buf) @ [NUL]))"
    (is "_ = Some (alloc malloc ?res)")
proof -
  let ?bs = "take count buf"
  have len: "length ?res = 2 * count + 3" using n by simp
  have size: "usz (2 + count * 2 + 1) = 2 * count + 3" using n(3) by (simp add: usz_id mult.commute)
  show ?thesis
  proof (cases "malloc (2 * count + 3)")
    case NULL
    with n size show ?thesis unfolding alloc_def len by (simp add: xcp_create_hex_buf_def Let_def)
  next
    case (Ptr b)
    then have b: "length b = 2 * count + 3" using ok by (simp add: malloc_ok_def)
    then obtain x y m z where m: "b = x # y # m @ [z]" "length m = 2 * count"
      by (cases b; cases "tl b"; cases "tl (tl b)" rule: rev_cases) auto
    have "blk_copy b 0 ''0x'' = Some (''0x'' @ m @ [z])" using m by (simp add: blk_copy_def)
    moreover have "blk_write ((''0x'' @ m) @ [z]) (int (2 * count + 3) - 1) NUL = Some ((''0x'' @ m) @ [NUL])"
      using m(2) by (intro blk_write_at) auto
    moreover have "hex_forward ?bs 2 (''0x'' @ m @ [NUL]) = Some (''0x'' @ hex_of ?bs @ [NUL])"
      using m(2) n by (intro hex_forward_eq) auto
    moreover have "hex_backward ?bs (int (2 * count + 3) - 2) (''0x'' @ m @ [NUL]) = Some (''0x'' @ hex_of (rev ?bs) @ [NUL])"
      using m(2) n by (intro hex_backward_eq [of _ 2]) auto
    ultimately show ?thesis
      using n size Ptr unfolding alloc_def len
      by (cases reverse) (simp_all add: xcp_create_hex_buf_def Let_def)
  qed
qed

lemma index_of_hex: "n < 16 \<Longrightarrow> index_of (hex_digits ! n) hex_digits = n"
proof -
  have "\<forall>n \<in> set [0..<16]. index_of (hex_digits ! n) hex_digits = n" by code_simp
  then show "n < 16 \<Longrightarrow> index_of (hex_digits ! n) hex_digits = n" by simp
qed

lemma hex_decode_of: "hex_decode (hex_of bs) = bs"
proof (induction bs)
  case (Cons b bs)
  have hi: "unat (drop_bit 4 b) = unat b div 16"
    by (simp only: unat_drop_bit_eq) (simp add: drop_bit_eq_div)
  have "(0xF :: byte) = mask 4" by (simp add: mask_eq_exp_minus_1)
  then have "unat (and b 0xF) = unat (take_bit 4 b)" by (simp only: take_bit_eq_mask)
  also have "\<dots> = unat b mod 16" by (simp only: unsigned_take_bit_eq) (simp add: take_bit_eq_mod)
  finally have lo: "unat (and b 0xF) = unat b mod 16" .
  have "unat b < 256" using unsigned_less [of b, where 'a = nat] by simp
  then have idx: "index_of (hex_char (drop_bit 4 b)) hex_digits = unat b div 16"
      "index_of (hex_char (and b 0xF)) hex_digits = unat b mod 16"
    using index_of_hex [of "unat b div 16"] index_of_hex [of "unat b mod 16"] hi lo
    by (simp_all add: hex_char_def)
  have "push_bit 4 (of_nat (unat b div 16) :: byte) + of_nat (unat b mod 16)
      = of_nat (unat b div 16 * 16 + unat b mod 16)"
    by (simp only: push_bit_eq_mult of_nat_add of_nat_mult) simp
  also have "\<dots> = b" by (simp only: div_mult_mod_eq) simp
  finally show ?case using Cons idx by simp
qed simp

section \<open>Trimming\<close>

text \<open>A string without the white space at its end.\<close>

definition trimmed :: "string \<Rightarrow> string" where
  "trimmed s = rev (dropWhile isspace (rev s))"

lemma trimmed_split: "s = trimmed s @ rev (takeWhile isspace (rev s))"
  by (metis rev_append rev_rev_ident takeWhile_dropWhile_id trimmed_def)

lemma trimmed_snoc: "trimmed (s @ [c]) = (if isspace c then trimmed s else s @ [c])"
  by (simp add: trimmed_def)

lemma isspace_is_defined: "isspace c \<Longrightarrow> isspace_defined c"
  by (auto simp: isspace_def isspace_defined_def)

text \<open>The strings for which trimming is defined: the last character that is not white space decides.\<close>

definition trim_defined :: "string \<Rightarrow> bool" where
  "trim_defined s \<longleftrightarrow> trimmed s \<noteq> [] \<and> isspace_defined (last (trimmed s))"

lemma trim_end_loop_eq:
  "trim_end_loop (s @ r) (length s) = (if trim_defined s then Some (length (trimmed s)) else None)"
proof (induction s arbitrary: r rule: rev_induct)
  case Nil
  then show ?case by (simp add: trim_defined_def trimmed_def)
next
  case (snoc c s)
  have "blk_read ((s @ [c]) @ r) (int (length s)) = Some c" by (simp add: blk_read_def)
  with snoc.IH [of "c # r"] show ?case
    by (auto simp: trimmed_snoc trim_defined_def isspace_is_defined)
qed

lemma trim_end_eq:
  assumes "is_str s"
  shows "xcp_str_trim_end (s @ NUL # r) =
    (if trim_defined s then Some (trimmed s @ NUL # tl (drop (length (trimmed s)) (s @ NUL # r))) else None)"
proof -
  let ?t = "trimmed s"
  let ?d = "drop (length ?t) (s @ NUL # r)"
  have le: "length ?t \<le> length s" by (metis length_append le_add1 trimmed_split)
  have "take (length ?t) s = ?t" by (metis append_eq_conv_conj trimmed_split)
  then have split: "s @ NUL # r = ?t @ ?d" using le
    by (metis append_take_drop_id diff_is_0_eq take0 take_append append_Nil2)
  have "?d \<noteq> []" using le by simp
  then obtain c q where d: "?d = c # q" by (cases ?d) auto
  have "blk_write (?t @ c # q) (int (length ?t)) NUL = Some (?t @ NUL # q)"
    by (intro blk_write_at) auto
  moreover have "s @ NUL # r = ?t @ c # q" using split d by simp
  ultimately show ?thesis
    using strlen_str [OF assms, of r] trim_end_loop_eq [of s "NUL # r"]
    unfolding xcp_str_trim_end_def d by simp
qed

section \<open>Reading numbers\<close>

text \<open>A number in decimal, as \<^verbatim>\<open>printf\<close> writes it.\<close>

definition digit_char :: "nat \<Rightarrow> char" where
  "digit_char d = char_of (48 + d)"

fun dec_nat :: "nat \<Rightarrow> string" where
  "dec_nat n = (if n < 10 then [digit_char n] else dec_nat (n div 10) @ [digit_char (n mod 10)])"

declare dec_nat.simps [simp del]

definition dec_int :: "int \<Rightarrow> string" where
  "dec_int v = (if v < 0 then CHR ''-'' # dec_nat (nat (- v)) else dec_nat (nat v))"

lemma digit_char_val: "d < 10 \<Longrightarrow> digit_val (digit_char d) = Some d"
  by (simp add: digit_val_def digit_char_def)

lemma digit_char_is: "d < 10 \<Longrightarrow> is_digit (digit_char d)"
  by (simp add: is_digit_def digit_char_val)

lemma dec_nat_digits: "\<forall>c \<in> set (dec_nat n). is_digit c"
proof (induction n rule: dec_nat.induct)
  case (1 n)
  then show ?case by (subst dec_nat.simps) (auto simp: digit_char_is)
qed

lemma dec_nat_value: "digits_value (dec_nat n) = n"
proof (induction n rule: dec_nat.induct)
  case (1 n)
  show ?case
  proof (cases "n < 10")
    case True
    then show ?thesis by (subst dec_nat.simps) (simp add: digits_value_def digit_char_val)
  next
    case False
    with 1 show ?thesis
      by (subst dec_nat.simps) (simp add: digits_value_def digit_char_val)
  qed
qed

lemma dec_nat_not_Nil [simp]: "dec_nat n \<noteq> []"
  by (subst dec_nat.simps) simp

lemma digit_not_sign: "is_digit c \<Longrightarrow> c \<noteq> CHR ''-'' \<and> c \<noteq> CHR ''+'' \<and> \<not> isspace c"
  by (auto simp: is_digit_def digit_val_def isspace_def)

lemma strtoll_dec:
  assumes sp: "\<forall>c \<in> set sp. isspace c" and stop: "r = [] \<or> \<not> is_digit (hd r)"
  shows "strtoll (sp @ dec_int v @ r) = (clamp v, length sp + length (dec_int v), v \<noteq> clamp v)"
proof -
  let ?neg = "v < 0" and ?ds = "dec_nat (nat \<bar>v\<bar>)"
  have dec: "dec_int v = (if ?neg then CHR ''-'' # ?ds else ?ds)" by (simp add: dec_int_def)
  have hd: "is_digit (hd ?ds)"
    using dec_nat_not_Nil dec_nat_digits [of "nat \<bar>v\<bar>"] hd_in_set by blast
  have "dec_int v @ r \<noteq> []" "\<not> isspace (hd (dec_int v @ r))"
    using digit_not_sign [OF hd] by (cases ?neg; simp add: dec isspace_def)+
  then have "takeWhile isspace (dec_int v @ r) = []" by (cases "dec_int v @ r") simp_all
  with sp have sp': "takeWhile isspace (sp @ dec_int v @ r) = sp"
    by (simp only: takeWhile_append2) simp
  have ds: "takeWhile is_digit (?ds @ r) = ?ds"
    using dec_nat_digits stop by (cases r) (simp_all add: takeWhile_append2)
  have val: "digits_value ?ds = nat \<bar>v\<bar>" by (rule dec_nat_value)
  show ?thesis
  proof (cases ?neg)
    case True
    then show ?thesis using sp' ds val by (simp add: strtoll_def dec Let_def)
  next
    case False
    then have "hd (?ds @ r) \<noteq> CHR ''-''" "hd (?ds @ r) \<noteq> CHR ''+''"
      using digit_not_sign [OF hd] by simp_all
    with False show ?thesis using sp' ds val by (simp add: strtoll_def dec Let_def)
  qed
qed

end
