(* ===== verification/String_Properties.thy ===== *)
theory String_Properties
  imports Xcp_String
begin

text \<open>The properties of \<^verbatim>\<open>src/string.c\<close>.\<close>

definition malloc_q :: "nat \<Rightarrow> char list ptr" where
  "malloc_q n = Ptr (replicate n (CHR ''?''))"

lemma malloc_q_ok: "malloc_ok malloc_q"
  by (auto simp: malloc_ok_def malloc_q_def)

lemma dec_clamp: "clamp v = v \<longleftrightarrow> - (2 ^ 63) \<le> v \<and> v < 2 ^ 63"
  by (auto simp: clamp_def LLONG_MAX_def LLONG_MIN_def)

text \<open>
  C26: a decimal number behind white space, and before anything that is not a digit, is read as its
  value with \<^verbatim>\<open>*ok\<close> set to true exactly when it fits the type. Otherwise \<^verbatim>\<open>*ok\<close> is set to false: a number
  that does not fit \<^verbatim>\<open>long long\<close> is limited to it, and \<^verbatim>\<open>xcp_str_to_int\<close> returns the low 32 bits
  of that, which need not be the nearest \<^verbatim>\<open>int\<close> (4294967297 is read as 1). \<^verbatim>\<open>errno\<close> is \<^verbatim>\<open>ERANGE\<close>
  when the number does not fit \<^verbatim>\<open>long long\<close> and 0 otherwise.
\<close>
theorem numbers_read_back:
  assumes "\<forall>c \<in> set sp. isspace c" and "r = [] \<or> \<not> is_digit (hd r)"
  shows "xcp_str_to_longlong (sp @ dec_int v @ r) (Ptr b) =
      (clamp v, Ptr (v = s64 v), if v = s64 v then 0 else ERANGE) \<and>
    xcp_str_to_long (sp @ dec_int v @ r) (Ptr b) =
      (clamp v, Ptr (v = s64 v), if v = s64 v then 0 else ERANGE) \<and>
    xcp_str_to_int (sp @ dec_int v @ r) (Ptr b) =
      (s32 (clamp v), Ptr (v = s32 v), if v = s64 v then 0 else ERANGE)"
proof -
  have pos: "0 < length sp + length (dec_int v)" by (simp add: dec_int_def)
  have c: "v \<noteq> clamp v \<longleftrightarrow> v \<noteq> s64 v" using dec_clamp [of v] s64_id_iff [of v] by auto
  have ll: "xcp_str_to_longlong (sp @ dec_int v @ r) (Ptr b) =
      (clamp v, Ptr (v = s64 v), if v = s64 v then 0 else ERANGE)"
    using strtoll_dec [OF assms, of v] pos c by (simp add: xcp_str_to_longlong_def store_ok_def)
  have range: "- (2 ^ 63) \<le> clamp v" "clamp v < 2 ^ 63"
    by (auto simp: clamp_def LLONG_MAX_def LLONG_MIN_def)
  have 1: "s64 (clamp v) = clamp v" using range by (simp add: s64_id)
  have i: "v = s32 v \<longleftrightarrow> - (2 ^ 31) \<le> v \<and> v < 2 ^ 31" using s32_id_iff [of v] by metis
  have j: "clamp v = s32 (clamp v) \<longleftrightarrow> - (2 ^ 31) \<le> clamp v \<and> clamp v < 2 ^ 31"
    using s32_id_iff [of "clamp v"] by metis
  have k: "v = s64 v \<longleftrightarrow> - (2 ^ 63) \<le> v \<and> v < 2 ^ 63" using s64_id_iff [of v] by metis
  have 2: "v = s32 v \<longleftrightarrow> v = s64 v \<and> clamp v = s32 (clamp v)"
    unfolding i j k by (auto simp: clamp_def LLONG_MAX_def LLONG_MIN_def split: if_splits)
  have 3: "xcp_str_to_int (sp @ dec_int v @ r) (Ptr b) =
      (s32 (clamp v), Ptr (v = s32 v), if v = s64 v then 0 else ERANGE)"
    unfolding 2 by (auto simp: xcp_str_to_int_def ll store_ok_def)
  show ?thesis using ll 1 3 by (simp add: xcp_str_to_long_def)
qed

lemma numbers_read_back_witness:
  "xcp_str_to_longlong ('' '' @ dec_int (- 4294967297) @ ''kB'') (Ptr False) =
      (clamp (- 4294967297), Ptr (- 4294967297 = s64 (- 4294967297)), if - 4294967297 = s64 (- 4294967297) then 0 else ERANGE) \<and>
    xcp_str_to_long ('' '' @ dec_int (- 4294967297) @ ''kB'') (Ptr False) =
      (clamp (- 4294967297), Ptr (- 4294967297 = s64 (- 4294967297)), if - 4294967297 = s64 (- 4294967297) then 0 else ERANGE) \<and>
    xcp_str_to_int ('' '' @ dec_int (- 4294967297) @ ''kB'') (Ptr False) =
      (s32 (clamp (- 4294967297)), Ptr (- 4294967297 = s32 (- 4294967297)), if - 4294967297 = s64 (- 4294967297) then 0 else ERANGE)"
  by (rule numbers_read_back) (simp_all add: isspace_def is_digit_def digit_val_def)

text \<open>
  Whatever the string, \<^verbatim>\<open>xcp_str_to_int\<close> sets \<^verbatim>\<open>*ok\<close> only when \<^verbatim>\<open>xcp_str_to_longlong\<close> does and
  gives the same value; the value is always one of the type, and a null \<^verbatim>\<open>ok\<close> is not written.
\<close>
lemma int_is_not_truncated:
  "case xcp_str_to_int str ok of (v, ok', _) \<Rightarrow>
     - (2 ^ 31) \<le> v \<and> v < 2 ^ 31 \<and> (ok = NULL \<longleftrightarrow> ok' = NULL) \<and>
     (ok' = Ptr True \<longleftrightarrow> fst (snd (xcp_str_to_longlong str ok)) = Ptr True \<and> fst (xcp_str_to_longlong str ok) = v)"
  using s32_range
  by (cases ok) (auto simp: xcp_str_to_int_def xcp_str_to_longlong_def store_ok_def Let_def split: prod.splits)

text \<open>
  C29: \<^verbatim>\<open>xcp_str_trim_end\<close> is defined exactly for the strings with a character that is not white space,
  the last of which may be passed to \<^verbatim>\<open>isspace\<close>: for an empty string, or one that is all white space, it
  forms the pointer before the string, and a byte from 128 to 254 is a negative number that is
  not a valid argument. Where it is defined it accesses no byte outside the string and ends it after that
  character; the bytes behind the new terminator stay.
\<close>
theorem trim_end_trims:
  assumes "is_str s"
  shows "xcp_str_trim_end (s @ NUL # r) =
      (if trimmed s \<noteq> [] \<and> isspace_defined (last (trimmed s))
       then Some (trimmed s @ NUL # tl (drop (length (trimmed s)) (s @ NUL # r))) else None) \<and>
    (trimmed s \<noteq> [] \<longrightarrow> \<not> isspace (last (trimmed s))) \<and>
    (\<exists>w. s = trimmed s @ w \<and> (\<forall>c \<in> set w. isspace c))"
proof -
  have "\<not> isspace (last (trimmed s))" if "trimmed s \<noteq> []"
    using that hd_dropWhile [of isspace "rev s"] by (simp add: trimmed_def last_rev)
  moreover have "\<forall>c \<in> set (rev (takeWhile isspace (rev s))). isspace c"
    by (auto dest: set_takeWhileD)
  ultimately show ?thesis
    using trim_end_eq [OF assms, of r] trimmed_split [of s] unfolding trim_defined_def by blast
qed

lemma trim_end_trims_witness:
  "xcp_str_trim_end (''a b  '' @ NUL # ''zz'') = Some (''a b'' @ NUL # '' '' @ NUL # ''zz'') \<and>
   xcp_str_trim_end (''  '' @ [NUL]) = None \<and> xcp_str_trim_end (CHR ''a'' # CHR 0xE9 # [NUL]) = None"
  using trim_end_trims [of "''a b  ''" "''zz''"] trim_end_trims [of "''  ''" "[]"]
    trim_end_trims [of "[CHR ''a'', CHR 0xE9]" "[]"]
  by (simp add: is_str_def trimmed_def isspace_def isspace_defined_def)

text \<open>
  C27: a buffer of \<open>count\<close> bytes becomes \<^verbatim>\<open>0x\<close> and two digits per byte, the high one first, in a new
  block that they and the terminator fill exactly; the reverse version gives what the other one
  gives for the reversed buffer. Nothing is allocated for an empty buffer.
\<close>
theorem hex_strings:
  assumes "malloc_ok malloc" and "count \<le> length buf" and "2 * count + 3 < 2 ^ 64"
  shows "xcp_buf_to_hex malloc buf count =
      Some (if count = 0 then NULL else alloc malloc (''0x'' @ hex_of (take count buf) @ [NUL])) \<and>
    xcp_buf_to_reverse_hex malloc buf count = xcp_buf_to_hex malloc (rev (take count buf)) count"
proof (cases "count = 0")
  case True
  then show ?thesis by (simp add: xcp_buf_to_hex_def xcp_buf_to_reverse_hex_def xcp_create_hex_buf_def)
next
  case False
  with assms create_hex_buf_eq [of malloc count buf] create_hex_buf_eq [of malloc count "rev (take count buf)" False]
  show ?thesis by (simp add: xcp_buf_to_hex_def xcp_buf_to_reverse_hex_def)
qed

lemma hex_strings_witness:
  "xcp_buf_to_hex malloc_q [0xAB, 0x01, 0xFF] 2 =
      Some (if (2 :: nat) = 0 then NULL else alloc malloc_q (''0x'' @ hex_of (take 2 [0xAB, 0x01, 0xFF]) @ [NUL])) \<and>
    xcp_buf_to_reverse_hex malloc_q [0xAB, 0x01, 0xFF] 2 = xcp_buf_to_hex malloc_q (rev (take 2 [0xAB, 0x01, 0xFF])) 2"
  by (rule hex_strings [OF malloc_q_ok]) simp_all

text \<open>C28: the digits of a hexadecimal string give the bytes of the buffer back.\<close>
theorem hex_roundtrip:
  assumes "malloc_ok malloc" and "2 * length buf + 3 < 2 ^ 64"
    and "xcp_buf_to_hex malloc buf (length buf) = Some (Ptr s)"
    and "xcp_buf_to_reverse_hex malloc buf (length buf) = Some (Ptr r)"
  shows "hex_decode (butlast (drop 2 s)) = buf \<and> hex_decode (butlast (drop 2 r)) = rev buf"
proof -
  have n: "0 < length buf"
    using assms(3) by (cases buf) (auto simp: xcp_buf_to_hex_def xcp_create_hex_buf_def)
  from create_hex_buf_eq [OF assms(1) n le_refl assms(2)] assms(3,4)
  have "s = ''0x'' @ hex_of buf @ [NUL]" "r = ''0x'' @ hex_of (rev buf) @ [NUL]"
    using alloc_cases [of malloc "''0x'' @ hex_of buf @ [NUL]"]
      alloc_cases [of malloc "''0x'' @ hex_of (rev buf) @ [NUL]"]
    by (auto simp: xcp_buf_to_hex_def xcp_buf_to_reverse_hex_def)
  then show ?thesis by (simp add: hex_decode_of)
qed

lemma hex_roundtrip_witness:
  "hex_decode (butlast (drop 2 (''0x'' @ hex_of [0xAB, 0x01] @ [NUL]))) = [0xAB, 0x01] \<and>
   hex_decode (butlast (drop 2 (''0x'' @ hex_of [0x01, 0xAB] @ [NUL]))) = rev [0xAB, 0x01]"
proof (rule hex_roundtrip [OF malloc_q_ok])
  show "xcp_buf_to_hex malloc_q [0xAB, 0x01] (length [0xAB, 0x01 :: byte]) = Some (Ptr (''0x'' @ hex_of [0xAB, 0x01] @ [NUL]))"
    "xcp_buf_to_reverse_hex malloc_q [0xAB, 0x01] (length [0xAB, 0x01 :: byte]) = Some (Ptr (''0x'' @ hex_of [0x01, 0xAB] @ [NUL]))"
    using create_hex_buf_eq [OF malloc_q_ok, of "length [0xAB, 0x01 :: byte]" "[0xAB, 0x01]" False]
      create_hex_buf_eq [OF malloc_q_ok, of "length [0xAB, 0x01 :: byte]" "[0xAB, 0x01]" True]
    by (simp_all add: xcp_buf_to_hex_def xcp_buf_to_reverse_hex_def alloc_def malloc_q_def)
qed simp

end
