(* ===== verification/Xcp_Endian.thy ===== *)
theory Xcp_Endian
  imports C_Prelude
begin

text \<open>
  \<^verbatim>\<open>include/xcp-ng/generic/endian.h\<close> on the only byte order it accepts, \<^verbatim>\<open>XCP_LITTLE_ENDIAN\<close>. An
  unsigned integer is a word of its width; a signed one is an \<^typ>\<open>int\<close>, converted with
  \<^const>\<open>word_of_int\<close> and \<^const>\<open>sint\<close>. The \<^verbatim>\<open>_p\<close> functions work on memory, whose bytes an integer
  object has least significant first.
\<close>

unbundle bit_operations_syntax

section \<open>The byte order\<close>

definition XCP_BIG_ENDIAN :: nat where
  "XCP_BIG_ENDIAN = 4321"

definition XCP_LITTLE_ENDIAN :: nat where
  "XCP_LITTLE_ENDIAN = 1234"

text \<open>On the x86 processors that the header accepts.\<close>

definition XCP_BYTE_ORDER :: nat where
  "XCP_BYTE_ORDER = XCP_LITTLE_ENDIAN"

lemma byte_order [simp]:
  "XCP_BYTE_ORDER = XCP_LITTLE_ENDIAN" "XCP_LITTLE_ENDIAN \<noteq> XCP_BIG_ENDIAN"
  by (simp_all add: XCP_BYTE_ORDER_def XCP_LITTLE_ENDIAN_def XCP_BIG_ENDIAN_def)

section \<open>Swapping\<close>

text \<open>The operands of the 16-bit version are promoted to \<^verbatim>\<open>int\<close>, so the shifts lose no bit.\<close>

definition xcp_swap_endian_u16 :: "16 word \<Rightarrow> 16 word" where
  "xcp_swap_endian_u16 src =
     (let x = ucast src :: 32 word in
      ucast ((push_bit 8 (x AND 0x00FF)) OR (drop_bit 8 (x AND 0xFF00))))"

definition xcp_swap_endian_16 :: "int \<Rightarrow> int" where
  "xcp_swap_endian_16 src = sint (xcp_swap_endian_u16 (word_of_int src))"

definition xcp_swap_endian_u32 :: "32 word \<Rightarrow> 32 word" where
  "xcp_swap_endian_u32 src =
     push_bit 24 (src AND 0x000000FF) OR
     push_bit 8 (src AND 0x0000FF00) OR
     drop_bit 8 (src AND 0x00FF0000) OR
     drop_bit 24 (src AND 0xFF000000)"

definition xcp_swap_endian_32 :: "int \<Rightarrow> int" where
  "xcp_swap_endian_32 src = sint (xcp_swap_endian_u32 (word_of_int src))"

definition xcp_swap_endian_u64 :: "64 word \<Rightarrow> 64 word" where
  "xcp_swap_endian_u64 src =
     push_bit 56 (src AND 0x00000000000000FF) OR
     push_bit 40 (src AND 0x000000000000FF00) OR
     push_bit 24 (src AND 0x0000000000FF0000) OR
     push_bit 8 (src AND 0x00000000FF000000) OR
     drop_bit 8 (src AND 0x000000FF00000000) OR
     drop_bit 24 (src AND 0x0000FF0000000000) OR
     drop_bit 40 (src AND 0x00FF000000000000) OR
     drop_bit 56 (src AND 0xFF00000000000000)"

definition xcp_swap_endian_64 :: "int \<Rightarrow> int" where
  "xcp_swap_endian_64 src = sint (xcp_swap_endian_u64 (word_of_int src))"

section \<open>Conversions from and to a byte order\<close>

definition xcp_from_le_u16 :: "16 word \<Rightarrow> 16 word" where
  "xcp_from_le_u16 src =
     (if XCP_BYTE_ORDER = XCP_BIG_ENDIAN then xcp_swap_endian_u16 src else src)"

definition xcp_from_le_16 :: "int \<Rightarrow> int" where
  "xcp_from_le_16 src = sint (xcp_from_le_u16 (word_of_int src))"

definition xcp_from_le_u32 :: "32 word \<Rightarrow> 32 word" where
  "xcp_from_le_u32 src =
     (if XCP_BYTE_ORDER = XCP_BIG_ENDIAN then xcp_swap_endian_u32 src else src)"

definition xcp_from_le_32 :: "int \<Rightarrow> int" where
  "xcp_from_le_32 src = sint (xcp_from_le_u32 (word_of_int src))"

definition xcp_from_le_u64 :: "64 word \<Rightarrow> 64 word" where
  "xcp_from_le_u64 src =
     (if XCP_BYTE_ORDER = XCP_BIG_ENDIAN then xcp_swap_endian_u64 src else src)"

definition xcp_from_le_64 :: "int \<Rightarrow> int" where
  "xcp_from_le_64 src = sint (xcp_from_le_u64 (word_of_int src))"

definition xcp_from_be_u16 :: "16 word \<Rightarrow> 16 word" where
  "xcp_from_be_u16 src =
     (if XCP_BYTE_ORDER = XCP_LITTLE_ENDIAN then xcp_swap_endian_u16 src else src)"

definition xcp_from_be_16 :: "int \<Rightarrow> int" where
  "xcp_from_be_16 src = sint (xcp_from_be_u16 (word_of_int src))"

definition xcp_from_be_u32 :: "32 word \<Rightarrow> 32 word" where
  "xcp_from_be_u32 src =
     (if XCP_BYTE_ORDER = XCP_LITTLE_ENDIAN then xcp_swap_endian_u32 src else src)"

definition xcp_from_be_32 :: "int \<Rightarrow> int" where
  "xcp_from_be_32 src = sint (xcp_from_be_u32 (word_of_int src))"

definition xcp_from_be_u64 :: "64 word \<Rightarrow> 64 word" where
  "xcp_from_be_u64 src =
     (if XCP_BYTE_ORDER = XCP_LITTLE_ENDIAN then xcp_swap_endian_u64 src else src)"

definition xcp_from_be_64 :: "int \<Rightarrow> int" where
  "xcp_from_be_64 src = sint (xcp_from_be_u64 (word_of_int src))"

text \<open>The macros for the other direction are the same functions.\<close>

definition xcp_to_le_u16 :: "16 word \<Rightarrow> 16 word" where
  "xcp_to_le_u16 src = xcp_from_le_u16 src"

definition xcp_to_le_16 :: "int \<Rightarrow> int" where
  "xcp_to_le_16 src = xcp_from_le_16 src"

definition xcp_to_le_u32 :: "32 word \<Rightarrow> 32 word" where
  "xcp_to_le_u32 src = xcp_from_le_u32 src"

definition xcp_to_le_32 :: "int \<Rightarrow> int" where
  "xcp_to_le_32 src = xcp_from_le_32 src"

definition xcp_to_le_u64 :: "64 word \<Rightarrow> 64 word" where
  "xcp_to_le_u64 src = xcp_from_le_u64 src"

definition xcp_to_le_64 :: "int \<Rightarrow> int" where
  "xcp_to_le_64 src = xcp_from_le_64 src"

definition xcp_to_be_u16 :: "16 word \<Rightarrow> 16 word" where
  "xcp_to_be_u16 src = xcp_from_be_u16 src"

definition xcp_to_be_16 :: "int \<Rightarrow> int" where
  "xcp_to_be_16 src = xcp_from_be_16 src"

definition xcp_to_be_u32 :: "32 word \<Rightarrow> 32 word" where
  "xcp_to_be_u32 src = xcp_from_be_u32 src"

definition xcp_to_be_32 :: "int \<Rightarrow> int" where
  "xcp_to_be_32 src = xcp_from_be_32 src"

definition xcp_to_be_u64 :: "64 word \<Rightarrow> 64 word" where
  "xcp_to_be_u64 src = xcp_from_be_u64 src"

definition xcp_to_be_64 :: "int \<Rightarrow> int" where
  "xcp_to_be_64 src = xcp_from_be_64 src"

section \<open>Integers in memory\<close>

definition to_le_bytes :: "nat \<Rightarrow> 'a::len word \<Rightarrow> byte list" where
  "to_le_bytes n x = map (\<lambda>i. ucast (drop_bit (8 * i) x)) [0..<n]"

definition of_le_bytes :: "byte list \<Rightarrow> 'a::len word" where
  "of_le_bytes bs = foldr (\<lambda>b x. ucast b OR push_bit 8 x) bs 0"

text \<open>\<^verbatim>\<open>*src\<close> and \<^verbatim>\<open>*src = x\<close> for a pointer to an integer of \<open>n\<close> bytes; the functions return the new value.\<close>

definition load_int :: "nat \<Rightarrow> nat \<Rightarrow> (nat \<Rightarrow> byte) \<Rightarrow> 'a::len word" where
  "load_int n p m = of_le_bytes (mem_bytes m p n)"

definition store_int :: "nat \<Rightarrow> nat \<Rightarrow> 'a::len word \<Rightarrow> (nat \<Rightarrow> byte) \<Rightarrow> nat \<Rightarrow> byte" where
  "store_int n p x m = mem_store m p (to_le_bytes n x)"

definition in_place :: "nat \<Rightarrow> ('a::len word \<Rightarrow> 'a word) \<Rightarrow> nat \<Rightarrow> (nat \<Rightarrow> byte) \<Rightarrow> 'a word \<times> (nat \<Rightarrow> byte)" where
  "in_place n f p m = (let x = f (load_int n p m) in (x, store_int n p x m))"

definition in_place_signed ::
  "nat \<Rightarrow> 'a::len itself \<Rightarrow> (int \<Rightarrow> int) \<Rightarrow> nat \<Rightarrow> (nat \<Rightarrow> byte) \<Rightarrow> int \<times> (nat \<Rightarrow> byte)" where
  "in_place_signed n t f p m =
     (let x = f (sint (load_int n p m :: 'a word)) in (x, store_int n p (word_of_int x :: 'a word) m))"

definition xcp_from_le_u16_p :: "nat \<Rightarrow> (nat \<Rightarrow> byte) \<Rightarrow> 16 word \<times> (nat \<Rightarrow> byte)" where
  "xcp_from_le_u16_p = in_place 2 xcp_from_le_u16"

definition xcp_from_le_16_p :: "nat \<Rightarrow> (nat \<Rightarrow> byte) \<Rightarrow> int \<times> (nat \<Rightarrow> byte)" where
  "xcp_from_le_16_p = in_place_signed 2 TYPE(16) xcp_from_le_16"

definition xcp_from_le_u32_p :: "nat \<Rightarrow> (nat \<Rightarrow> byte) \<Rightarrow> 32 word \<times> (nat \<Rightarrow> byte)" where
  "xcp_from_le_u32_p = in_place 4 xcp_from_le_u32"

definition xcp_from_le_32_p :: "nat \<Rightarrow> (nat \<Rightarrow> byte) \<Rightarrow> int \<times> (nat \<Rightarrow> byte)" where
  "xcp_from_le_32_p = in_place_signed 4 TYPE(32) xcp_from_le_32"

definition xcp_from_le_u64_p :: "nat \<Rightarrow> (nat \<Rightarrow> byte) \<Rightarrow> 64 word \<times> (nat \<Rightarrow> byte)" where
  "xcp_from_le_u64_p = in_place 8 xcp_from_le_u64"

definition xcp_from_le_64_p :: "nat \<Rightarrow> (nat \<Rightarrow> byte) \<Rightarrow> int \<times> (nat \<Rightarrow> byte)" where
  "xcp_from_le_64_p = in_place_signed 8 TYPE(64) xcp_from_le_64"

definition xcp_from_be_u16_p :: "nat \<Rightarrow> (nat \<Rightarrow> byte) \<Rightarrow> 16 word \<times> (nat \<Rightarrow> byte)" where
  "xcp_from_be_u16_p = in_place 2 xcp_from_be_u16"

definition xcp_from_be_16_p :: "nat \<Rightarrow> (nat \<Rightarrow> byte) \<Rightarrow> int \<times> (nat \<Rightarrow> byte)" where
  "xcp_from_be_16_p = in_place_signed 2 TYPE(16) xcp_from_be_16"

definition xcp_from_be_u32_p :: "nat \<Rightarrow> (nat \<Rightarrow> byte) \<Rightarrow> 32 word \<times> (nat \<Rightarrow> byte)" where
  "xcp_from_be_u32_p = in_place 4 xcp_from_be_u32"

definition xcp_from_be_32_p :: "nat \<Rightarrow> (nat \<Rightarrow> byte) \<Rightarrow> int \<times> (nat \<Rightarrow> byte)" where
  "xcp_from_be_32_p = in_place_signed 4 TYPE(32) xcp_from_be_32"

definition xcp_from_be_u64_p :: "nat \<Rightarrow> (nat \<Rightarrow> byte) \<Rightarrow> 64 word \<times> (nat \<Rightarrow> byte)" where
  "xcp_from_be_u64_p = in_place 8 xcp_from_be_u64"

definition xcp_from_be_64_p :: "nat \<Rightarrow> (nat \<Rightarrow> byte) \<Rightarrow> int \<times> (nat \<Rightarrow> byte)" where
  "xcp_from_be_64_p = in_place_signed 8 TYPE(64) xcp_from_be_64"

text \<open>The macros for the other direction.\<close>

definition xcp_to_le_u16_p :: "nat \<Rightarrow> (nat \<Rightarrow> byte) \<Rightarrow> 16 word \<times> (nat \<Rightarrow> byte)" where
  "xcp_to_le_u16_p src = xcp_from_le_u16_p src"

definition xcp_to_le_16_p :: "nat \<Rightarrow> (nat \<Rightarrow> byte) \<Rightarrow> int \<times> (nat \<Rightarrow> byte)" where
  "xcp_to_le_16_p src = xcp_from_le_16_p src"

definition xcp_to_le_u32_p :: "nat \<Rightarrow> (nat \<Rightarrow> byte) \<Rightarrow> 32 word \<times> (nat \<Rightarrow> byte)" where
  "xcp_to_le_u32_p src = xcp_from_le_u32_p src"

definition xcp_to_le_32_p :: "nat \<Rightarrow> (nat \<Rightarrow> byte) \<Rightarrow> int \<times> (nat \<Rightarrow> byte)" where
  "xcp_to_le_32_p src = xcp_from_le_32_p src"

definition xcp_to_le_u64_p :: "nat \<Rightarrow> (nat \<Rightarrow> byte) \<Rightarrow> 64 word \<times> (nat \<Rightarrow> byte)" where
  "xcp_to_le_u64_p src = xcp_from_le_u64_p src"

definition xcp_to_le_64_p :: "nat \<Rightarrow> (nat \<Rightarrow> byte) \<Rightarrow> int \<times> (nat \<Rightarrow> byte)" where
  "xcp_to_le_64_p src = xcp_from_le_64_p src"

definition xcp_to_be_u16_p :: "nat \<Rightarrow> (nat \<Rightarrow> byte) \<Rightarrow> 16 word \<times> (nat \<Rightarrow> byte)" where
  "xcp_to_be_u16_p src = xcp_from_be_u16_p src"

definition xcp_to_be_16_p :: "nat \<Rightarrow> (nat \<Rightarrow> byte) \<Rightarrow> int \<times> (nat \<Rightarrow> byte)" where
  "xcp_to_be_16_p src = xcp_from_be_16_p src"

definition xcp_to_be_u32_p :: "nat \<Rightarrow> (nat \<Rightarrow> byte) \<Rightarrow> 32 word \<times> (nat \<Rightarrow> byte)" where
  "xcp_to_be_u32_p src = xcp_from_be_u32_p src"

definition xcp_to_be_32_p :: "nat \<Rightarrow> (nat \<Rightarrow> byte) \<Rightarrow> int \<times> (nat \<Rightarrow> byte)" where
  "xcp_to_be_32_p src = xcp_from_be_32_p src"

definition xcp_to_be_u64_p :: "nat \<Rightarrow> (nat \<Rightarrow> byte) \<Rightarrow> 64 word \<times> (nat \<Rightarrow> byte)" where
  "xcp_to_be_u64_p src = xcp_from_be_u64_p src"

definition xcp_to_be_64_p :: "nat \<Rightarrow> (nat \<Rightarrow> byte) \<Rightarrow> int \<times> (nat \<Rightarrow> byte)" where
  "xcp_to_be_64_p src = xcp_from_be_64_p src"

section \<open>Bytes\<close>

lemma length_to_le_bytes [simp]: "length (to_le_bytes n x) = n"
  by (simp add: to_le_bytes_def)

lemma bit_of_le_bytes:
  "bit (of_le_bytes bs :: 'a::len word) i \<longleftrightarrow>
     i < LENGTH('a) \<and> i < 8 * length bs \<and> bit (bs ! (i div 8)) (i mod 8)"
proof (induction bs arbitrary: i)
  case Nil
  then show ?case by (simp add: of_le_bytes_def)
next
  case (Cons b bs)
  have step: "of_le_bytes (b # bs) = (ucast b OR push_bit 8 (of_le_bytes bs) :: 'a word)"
    by (simp add: of_le_bytes_def)
  show ?case
  proof (cases "i < 8")
    case True
    then show ?thesis by (auto simp: step bit_simps)
  next
    case False
    then obtain j where i: "i = j + 8" using le_Suc_ex [of 8 i] by (auto simp: add.commute)
    moreover have "(j + 8) div 8 = Suc (j div 8)" by simp
    ultimately show ?thesis by (auto simp: step bit_simps Cons.IH dest: bit_imp_le_length)
  qed
qed

lemma of_to_le_bytes:
  assumes "LENGTH('a) = 8 * n"
  shows "of_le_bytes (to_le_bytes n x) = (x :: 'a::len word)"
proof (rule bit_word_eqI)
  fix i assume "i < LENGTH('a)"
  moreover from this assms have "i div 8 < n" by auto
  moreover have "8 * (i div 8) + i mod 8 = i" by simp
  ultimately show "bit (of_le_bytes (to_le_bytes n x) :: 'a word) i = bit x i"
    using assms by (simp add: bit_of_le_bytes to_le_bytes_def bit_simps)
qed

lemma to_of_le_bytes:
  assumes "LENGTH('a) = 8 * length bs"
  shows "to_le_bytes (length bs) (of_le_bytes bs :: 'a::len word) = bs"
proof (rule nth_equalityI)
  fix i assume i: "i < length (to_le_bytes (length bs) (of_le_bytes bs :: 'a word))"
  show "to_le_bytes (length bs) (of_le_bytes bs :: 'a word) ! i = bs ! i"
  proof (rule bit_word_eqI)
    fix j assume "j < LENGTH(8)"
    then have "8 * i + j < 8 * length bs" "(8 * i + j) div 8 = i" "(8 * i + j) mod 8 = j" using i by auto
    with i assms \<open>j < LENGTH(8)\<close> show "bit (to_le_bytes (length bs) (of_le_bytes bs :: 'a word) ! i) j = bit (bs ! i) j"
      by (simp add: to_le_bytes_def bit_simps bit_of_le_bytes)
  qed
qed simp

text \<open>The value that a list of bytes has, least or most significant first.\<close>

definition le_value :: "byte list \<Rightarrow> nat" where
  "le_value bs = foldr (\<lambda>b n. unat b + 256 * n) bs 0"

definition be_value :: "byte list \<Rightarrow> nat" where
  "be_value bs = foldl (\<lambda>n b. 256 * n + unat b) 0 bs"

lemma be_value_rev: "be_value bs = le_value (rev bs)"
  by (simp add: be_value_def le_value_def foldr_conv_foldl add.commute)

lemma le_value_less: "le_value bs < 256 ^ length bs"
proof (induction bs)
  case (Cons b bs)
  have "unat b < 256" using unsigned_less [of b, where 'a = nat] by simp
  with Cons show ?case by (simp add: le_value_def)
qed (simp add: le_value_def)

lemma unat_of_le_bytes:
  "8 * length bs \<le> LENGTH('a) \<Longrightarrow> unat (of_le_bytes bs :: 'a::len word) = le_value bs"
proof (induction bs)
  case Nil
  then show ?case by (simp add: of_le_bytes_def le_value_def)
next
  case (Cons b bs)
  let ?x = "of_le_bytes bs :: 'a word"
  have x: "unat ?x = le_value bs" using Cons by simp
  have "(ucast b :: 'a word) AND push_bit 8 ?x = 0"
    by (rule bit_eqI) (auto simp: bit_simps dest: bit_imp_le_length)
  then have sum: "of_le_bytes (b # bs) = (ucast b + push_bit 8 ?x :: 'a word)"
    by (simp add: of_le_bytes_def disjunctive_add_eq_or)
  have b: "unat b < 256" using unsigned_less [of b, where 'a = nat] by simp
  have "le_value (b # bs) < 256 ^ length (b # bs)" by (rule le_value_less)
  also have "\<dots> = 2 ^ (8 * length (b # bs))" by (simp only: power_mult) simp
  also have "\<dots> \<le> 2 ^ LENGTH('a)" using Cons.prems by (intro power_increasing) simp_all
  finally have fits: "unat b + 256 * le_value bs < 2 ^ LENGTH('a)" by (simp add: le_value_def)
  have "unat (ucast b :: 'a word) = unat b"
    using Cons.prems b fits by (simp add: unsigned_ucast_eq take_bit_nat_eq_self_iff)
  moreover have "unat (push_bit 8 ?x) = 256 * le_value bs"
    using fits unfolding unsigned_push_bit_eq x
    by (simp add: push_bit_eq_mult take_bit_nat_eq_self_iff mult.commute)
  ultimately show ?case using fits by (simp add: sum unat_word_ariths le_value_def)
qed

section \<open>A swap reverses the bytes\<close>

text \<open>The masks select one byte each.\<close>

lemma byte_masks:
  "(0xFF :: 'a::len word) = mask 8" "(0xFF00 :: 'a word) = push_bit 8 (mask 8)"
  "(0xFF0000 :: 'a word) = push_bit 16 (mask 8)" "(0xFF000000 :: 'a word) = push_bit 24 (mask 8)"
  "(0xFF00000000 :: 'a word) = push_bit 32 (mask 8)" "(0xFF0000000000 :: 'a word) = push_bit 40 (mask 8)"
  "(0xFF000000000000 :: 'a word) = push_bit 48 (mask 8)"
  "(0xFF00000000000000 :: 'a word) = push_bit 56 (mask 8)"
  by (simp_all add: mask_eq_exp_minus_1 push_bit_eq_mult)

lemma to_le_bytes_numeral [simp]:
  "to_le_bytes 2 x = [ucast x, ucast (drop_bit 8 x)]"
  "to_le_bytes 4 x = [ucast x, ucast (drop_bit 8 x), ucast (drop_bit 16 x), ucast (drop_bit 24 x)]"
  "to_le_bytes 8 x = [ucast x, ucast (drop_bit 8 x), ucast (drop_bit 16 x), ucast (drop_bit 24 x),
     ucast (drop_bit 32 x), ucast (drop_bit 40 x), ucast (drop_bit 48 x), ucast (drop_bit 56 x)]"
  by (simp_all add: to_le_bytes_def upt_rec)

lemma swap_u16_bytes: "to_le_bytes 2 (xcp_swap_endian_u16 x) = rev (to_le_bytes 2 x)"
  unfolding xcp_swap_endian_u16_def byte_masks Let_def
  by (auto intro!: bit_word_eqI simp: bit_simps)

lemma swap_u32_bytes: "to_le_bytes 4 (xcp_swap_endian_u32 x) = rev (to_le_bytes 4 x)"
  unfolding xcp_swap_endian_u32_def byte_masks
  by (auto intro!: bit_word_eqI simp: bit_simps)

lemma swap_u64_bytes: "to_le_bytes 8 (xcp_swap_endian_u64 x) = rev (to_le_bytes 8 x)"
  unfolding xcp_swap_endian_u64_def byte_masks
  by (auto intro!: bit_word_eqI simp: bit_simps)

lemmas swap_bytes = swap_u16_bytes swap_u32_bytes swap_u64_bytes

text \<open>So a swap is reading the bytes in the other order.\<close>

lemma swap_of_bytes:
  "length bs = 2 \<Longrightarrow> xcp_swap_endian_u16 (of_le_bytes bs) = of_le_bytes (rev bs)"
  "length bs = 4 \<Longrightarrow> xcp_swap_endian_u32 (of_le_bytes bs) = of_le_bytes (rev bs)"
  "length bs = 8 \<Longrightarrow> xcp_swap_endian_u64 (of_le_bytes bs) = of_le_bytes (rev bs)"
proof -
  have bytes: "y = of_le_bytes (rev bs)"
    if "to_le_bytes n y = rev (to_le_bytes n (of_le_bytes bs :: 'a word))" "length bs = n" "LENGTH('a) = 8 * n"
    for n and y :: "'a::len word" and bs
    using that of_to_le_bytes [of n y] to_of_le_bytes [of bs, where 'a='a] by simp
  show "length bs = 2 \<Longrightarrow> xcp_swap_endian_u16 (of_le_bytes bs) = of_le_bytes (rev bs)"
    by (rule bytes [OF swap_u16_bytes]) simp_all
  show "length bs = 4 \<Longrightarrow> xcp_swap_endian_u32 (of_le_bytes bs) = of_le_bytes (rev bs)"
    by (rule bytes [OF swap_u32_bytes]) simp_all
  show "length bs = 8 \<Longrightarrow> xcp_swap_endian_u64 (of_le_bytes bs) = of_le_bytes (rev bs)"
    by (rule bytes [OF swap_u64_bytes]) simp_all
qed

lemma swap_swap [simp]:
  "xcp_swap_endian_u16 (xcp_swap_endian_u16 x) = x"
  "xcp_swap_endian_u32 (xcp_swap_endian_u32 y) = y"
  "xcp_swap_endian_u64 (xcp_swap_endian_u64 z) = z"
  using swap_of_bytes(1) [of "to_le_bytes 2 (xcp_swap_endian_u16 x)"] of_to_le_bytes [of 2 x]
    of_to_le_bytes [of 2 "xcp_swap_endian_u16 x"]
    swap_of_bytes(2) [of "to_le_bytes 4 (xcp_swap_endian_u32 y)"] of_to_le_bytes [of 4 y]
    of_to_le_bytes [of 4 "xcp_swap_endian_u32 y"]
    swap_of_bytes(3) [of "to_le_bytes 8 (xcp_swap_endian_u64 z)"] of_to_le_bytes [of 8 z]
    of_to_le_bytes [of 8 "xcp_swap_endian_u64 z"]
  by (simp_all only: swap_bytes rev_rev_ident length_rev length_to_le_bytes len_num1 len_num0 len_bit0)

lemmas endian_defs = xcp_from_le_u16_def xcp_from_le_16_def xcp_from_le_u32_def xcp_from_le_32_def
  xcp_from_le_u64_def xcp_from_le_64_def xcp_from_be_u16_def xcp_from_be_16_def
  xcp_from_be_u32_def xcp_from_be_32_def xcp_from_be_u64_def xcp_from_be_64_def
  xcp_to_le_u16_def xcp_to_le_16_def xcp_to_le_u32_def xcp_to_le_32_def
  xcp_to_le_u64_def xcp_to_le_64_def xcp_to_be_u16_def xcp_to_be_16_def
  xcp_to_be_u32_def xcp_to_be_32_def xcp_to_be_u64_def xcp_to_be_64_def

lemmas endian_p_defs = xcp_from_le_u16_p_def xcp_from_le_16_p_def xcp_from_le_u32_p_def xcp_from_le_32_p_def
  xcp_from_le_u64_p_def xcp_from_le_64_p_def xcp_from_be_u16_p_def xcp_from_be_16_p_def
  xcp_from_be_u32_p_def xcp_from_be_32_p_def xcp_from_be_u64_p_def xcp_from_be_64_p_def

lemmas endian_to_p_defs = xcp_to_le_u16_p_def xcp_to_le_16_p_def xcp_to_le_u32_p_def xcp_to_le_32_p_def
  xcp_to_le_u64_p_def xcp_to_le_64_p_def xcp_to_be_u16_p_def xcp_to_be_16_p_def
  xcp_to_be_u32_p_def xcp_to_be_32_p_def xcp_to_be_u64_p_def xcp_to_be_64_p_def

lemma mem_store_same: "mem_store m p (mem_bytes m p n) = m"
  by (auto simp: mem_store_def fun_eq_iff)

lemma to_of_bytes:
  "length bs = 2 \<Longrightarrow> to_le_bytes 2 (of_le_bytes bs :: 16 word) = bs"
  "length bs = 4 \<Longrightarrow> to_le_bytes 4 (of_le_bytes bs :: 32 word) = bs"
  "length bs = 8 \<Longrightarrow> to_le_bytes 8 (of_le_bytes bs :: 64 word) = bs"
  using to_of_le_bytes [of bs, where 'a=16] to_of_le_bytes [of bs, where 'a=32]
    to_of_le_bytes [of bs, where 'a=64]
  by (simp_all del: to_le_bytes_numeral)

text \<open>The functions that work in place, as changes of the bytes in memory.\<close>

lemma in_place_le:
  "xcp_from_le_u16_p p m = (load_int 2 p m, m)" "xcp_from_le_16_p p m = (sint (load_int 2 p m :: 16 word), m)"
  "xcp_from_le_u32_p p m = (load_int 4 p m, m)" "xcp_from_le_32_p p m = (sint (load_int 4 p m :: 32 word), m)"
  "xcp_from_le_u64_p p m = (load_int 8 p m, m)" "xcp_from_le_64_p p m = (sint (load_int 8 p m :: 64 word), m)"
  by (simp_all add: endian_p_defs in_place_def in_place_signed_def endian_defs Let_def load_int_def store_int_def
      to_of_bytes mem_store_same del: to_le_bytes_numeral)

lemma in_place_be:
  "xcp_from_be_u16_p p m = (xcp_from_be_u16 (load_int 2 p m), mem_store m p (rev (mem_bytes m p 2)))"
  "xcp_from_be_u32_p p m = (xcp_from_be_u32 (load_int 4 p m), mem_store m p (rev (mem_bytes m p 4)))"
  "xcp_from_be_u64_p p m = (xcp_from_be_u64 (load_int 8 p m), mem_store m p (rev (mem_bytes m p 8)))"
  "xcp_from_be_16_p p m = (sint (xcp_from_be_u16 (load_int 2 p m)), mem_store m p (rev (mem_bytes m p 2)))"
  "xcp_from_be_32_p p m = (sint (xcp_from_be_u32 (load_int 4 p m)), mem_store m p (rev (mem_bytes m p 4)))"
  "xcp_from_be_64_p p m = (sint (xcp_from_be_u64 (load_int 8 p m)), mem_store m p (rev (mem_bytes m p 8)))"
  by (simp_all add: endian_p_defs in_place_def in_place_signed_def endian_defs Let_def load_int_def store_int_def
      swap_of_bytes to_of_bytes del: to_le_bytes_numeral)

lemma stored_back: "length bs = n \<Longrightarrow> mem_store (mem_store m p bs) p (mem_bytes m p n) = m"
  by (auto simp: mem_store_def fun_eq_iff)

end
