(* ===== verification/Endian_Properties.thy ===== *)
theory Endian_Properties
  imports Xcp_Endian
begin

text \<open>The properties of \<^verbatim>\<open>include/xcp-ng/generic/endian.h\<close>.\<close>

text \<open>Each swap reverses the bytes of its operand.\<close>
lemma swaps_reverse_bytes:
  "to_le_bytes 2 (xcp_swap_endian_u16 x) = rev (to_le_bytes 2 x) \<and>
   to_le_bytes 4 (xcp_swap_endian_u32 y) = rev (to_le_bytes 4 y) \<and>
   to_le_bytes 8 (xcp_swap_endian_u64 z) = rev (to_le_bytes 8 z)"
  using swap_bytes by blast

text \<open>
  Converting to an order and back from it gives the value again, for both orders and all six
  integer types; for the signed ones on every value of the type.
\<close>
theorem endian_roundtrip:
  "xcp_from_be_u16 (xcp_to_be_u16 x16) = x16 \<and> xcp_from_le_u16 (xcp_to_le_u16 x16) = x16 \<and>
   xcp_from_be_u32 (xcp_to_be_u32 x32) = x32 \<and> xcp_from_le_u32 (xcp_to_le_u32 x32) = x32 \<and>
   xcp_from_be_u64 (xcp_to_be_u64 x64) = x64 \<and> xcp_from_le_u64 (xcp_to_le_u64 x64) = x64 \<and>
   xcp_from_be_16 (xcp_to_be_16 (sint x16)) = sint x16 \<and> xcp_from_le_16 (xcp_to_le_16 (sint x16)) = sint x16 \<and>
   xcp_from_be_32 (xcp_to_be_32 (sint x32)) = sint x32 \<and> xcp_from_le_32 (xcp_to_le_32 (sint x32)) = sint x32 \<and>
   xcp_from_be_64 (xcp_to_be_64 (sint x64)) = sint x64 \<and> xcp_from_le_64 (xcp_to_le_64 (sint x64)) = sint x64"
  by (simp add: endian_defs)

text \<open>
  C31: an integer that was read from memory is, after \<^verbatim>\<open>xcp_from_be_*\<close>, the number whose digits to
  base 256 the bytes in memory are, the first one the most significant; after \<^verbatim>\<open>xcp_from_le_*\<close> the
  first one is the least significant.
\<close>
theorem from_endian_decodes:
  "unat (xcp_from_be_u16 (load_int 2 p m)) = be_value (mem_bytes m p 2) \<and>
   unat (xcp_from_be_u32 (load_int 4 p m)) = be_value (mem_bytes m p 4) \<and>
   unat (xcp_from_be_u64 (load_int 8 p m)) = be_value (mem_bytes m p 8) \<and>
   unat (xcp_from_le_u16 (load_int 2 p m)) = le_value (mem_bytes m p 2) \<and>
   unat (xcp_from_le_u32 (load_int 4 p m)) = le_value (mem_bytes m p 4) \<and>
   unat (xcp_from_le_u64 (load_int 8 p m)) = le_value (mem_bytes m p 8)"
  by (simp add: endian_defs load_int_def swap_of_bytes unat_of_le_bytes be_value_rev)

text \<open>
  The in-place versions return the converted integer and leave it in memory: the big-endian ones
  reverse its bytes there, the little-endian ones change nothing, and no other byte changes.
\<close>
theorem in_place_conversions:
  "xcp_from_be_u16_p p m = (xcp_from_be_u16 (load_int 2 p m), mem_store m p (rev (mem_bytes m p 2))) \<and>
   xcp_from_be_u32_p p m = (xcp_from_be_u32 (load_int 4 p m), mem_store m p (rev (mem_bytes m p 4))) \<and>
   xcp_from_be_u64_p p m = (xcp_from_be_u64 (load_int 8 p m), mem_store m p (rev (mem_bytes m p 8))) \<and>
   xcp_from_be_16_p p m = (sint (xcp_from_be_u16 (load_int 2 p m)), mem_store m p (rev (mem_bytes m p 2))) \<and>
   xcp_from_be_32_p p m = (sint (xcp_from_be_u32 (load_int 4 p m)), mem_store m p (rev (mem_bytes m p 4))) \<and>
   xcp_from_be_64_p p m = (sint (xcp_from_be_u64 (load_int 8 p m)), mem_store m p (rev (mem_bytes m p 8))) \<and>
   xcp_from_le_u16_p p m = (load_int 2 p m, m) \<and> xcp_from_le_16_p p m = (sint (load_int 2 p m :: 16 word), m) \<and>
   xcp_from_le_u32_p p m = (load_int 4 p m, m) \<and> xcp_from_le_32_p p m = (sint (load_int 4 p m :: 32 word), m) \<and>
   xcp_from_le_u64_p p m = (load_int 8 p m, m) \<and> xcp_from_le_64_p p m = (sint (load_int 8 p m :: 64 word), m)"
  by (simp add: in_place_le in_place_be)

text \<open>
  C32: the in-place versions for the other direction leave in memory the bytes of the integer in the
  order asked for, the signed ones as the unsigned ones do; and converting back in place gives the integer
  and restores the memory.
\<close>
theorem in_place_roundtrip:
  "be_value (mem_bytes (snd (xcp_to_be_u16_p p m)) p 2) = unat (load_int 2 p m :: 16 word) \<and>
   be_value (mem_bytes (snd (xcp_to_be_u32_p p m)) p 4) = unat (load_int 4 p m :: 32 word) \<and>
   be_value (mem_bytes (snd (xcp_to_be_u64_p p m)) p 8) = unat (load_int 8 p m :: 64 word) \<and>
   le_value (mem_bytes (snd (xcp_to_le_u16_p p m)) p 2) = unat (load_int 2 p m :: 16 word) \<and>
   le_value (mem_bytes (snd (xcp_to_le_u32_p p m)) p 4) = unat (load_int 4 p m :: 32 word) \<and>
   le_value (mem_bytes (snd (xcp_to_le_u64_p p m)) p 8) = unat (load_int 8 p m :: 64 word) \<and>
   snd (xcp_to_be_16_p p m) = snd (xcp_to_be_u16_p p m) \<and> snd (xcp_to_le_16_p p m) = snd (xcp_to_le_u16_p p m) \<and>
   snd (xcp_to_be_32_p p m) = snd (xcp_to_be_u32_p p m) \<and> snd (xcp_to_le_32_p p m) = snd (xcp_to_le_u32_p p m) \<and>
   snd (xcp_to_be_64_p p m) = snd (xcp_to_be_u64_p p m) \<and> snd (xcp_to_le_64_p p m) = snd (xcp_to_le_u64_p p m) \<and>
   xcp_from_be_u16_p p (snd (xcp_to_be_u16_p p m)) = (load_int 2 p m, m) \<and>
   xcp_from_be_u32_p p (snd (xcp_to_be_u32_p p m)) = (load_int 4 p m, m) \<and>
   xcp_from_be_u64_p p (snd (xcp_to_be_u64_p p m)) = (load_int 8 p m, m) \<and>
   xcp_from_le_u16_p p (snd (xcp_to_le_u16_p p m)) = (load_int 2 p m, m) \<and>
   xcp_from_le_u32_p p (snd (xcp_to_le_u32_p p m)) = (load_int 4 p m, m) \<and>
   xcp_from_le_u64_p p (snd (xcp_to_le_u64_p p m)) = (load_int 8 p m, m)"
proof -
  have bytes: "mem_bytes (mem_store m p (rev (mem_bytes m p n))) p n = rev (mem_bytes m p n)" for n
    using mem_bytes_store [of m p "rev (mem_bytes m p n)"] by simp
  then show ?thesis
    by (simp add: endian_to_p_defs in_place_le in_place_be be_value_rev unat_of_le_bytes load_int_def
        endian_defs swap_of_bytes stored_back)
qed

end
