(* ===== verification/Xcp_File.thy ===== *)
theory Xcp_File
  imports Xcp_IO C_String
begin

text \<open>
  \<^verbatim>\<open>src/file.c\<close>. \<^verbatim>\<open>fclose\<close>, \<^verbatim>\<open>readlink\<close>, \<^verbatim>\<open>stat\<close> and the allocator are parameters. The loop
  of \<^verbatim>\<open>xcp_readlink\<close> also counts the heap blocks it owns, so that leaks are visible.
\<close>

unbundle bit_operations_syntax

section \<open>Functions\<close>

definition xcp_file_close :: "(nat \<Rightarrow> 'k sys \<Rightarrow> int \<times> 'k sys) \<Rightarrow> nat \<Rightarrow> 'k sys \<Rightarrow> (XcpError \<times> 'k sys) option" where
  "xcp_file_close fclose fp \<sigma> =
     do_while (\<lambda>\<sigma>. case fclose fp \<sigma> of (ret, \<sigma>') \<Rightarrow>
       Some (if ret = 0 then Leave XCP_ERR_OK \<sigma>'
             else if errno \<sigma>' = EINTR then Again \<sigma>'
             else Leave XCP_ERR_ERRNO \<sigma>')) \<sigma>"

text \<open>
  \<^verbatim>\<open>readlink (pathname, buf, n)\<close> answers its return value and the bytes it stored at the start of the
  buffer; more than \<open>n\<close> bytes, or more than the buffer holds, would be undefined behaviour.
\<close>

type_synonym 'k readlink_call = "nat \<Rightarrow> 'k sys \<Rightarrow> int \<times> char list \<times> 'k sys"

record link_buf =
  lb_size :: nat
  lb_block :: "char list"
  lb_live :: int

text \<open>
  One evaluation of the loop's condition and, when it holds, of its body: the doubled buffer, or the
  return on a failed \<^verbatim>\<open>realloc\<close>, which leaves the old block to be freed. The loop leaves with what
  \<^verbatim>\<open>readlink\<close> answered, or with \<^const>\<open>None\<close> after that return.
\<close>

definition readlink_body ::
  "'k readlink_call \<Rightarrow> (nat \<Rightarrow> char list \<Rightarrow> char list ptr) \<Rightarrow> link_buf \<times> 'k sys
    \<Rightarrow> (int option, link_buf \<times> 'k sys) flow option" where
  "readlink_body readlink realloc = (\<lambda>(b, \<sigma>).
     case readlink (u64 (int (lb_size b) - 1)) \<sigma> of (ret, bs, \<sigma>') \<Rightarrow>
       do { blk \<leftarrow> blk_copy (lb_block b) 0 bs;
            let b = b\<lparr>lb_block := blk\<rparr>;
            if u64 ret = u64 (int (lb_size b) - 1) then
              let b = b\<lparr>lb_size := usz (2 * lb_size b)\<rparr> in
              (case realloc (lb_size b) (lb_block b) of
                 NULL \<Rightarrow> Some (Leave None (b\<lparr>lb_live := lb_live b - 1\<rparr>, \<sigma>'))
               | Ptr p \<Rightarrow> Some (Again (b\<lparr>lb_block := p\<rparr>, \<sigma>')))
            else Some (Leave (Some ret) (b, \<sigma>')) })"

definition xcp_readlink ::
  "'k readlink_call \<Rightarrow> (nat \<Rightarrow> char list ptr) \<Rightarrow> (nat \<Rightarrow> char list \<Rightarrow> char list ptr) \<Rightarrow> int \<Rightarrow> 'k sys
    \<Rightarrow> (char list ptr \<times> int \<times> 'k sys) option" where
  "xcp_readlink readlink malloc realloc live \<sigma> =
     (case malloc 16 of
        NULL \<Rightarrow> Some (NULL, live, \<sigma>)
      | Ptr buf \<Rightarrow>
          do { (ret, b, \<sigma>') \<leftarrow> do_while (readlink_body readlink realloc)
                 (\<lparr>lb_size = 16, lb_block = buf, lb_live = live + 1\<rparr>, \<sigma>);
               case ret of
                 None \<Rightarrow> Some (NULL, lb_live b, \<sigma>')
               | Some ret \<Rightarrow>
                   if ret = - 1 then Some (NULL, lb_live b - 1, \<sigma>')
                   else do { blk \<leftarrow> blk_write (lb_block b) ret NUL; Some (Ptr blk, lb_live b, \<sigma>') } })"

text \<open>The fields of \<^verbatim>\<open>struct stat\<close> the code reads, and the type bits of \<^verbatim>\<open>st_mode\<close>.\<close>

record stat_buf =
  st_mode :: "32 word"
  st_size :: int

definition S_IFMT :: "32 word" where
  "S_IFMT = 0xF000"

definition S_ISCHR :: "32 word \<Rightarrow> bool" where
  "S_ISCHR m \<longleftrightarrow> m AND S_IFMT = 0x2000"

definition S_ISBLK :: "32 word \<Rightarrow> bool" where
  "S_ISBLK m \<longleftrightarrow> m AND S_IFMT = 0x6000"

definition xcp_file_size ::
  "('k sys \<Rightarrow> int \<times> stat_buf \<times> 'k sys) \<Rightarrow> 'k sys \<Rightarrow> XcpError \<times> 'k sys" where
  "xcp_file_size stat \<sigma> =
     (case stat \<sigma> of (ret, st, \<sigma>') \<Rightarrow>
        if ret < 0 then (XCP_ERR_ERRNO, \<sigma>')
        else if \<not> S_ISCHR (st_mode st) \<and> \<not> S_ISBLK (st_mode st) then (st_size st, \<sigma>')
        else (0, \<sigma>'))"

section \<open>Closing is a retry loop\<close>

interpretation fcl: retry_call "fclose fp" "\<lambda>r. r = 0" "\<lambda>_. XCP_ERR_OK" eintr errno
    "xcp_file_close fclose fp"
  for fclose fp
  by (rule retry_callI [OF xcp_file_close_def]) (auto simp: retry_instance_defs split: prod.splits)

section \<open>Reading a link\<close>

text \<open>
  \<^verbatim>\<open>readlink\<close> on a link whose target is \<open>t\<close>: it fails, or stores the first \<open>n\<close> characters of it.
\<close>

definition link_contract :: "'k readlink_call \<Rightarrow> string \<Rightarrow> bool" where
  "link_contract readlink t \<longleftrightarrow> (\<forall>n \<sigma>. case readlink n \<sigma> of (ret, bs, \<sigma>') \<Rightarrow>
     ret = - 1 \<and> bs = [] \<or> ret = int (min n (length t)) \<and> bs = take n t)"

definition realloc_ok :: "(nat \<Rightarrow> char list \<Rightarrow> char list ptr) \<Rightarrow> bool" where
  "realloc_ok realloc \<longleftrightarrow> (\<forall>n b p. realloc n b = Ptr p \<longrightarrow> length p = n)"

definition link_buf_ok :: "string \<Rightarrow> int \<Rightarrow> link_buf \<Rightarrow> bool" where
  "link_buf_ok t live b \<longleftrightarrow> length (lb_block b) = lb_size b \<and> 16 \<le> lb_size b \<and>
     lb_size b \<le> 2 * (length t + 8) \<and> lb_live b = live + 1"

definition link_done :: "string \<Rightarrow> int \<Rightarrow> int option \<Rightarrow> link_buf \<Rightarrow> bool" where
  "link_done t live ret b \<longleftrightarrow>
     (case ret of
        None \<Rightarrow> lb_live b = live
      | Some ret \<Rightarrow> lb_live b = live + 1 \<and>
          (ret = - 1 \<or> ret = int (length t) \<and> length t < length (lb_block b) \<and> take (length t) (lb_block b) = t))"

text \<open>An answer that fills the buffer is told from a failure and from one that does not.\<close>

lemma link_answer:
  assumes link: "link_contract readlink t" and r: "readlink n \<sigma> = (ret, bs, \<sigma>')" and n: "n < 2 ^ 63"
  obtains (fail) "ret = - 1" "bs = []" "u64 ret \<noteq> n"
    | (full) "n \<le> length t" "bs = take n t" "u64 ret = n"
    | (short) "length t < n" "bs = t" "ret = int (length t)" "u64 ret \<noteq> n"
proof -
  from link r have c: "ret = - 1 \<and> bs = [] \<or> ret = int (min n (length t)) \<and> bs = take n t"
    unfolding link_contract_def by (metis (mono_tags, lifting) case_prod_conv)
  have "u64 (int (min n (length t))) = min n (length t)" using n by (intro u64_of_nat) simp
  moreover have "u64 (- 1) \<noteq> n" using n by (auto simp: u64_def)
  ultimately show thesis using c that by (metis leI min.absorb1 min.absorb2 nless_le order_less_imp_le take_all)
qed

lemma readlink_body_step:
  assumes link: "link_contract readlink t" and re: "realloc_ok realloc" and t: "length t < 2 ^ 61"
    and b: "link_buf_ok t live b"
  shows "(\<exists>ret b' \<sigma>'. readlink_body readlink realloc (b, \<sigma>) = Some (Leave ret (b', \<sigma>')) \<and> link_done t live ret b') \<or>
    (\<exists>b' \<sigma>'. readlink_body readlink realloc (b, \<sigma>) = Some (Again (b', \<sigma>')) \<and> link_buf_ok t live b' \<and>
      lb_size b' = 2 * lb_size b)"
proof -
  let ?n = "lb_size b - 1" and ?s = "2 * lb_size b"
  have big: "lb_size b < 2 ^ 62 + 16" using b t by (simp add: link_buf_ok_def)
  have n: "u64 (int (lb_size b) - 1) = ?n"
    using b big u64_diff [of 1 "lb_size b"] by (simp add: link_buf_ok_def)
  have s: "usz ?s = ?s" using big by (simp add: usz_id)
  obtain ret bs \<sigma>' where r: "readlink ?n \<sigma> = (ret, bs, \<sigma>')" by (cases "readlink ?n \<sigma>") auto
  have "?n < 2 ^ 63" using big by simp
  from link r this show ?thesis
  proof (cases rule: link_answer)
    case full
    then show ?thesis
    proof (cases "realloc ?s (bs @ drop (length bs) (lb_block b))")
      case NULL
      with full r n s b show ?thesis
        by (simp add: readlink_body_def blk_copy_def link_done_def link_buf_ok_def Let_def)
    next
      case (Ptr p)
      then have "length p = ?s" using re by (simp add: realloc_ok_def)
      with Ptr full r n s b show ?thesis
        by (simp add: readlink_body_def blk_copy_def link_buf_ok_def Let_def)
    qed
  qed (use r n b in \<open>auto simp: readlink_body_def blk_copy_def link_done_def link_buf_ok_def Let_def\<close>)
qed

lemma readlink_loop_ok:
  fixes \<sigma> :: "'k sys"
  assumes "link_contract readlink t" and "realloc_ok realloc" and "length t < 2 ^ 61" and "link_buf_ok t live b"
  shows "\<exists>ret b' \<sigma>'. do_while (readlink_body readlink realloc) (b, \<sigma>) = Some (ret, b', \<sigma>') \<and> link_done t live ret b'"
proof -
  have "\<exists>ret s'. do_while (readlink_body readlink realloc) (b, \<sigma>) = Some (ret, s') \<and> link_done t live ret (fst s')"
  proof (rule do_while_total [where I = "\<lambda>s. link_buf_ok t live (fst s)"
        and \<mu> = "\<lambda>s. 2 * (length t + 8) - lb_size (fst s)"])
    show "link_buf_ok t live (fst (b, \<sigma>))" using assms(4) by simp
  next
    fix s :: "link_buf \<times> 'k sys" assume I: "link_buf_ok t live (fst s)"
    obtain c \<tau> where s: "s = (c, \<tau>)" by (cases s) auto
    from readlink_body_step [OF assms(1-3), of live c \<tau>] I s
    consider ret b' \<sigma>' where "readlink_body readlink realloc s = Some (Leave ret (b', \<sigma>'))" "link_done t live ret b'"
      | b' \<sigma>' where "readlink_body readlink realloc s = Some (Again (b', \<sigma>'))" "link_buf_ok t live b'"
        "lb_size b' = 2 * lb_size c" by auto
    then show "(\<exists>r s'. readlink_body readlink realloc s = Some (Leave r s') \<and> link_done t live r (fst s')) \<or>
        (\<exists>s'. readlink_body readlink realloc s = Some (Again s') \<and> link_buf_ok t live (fst s') \<and>
          2 * (length t + 8) - lb_size (fst s') < 2 * (length t + 8) - lb_size (fst s))"
    proof cases
      case 1
      then show ?thesis by auto
    next
      case 2
      have "2 * (length t + 8) - lb_size b' < 2 * (length t + 8) - lb_size c"
        using 2(2,3) I s by (auto simp: link_buf_ok_def)
      with 2 s show ?thesis by auto
    qed
  qed
  then show ?thesis by auto
qed

lemma readlink_completes:
  assumes "link_contract readlink t" and "malloc_ok malloc" and "realloc_ok realloc" and "length t < 2 ^ 61"
  shows "\<exists>p live' \<sigma>'. xcp_readlink readlink malloc realloc live \<sigma> = Some (p, live', \<sigma>') \<and>
    (p = NULL \<and> live' = live \<or> (\<exists>r. p = Ptr (t @ NUL # r)) \<and> live' = live + 1)"
proof (cases "malloc 16")
  case NULL
  then show ?thesis by (simp add: xcp_readlink_def)
next
  case (Ptr buf)
  let ?b = "\<lparr>lb_size = 16, lb_block = buf, lb_live = live + 1\<rparr>"
  have "link_buf_ok t live ?b" using Ptr assms(2) by (simp add: link_buf_ok_def malloc_ok_def)
  from readlink_loop_ok [OF assms(1,3,4) this, of \<sigma>] obtain ret b' \<sigma>'
    where loop: "do_while (readlink_body readlink realloc) (?b, \<sigma>) = Some (ret, b', \<sigma>')"
      and d: "link_done t live ret b'" by blast
  show ?thesis
  proof (cases "ret = None \<or> ret = Some (- 1)")
    case True
    with loop d Ptr show ?thesis by (auto simp: xcp_readlink_def link_done_def)
  next
    case False
    with d have r: "ret = Some (int (length t))" "length t < length (lb_block b')"
        "take (length t) (lb_block b') = t" "lb_live b' = live + 1"
      by (auto simp: link_done_def split: option.splits)
    then have "lb_block b' = t @ drop (length t) (lb_block b')" by (metis append_take_drop_id)
    moreover from r(2) obtain c q where q: "drop (length t) (lb_block b') = c # q"
      by (cases "drop (length t) (lb_block b')") auto
    ultimately have blk: "lb_block b' = t @ c # q" by simp
    have "blk_write (t @ c # q) (int (length t)) NUL = Some (t @ NUL # q)"
      by (simp add: blk_write_def list_update_append)
    with loop Ptr r(1,4) blk show ?thesis by (simp add: xcp_readlink_def)
  qed
qed

end
