(* ===== verification/File_Properties.thy ===== *)
theory File_Properties
  imports Xcp_File
begin

text \<open>The properties of \<^verbatim>\<open>src/file.c\<close>.\<close>

text \<open>A link for the witnesses, and an allocator that succeeds.\<close>

definition some_link :: "string \<Rightarrow> unit readlink_call" where
  "some_link t n \<sigma> = (int (min n (length t)), take n t, \<sigma>)"

lemma some_link_contract: "link_contract (some_link t) t"
  by (simp add: link_contract_def some_link_def)

definition malloc_y :: "nat \<Rightarrow> char list ptr" where
  "malloc_y n = Ptr (replicate n (CHR ''y''))"

definition realloc_y :: "nat \<Rightarrow> char list \<Rightarrow> char list ptr" where
  "realloc_y n b = Ptr (take n b @ replicate (n - length b) (CHR ''y''))"

lemma malloc_y_ok: "malloc_ok malloc_y"
  by (auto simp: malloc_ok_def malloc_y_def)

lemma realloc_y_ok: "realloc_ok realloc_y"
  by (auto simp: realloc_ok_def realloc_y_def)

definition file_start :: "unit sys" where
  "file_start = \<lparr>errno = 0, mem = (\<lambda>_. 0), kern = ()\<rparr>"

text \<open>
  C16: \<^verbatim>\<open>xcp_readlink\<close> always returns: a new block with the whole target of the link, terminated and
  never cut, however long it is, or \<^verbatim>\<open>NULL\<close>; it keeps exactly the block it returns and no access is
  outside a block.
\<close>
theorem readlink_is_complete:
  assumes "link_contract readlink t" and "malloc_ok malloc" and "realloc_ok realloc" and "length t < 2 ^ 61"
  shows "\<exists>p live' \<sigma>'. xcp_readlink readlink malloc realloc live \<sigma> = Some (p, live', \<sigma>') \<and>
    (p = NULL \<and> live' = live \<or> (\<exists>r. p = Ptr (t @ NUL # r)) \<and> live' = live + 1)"
  by (rule readlink_completes [OF assms])

lemma readlink_is_complete_witness:
  "\<exists>p live' \<sigma>'. xcp_readlink (some_link ''/usr/lib/libsomething.so.1.2.3'') malloc_y realloc_y 0 file_start = Some (p, live', \<sigma>') \<and>
    (p = NULL \<and> live' = 0 \<or> (\<exists>r. p = Ptr (''/usr/lib/libsomething.so.1.2.3'' @ NUL # r)) \<and> live' = 0 + 1)"
  by (rule readlink_is_complete [OF some_link_contract malloc_y_ok realloc_y_ok]) simp

text \<open>
  \<^verbatim>\<open>xcp_file_size\<close> is the size \<^verbatim>\<open>stat\<close> reports, unless the file is a character or block device,
  for which it is 0 whatever \<^verbatim>\<open>stat\<close> reports; it fails exactly when \<^verbatim>\<open>stat\<close> does.
\<close>
lemma file_size_result:
  assumes "stat \<sigma> = (ret, st, \<sigma>')" and "0 \<le> st_size st"
  shows "xcp_file_size stat \<sigma> =
      (if ret < 0 then XCP_ERR_ERRNO
       else if take_bit 4 (drop_bit 12 (st_mode st)) \<in> {2, 6} then 0 else st_size st, \<sigma>') \<and>
    (fst (xcp_file_size stat \<sigma>) < 0 \<longleftrightarrow> ret < 0)"
proof -
  have bits: "m AND 0xF000 = push_bit 12 (take_bit 4 (drop_bit 12 m))" for m :: "32 word"
  proof -
    have nibble: "(0xF000 :: 32 word) = push_bit 12 (mask 4)"
      by (simp add: mask_eq_exp_minus_1 push_bit_eq_mult)
    show ?thesis unfolding nibble by (auto intro!: bit_word_eqI simp: bit_simps)
  qed
  have inj: "push_bit 12 (take_bit 4 x) = push_bit 12 y \<longleftrightarrow> take_bit 4 x = y"
    if "take_bit 4 y = y" for x y :: "32 word"
  proof
    assume eq: "push_bit 12 (take_bit 4 x) = push_bit 12 y"
    show "take_bit 4 x = y"
    proof (rule bit_word_eqI)
      fix n assume n: "n < LENGTH(32)"
      have "bit y n \<Longrightarrow> n < 4" using that by (metis bit_take_bit_iff)
      moreover have "n < 4 \<Longrightarrow> bit (push_bit 12 (take_bit 4 x)) (n + 12) = bit (push_bit 12 y) (n + 12)"
        using eq by simp
      ultimately show "bit (take_bit 4 x) n = bit y n" by (auto simp: bit_simps)
    qed
  qed simp
  have two: "take_bit 4 (2 :: 32 word) = 2" "push_bit 12 (2 :: 32 word) = 0x2000"
    "take_bit 4 (6 :: 32 word) = 6" "push_bit 12 (6 :: 32 word) = 0x6000"
    by (simp_all add: push_bit_eq_mult)
  have "S_ISCHR (st_mode st) \<longleftrightarrow> take_bit 4 (drop_bit 12 (st_mode st)) = 2"
    "S_ISBLK (st_mode st) \<longleftrightarrow> take_bit 4 (drop_bit 12 (st_mode st)) = 6"
    using inj [OF two(1)] inj [OF two(3)] by (simp_all only: S_ISCHR_def S_ISBLK_def S_IFMT_def bits two)
  with assms show ?thesis by (simp add: xcp_file_size_def XCP_ERR_ERRNO_def)
qed

definition dev_stat :: "unit sys \<Rightarrow> int \<times> stat_buf \<times> unit sys" where
  "dev_stat \<sigma> = (0, \<lparr>st_mode = 0x21B6, st_size = 4096\<rparr>, \<sigma>)"

lemma file_size_result_witness:
  "xcp_file_size dev_stat file_start = (0, file_start) \<and> \<not> fst (xcp_file_size dev_stat file_start) < 0"
  using file_size_result [of dev_stat file_start 0 "\<lparr>st_mode = 0x21B6, st_size = 4096\<rparr>" file_start]
  by (simp add: dev_stat_def)

text \<open>
  \<^verbatim>\<open>fclose\<close> as documented: the stream is gone after the call whether it failed or not, and a call on
  a stream that is gone is undefined, which \<open>misused\<close> records.
\<close>

definition fclose_contract ::
  "(nat \<Rightarrow> 'k sys \<Rightarrow> int \<times> 'k sys) \<Rightarrow> ('k \<Rightarrow> nat set) \<Rightarrow> ('k \<Rightarrow> bool) \<Rightarrow> bool" where
  "fclose_contract fclose streams misused \<longleftrightarrow> (\<forall>fp \<sigma>.
     fp \<notin> streams (kern (snd (fclose fp \<sigma>))) \<and>
     (fp \<notin> streams (kern \<sigma>) \<or> misused (kern \<sigma>) \<longrightarrow> misused (kern (snd (fclose fp \<sigma>)))))"

lemma misused_after_calls:
  "fclose_contract fclose streams misused \<Longrightarrow> misused (kern \<sigma>) \<Longrightarrow> misused (kern (after_calls (fclose fp) n \<sigma>))"
  by (induction n arbitrary: \<sigma>) (simp_all add: fclose_contract_def)

text \<open>
  An \<^verbatim>\<open>xcp_file_close\<close> whose first \<^verbatim>\<open>fclose\<close> is interrupted closes a stream that no longer
  exists, if it returns.
\<close>
lemma file_close_misuses_stream:
  assumes "fclose_contract fclose streams misused"
    and "fst (fclose fp \<sigma>) \<noteq> 0" and "errno (snd (fclose fp \<sigma>)) = EINTR"
    and "xcp_file_close fclose fp \<sigma> = Some (r, \<sigma>')"
  shows "misused (kern \<sigma>')"
proof -
  let ?t = "snd (fclose fp \<sigma>)"
  have "fcl.interrupted fclose fp \<sigma>" using assms(2,3) by (simp add: fcl.interrupted_def eintr_def)
  then have "xcp_file_close fclose fp ?t = Some (r, \<sigma>')" using assms(4) by (simp add: fcl.is_interrupted)
  then obtain n where "\<sigma>' = after_calls (fclose fp) (Suc n) ?t" unfolding fcl.returns_iff by blast
  moreover have "misused (kern (snd (fclose fp ?t)))" using assms(1) by (simp add: fclose_contract_def)
  ultimately show ?thesis using misused_after_calls [OF assms(1)] by simp
qed

text \<open>A stream table whose first close is interrupted: open streams, misuse, calls so far.\<close>

definition fclose_once :: "nat \<Rightarrow> (nat set \<times> bool \<times> nat) sys \<Rightarrow> int \<times> (nat set \<times> bool \<times> nat) sys" where
  "fclose_once fp \<sigma> =
     (case kern \<sigma> of (open_fps, bad, n) \<Rightarrow>
        (if n = 0 then - 1 else 0,
         \<sigma>\<lparr>errno := EINTR, kern := (open_fps - {fp}, bad \<or> fp \<notin> open_fps, n + 1)\<rparr>))"

lemma file_close_misuses_stream_witness:
  "\<exists>r \<sigma>'. xcp_file_close fclose_once 3 \<lparr>errno = 0, mem = (\<lambda>_. 0), kern = ({3}, False, 0)\<rparr> = Some (r, \<sigma>') \<and>
    fst (snd (kern \<sigma>'))"
proof -
  let ?s = "\<lparr>errno = 0, mem = (\<lambda>_. 0), kern = ({3}, False, 0)\<rparr>"
  have "\<exists>r \<sigma>'. xcp_file_close fclose_once 3 ?s = Some (r, \<sigma>')"
    by (simp add: xcp_file_close_def do_while.simps fclose_once_def)
  then obtain r \<sigma>' where run: "xcp_file_close fclose_once 3 ?s = Some (r, \<sigma>')" by blast
  have "fclose_contract fclose_once fst (\<lambda>k. fst (snd k))"
    by (auto simp: fclose_contract_def fclose_once_def split: prod.splits)
  from file_close_misuses_stream [OF this _ _ run] run show ?thesis by (auto simp: fclose_once_def)
qed

end
