(* ===== verification/Xcp_Network.thy ===== *)
theory Xcp_Network
  imports Fd_Transfer Xcp_Endian
begin

text \<open>
  \<^verbatim>\<open>src/network.c\<close>. \<^verbatim>\<open>connect\<close> and \<^verbatim>\<open>sendmsg\<close> are parameters; a message has the fields the code
  sets, its control buffer being the one header the \<^verbatim>\<open>CMSG\<close> macros lay out in it.
\<close>

section \<open>Functions\<close>

text \<open>An address is the bytes that \<^verbatim>\<open>addr\<close> and \<^verbatim>\<open>addrlen\<close> describe.\<close>

definition xcp_sock_connect ::
  "(int \<Rightarrow> byte list \<Rightarrow> 'k sys \<Rightarrow> int \<times> 'k sys) \<Rightarrow> int \<Rightarrow> byte list \<Rightarrow> 'k sys \<Rightarrow> (XcpError \<times> 'k sys) option" where
  "xcp_sock_connect connect sock addr \<sigma> =
     do_while (\<lambda>\<sigma>. case connect sock addr \<sigma> of (ret, \<sigma>') \<Rightarrow>
       Some (if ret \<ge> 0 then Leave ret \<sigma>'
             else if errno \<sigma>' = EINTR then Again \<sigma>'
             else Leave XCP_ERR_ERRNO \<sigma>')) \<sigma>"

definition SOL_SOCKET :: int where
  "SOL_SOCKET = 1"

definition SCM_RIGHTS :: int where
  "SCM_RIGHTS = 1"

text \<open>On LP64 a header has 16 bytes, so \<^verbatim>\<open>CMSG_LEN (4)\<close> is 20 and \<^verbatim>\<open>CMSG_SPACE (4)\<close> is 24.\<close>

record cmsghdr =
  cmsg_len :: nat
  cmsg_level :: int
  cmsg_type :: int
  cmsg_data :: "byte list"

record msghdr =
  msg_name :: "byte list"
  msg_iov :: "iovec list"
  msg_control :: cmsghdr
  msg_controllen :: nat

definition shared_fd_msg :: "nat \<Rightarrow> nat \<Rightarrow> int \<Rightarrow> msghdr" where
  "shared_fd_msg buf count sharedFd =
     \<lparr>msg_name = [],
      msg_iov = [(buf, count)],
      msg_control =
        \<lparr>cmsg_len = 20, cmsg_level = SOL_SOCKET, cmsg_type = SCM_RIGHTS,
         cmsg_data = to_le_bytes 4 (word_of_int sharedFd :: 32 word)\<rparr>,
      msg_controllen = 24\<rparr>"

type_synonym 'k msg_call = "int \<Rightarrow> msghdr \<Rightarrow> int \<Rightarrow> 'k sys \<Rightarrow> int \<times> 'k sys"

text \<open>\<^verbatim>\<open>ret >= (ssize_t)count\<close> compares signed numbers; the rest of the buffer goes out with \<^verbatim>\<open>write\<close>.\<close>

definition send_body ::
  "'k msg_call \<Rightarrow> 'k buf_call \<Rightarrow> int \<Rightarrow> nat \<Rightarrow> nat \<Rightarrow> int \<Rightarrow> 'k sys \<Rightarrow> (XcpError, 'k sys) flow option" where
  "send_body sendmsg write sock buf count sharedFd \<sigma> =
     (case sendmsg sock (shared_fd_msg buf count sharedFd) 0 \<sigma> of (ret, \<sigma>') \<Rightarrow>
        if ret \<ge> 0 then
          if ret \<ge> s64 (int count) then Some (Leave XCP_ERR_OK \<sigma>')
          else
            (case xcp_fd_write_all write sock (buf + nat ret) (u64 (int count - ret)) (Ptr 0) \<sigma>' of
               None \<Rightarrow> None
             | Some (r, offset, \<sigma>'') \<Rightarrow> Some (Leave r \<sigma>''))
        else if errno \<sigma>' = EAGAIN \<or> errno \<sigma>' = EWOULDBLOCK \<or> errno \<sigma>' = EINTR then Some (Again \<sigma>')
        else Some (Leave XCP_ERR_ERRNO \<sigma>'))"

definition xcp_sock_send_shared_fd ::
  "'k msg_call \<Rightarrow> 'k buf_call \<Rightarrow> int \<Rightarrow> nat \<Rightarrow> nat \<Rightarrow> int \<Rightarrow> 'k sys \<Rightarrow> (XcpError \<times> 'k sys) option" where
  "xcp_sock_send_shared_fd sendmsg write sock buf count sharedFd \<sigma> =
     do_while (send_body sendmsg write sock buf count sharedFd) \<sigma>"

section \<open>Connecting is a retry loop\<close>

interpretation con: retry_call "connect sock addr" "\<lambda>r. r \<ge> 0" "\<lambda>r. r" eintr errno
    "xcp_sock_connect connect sock addr"
  for connect sock addr
  by (rule retry_callI [OF xcp_sock_connect_def]) (auto simp: retry_instance_defs split: prod.splits)

section \<open>Sending a descriptor\<close>

text \<open>
  \<^verbatim>\<open>sendmsg\<close> as documented: it fails without an effect, or sends a prefix of the one buffer. The
  control message goes with the data: it is passed when a byte is sent, and need not be when none
  is (unix(7): at least one byte of real data is needed to pass ancillary data over a stream
  socket). \<open>passed\<close> are the control messages the peer has been sent.
\<close>

definition sendmsg_contract ::
  "'k msg_call \<Rightarrow> int \<Rightarrow> ('k \<Rightarrow> byte list) \<Rightarrow> ('k \<Rightarrow> cmsghdr list) \<Rightarrow> bool" where
  "sendmsg_contract sendmsg sock sent passed \<longleftrightarrow> (\<forall>a n c \<sigma>.
     let m = \<lparr>msg_name = [], msg_iov = [(a, n)], msg_control = c, msg_controllen = 24\<rparr>;
         (r, \<sigma>') = sendmsg sock m 0 \<sigma>
     in mem \<sigma>' = mem \<sigma> \<and>
        (if r < 0 then sent (kern \<sigma>') = sent (kern \<sigma>) \<and> passed (kern \<sigma>') = passed (kern \<sigma>)
         else nat r \<le> n \<and> sent (kern \<sigma>') = sent (kern \<sigma>) @ mem_bytes (mem \<sigma>) a (nat r) \<and>
           (passed (kern \<sigma>') = passed (kern \<sigma>) @ [c] \<or>
            r = 0 \<and> passed (kern \<sigma>') = passed (kern \<sigma>))))"

text \<open>\<^verbatim>\<open>write\<close> sends no control message.\<close>

definition write_passes_nothing :: "'k buf_call \<Rightarrow> int \<Rightarrow> ('k \<Rightarrow> cmsghdr list) \<Rightarrow> bool" where
  "write_passes_nothing write fd passed \<longleftrightarrow>
     (\<forall>a n \<sigma>. passed (kern (snd (write fd a n \<sigma>))) = passed (kern \<sigma>))"

lemma write_all_passes_nothing:
  fixes \<sigma> :: "'k sys"
  assumes pn: "write_passes_nothing write fd passed"
    and run: "xcp_fd_write_all write fd buf count off \<sigma> = Some (r, o', \<sigma>')"
  shows "passed (kern \<sigma>') = passed (kern \<sigma>)"
proof -
  have one: "passed (kern \<tau>') = passed (kern \<tau>)" if "xcp_fd_write write fd a n \<tau> = Some (q, \<tau>')" for a n q and \<tau> \<tau>' :: "'k sys"
  proof (rule do_while_partial [OF that [unfolded xcp_fd_write_def],
        where I = "\<lambda>\<upsilon>. passed (kern \<upsilon>) = passed (kern \<tau>)" and Q = "\<lambda>_ \<upsilon>. passed (kern \<upsilon>) = passed (kern \<tau>)"])
    have call: "passed (kern (snd (write fd a n \<upsilon>))) = passed (kern \<upsilon>)" for \<upsilon> :: "'k sys"
      using pn by (simp add: write_passes_nothing_def)
    fix \<upsilon> \<upsilon>' :: "'k sys" assume "passed (kern \<upsilon>) = passed (kern \<tau>)"
    with call [of \<upsilon>]
    show "passed (kern \<upsilon>') = passed (kern \<tau>)"
      if "(case write fd a n \<upsilon> of (ret, \<sigma>') \<Rightarrow> Some (if 0 \<le> ret then Leave ret \<sigma>'
          else if errno \<sigma>' = EAGAIN \<or> errno \<sigma>' = EWOULDBLOCK \<or> errno \<sigma>' = EINTR then Again \<sigma>'
          else Leave XCP_ERR_ERRNO \<sigma>')) = Some (Again \<upsilon>')"
      using that by (auto split: prod.splits if_splits)
    show "passed (kern \<upsilon>') = passed (kern \<tau>)"
      if "(case write fd a n \<upsilon> of (ret, \<sigma>') \<Rightarrow> Some (if 0 \<le> ret then Leave ret \<sigma>'
          else if errno \<sigma>' = EAGAIN \<or> errno \<sigma>' = EWOULDBLOCK \<or> errno \<sigma>' = EINTR then Again \<sigma>'
          else Leave XCP_ERR_ERRNO \<sigma>')) = Some (Leave r' \<upsilon>')" for r'
      using that call [of \<upsilon>] \<open>passed (kern \<upsilon>) = passed (kern \<tau>)\<close> by (auto split: prod.splits if_splits)
  qed simp
  from run obtain failed pos where
    "do_while (write_all_body (\<lambda>a n. xcp_fd_write write fd a n) buf count) (0, \<sigma>) = Some (failed, pos, \<sigma>')"
    by (auto simp: xcp_fd_write_all_def write_all_loop_def split: option.splits)
  then have "passed (kern (snd (pos, \<sigma>'))) = passed (kern \<sigma>)"
    by (rule do_while_partial [where I = "\<lambda>(_, \<upsilon>). passed (kern \<upsilon>) = passed (kern \<sigma>)"
        and Q = "\<lambda>_ t. passed (kern (snd t)) = passed (kern \<sigma>)"])
      (auto simp: write_all_body_def Let_def split: option.splits if_splits, (metis one)+)
  then show ?thesis by simp
qed

text \<open>The first \<^verbatim>\<open>sendmsg\<close> that does not fail transiently, if it sends no byte of the buffer.\<close>

definition takes_nothing :: "'k msg_call \<Rightarrow> int \<Rightarrow> nat \<Rightarrow> nat \<Rightarrow> int \<Rightarrow> 'k sys \<Rightarrow> bool" where
  "takes_nothing sendmsg sock buf count sharedFd \<sigma> \<longleftrightarrow>
     (\<exists>\<tau>. first_settled (sendmsg sock (shared_fd_msg buf count sharedFd) 0) transient_failure \<sigma> = Some (0, \<tau>))"

text \<open>
  Sending does not end when \<^verbatim>\<open>sendmsg\<close> fails transiently for ever, or when it takes a part of the
  buffer and writing the rest stalls.
\<close>

definition send_stalls ::
  "'k msg_call \<Rightarrow> 'k buf_call \<Rightarrow> int \<Rightarrow> nat \<Rightarrow> nat \<Rightarrow> int \<Rightarrow> 'k sys \<Rightarrow> bool" where
  "send_stalls sendmsg write sock buf count sharedFd \<sigma> \<longleftrightarrow>
     (case first_settled (sendmsg sock (shared_fd_msg buf count sharedFd) 0) transient_failure \<sigma> of
        None \<Rightarrow> True
      | Some (k, \<tau>) \<Rightarrow> 0 \<le> k \<and> k < int count \<and> write_all_stalls write sock (buf + nat k) (count - nat k) \<tau>)"

text \<open>What has been sent when the function returns.\<close>

definition send_result ::
  "('k \<Rightarrow> byte list) \<Rightarrow> ('k \<Rightarrow> cmsghdr list) \<Rightarrow> bool \<Rightarrow> nat \<Rightarrow> nat \<Rightarrow> int \<Rightarrow> 'k sys \<Rightarrow> XcpError \<Rightarrow> 'k sys \<Rightarrow> bool" where
  "send_result sent passed nothing buf count sharedFd \<sigma> r \<sigma>' \<longleftrightarrow>
     mem \<sigma>' = mem \<sigma> \<and>
     (\<exists>n \<le> count. sent (kern \<sigma>') = sent (kern \<sigma>) @ mem_bytes (mem \<sigma>) buf n \<and>
       (r = XCP_ERR_ERRNO \<or> 0 \<le> r \<and> n = count \<and>
         (passed (kern \<sigma>') = passed (kern \<sigma>) @ [msg_control (shared_fd_msg buf count sharedFd)] \<or>
          nothing \<and> passed (kern \<sigma>') = passed (kern \<sigma>))))"

lemma sendmsg_answers:
  assumes sm: "sendmsg_contract sendmsg sock sent passed"
    and k: "sendmsg sock (shared_fd_msg buf count sharedFd) 0 \<tau> = (k, \<tau>')"
  shows "mem \<tau>' = mem \<tau>"
    "k < 0 \<Longrightarrow> sent (kern \<tau>') = sent (kern \<tau>) \<and> passed (kern \<tau>') = passed (kern \<tau>)"
    "0 \<le> k \<Longrightarrow> nat k \<le> count \<and> sent (kern \<tau>') = sent (kern \<tau>) @ mem_bytes (mem \<tau>) buf (nat k) \<and>
       (passed (kern \<tau>') = passed (kern \<tau>) @ [msg_control (shared_fd_msg buf count sharedFd)] \<or>
        k = 0 \<and> passed (kern \<tau>') = passed (kern \<tau>))"
  using sm [unfolded sendmsg_contract_def, rule_format, of buf count "msg_control (shared_fd_msg buf count sharedFd)" \<tau>] k
  by (auto simp: shared_fd_msg_def Let_def split: if_splits)

text \<open>The rest of the buffer, after \<^verbatim>\<open>sendmsg\<close> has sent \<open>k\<close> bytes of it.\<close>

lemma send_rest:
  fixes \<tau>' :: "'k sys"
  assumes wc: "write_contract write sock sent" and wp: "write_passes_nothing write sock passed"
    and count: "count < 2 ^ 63" and k: "k < count" and mem: "mem \<tau>' = mem \<sigma>"
    and sent: "sent (kern \<tau>') = sent (kern \<sigma>) @ mem_bytes (mem \<sigma>) buf k"
    and passed: "passed (kern \<tau>') = passed (kern \<sigma>) @ [msg_control (shared_fd_msg buf count sharedFd)] \<or>
      nothing \<and> passed (kern \<tau>') = passed (kern \<sigma>)"
    and w: "xcp_fd_write_all write sock (buf + k) (count - k) (Ptr 0) \<tau>' = Some (r, off, \<upsilon>)"
  shows "send_result sent passed nothing buf count sharedFd \<sigma> r \<upsilon>"
proof -
  have "count - k < 2 ^ 63" using count by linarith
  from posix_sink.write_all_accepted [OF posix_sink.intro [OF wc] this w]
  obtain j where j: "j \<le> count - k" "mem \<upsilon> = mem \<tau>'" "sent (kern \<upsilon>) = sent (kern \<tau>') @ mem_bytes (mem \<tau>') (buf + k) j"
      "r = XCP_ERR_ERRNO \<or> r = int (count - k) \<and> j = count - k"
    by blast
  have "sent (kern \<upsilon>) = sent (kern \<sigma>) @ mem_bytes (mem \<sigma>) buf (k + j)"
    using j(3) sent mem by (simp add: mem_bytes_add)
  moreover have "passed (kern \<upsilon>) = passed (kern \<tau>')" by (rule write_all_passes_nothing [OF wp w])
  moreover have "k + j \<le> count" "r \<noteq> XCP_ERR_ERRNO \<Longrightarrow> k + j = count \<and> 0 \<le> r"
    using j(1,4) k by linarith+
  ultimately show ?thesis
    using j(2) mem passed unfolding send_result_def by metis
qed

text \<open>The loop skips the transient failures of \<^verbatim>\<open>sendmsg\<close>, which change nothing.\<close>

lemma send_skips:
  assumes sm: "sendmsg_contract sendmsg sock sent passed"
    and c: "first_settled (sendmsg sock (shared_fd_msg buf count sharedFd) 0) transient_failure \<sigma> = Some c"
  shows "\<exists>\<tau>. goes_round (send_body sendmsg write sock buf count sharedFd) \<sigma> \<tau> \<and>
    sendmsg sock (shared_fd_msg buf count sharedFd) 0 \<tau> = c \<and> \<not> transient_failure c \<and>
    mem \<tau> = mem \<sigma> \<and> sent (kern \<tau>) = sent (kern \<sigma>) \<and> passed (kern \<tau>) = passed (kern \<sigma>)"
proof -
  let ?call = "sendmsg sock (shared_fd_msg buf count sharedFd) 0"
  from c have "\<not> never_settles ?call transient_failure \<sigma>" by (auto simp: first_settled_def)
  from settled_call_ex [OF this] obtain n where n: "settled_call ?call transient_failure \<sigma> n" ..
  with first_settled_at [OF n] c have "?call (after_calls ?call n \<sigma>) = c" by simp
  with n show ?thesis
  proof (induction n arbitrary: \<sigma>)
    case 0
    then show ?case by (intro exI [of _ \<sigma>]) (auto simp: settled_call_0 goes_round_refl)
  next
    case (Suc n)
    obtain k \<tau>' where k: "?call \<sigma> = (k, \<tau>')" by fastforce
    with Suc.prems have fails: "transient_failure (k, \<tau>')"
      and IH: "settled_call ?call transient_failure \<tau>' n" "?call (after_calls ?call n \<tau>') = c"
      by (auto simp: settled_call_Suc)
    from fails have "k < 0" and again: "again_or_eintr (errno \<tau>')" by (simp_all add: transient_failure_def)
    from \<open>k < 0\<close> again k have "send_body sendmsg write sock buf count sharedFd \<sigma> = Some (Again \<tau>')"
      by (auto simp: send_body_def again_or_eintr_def)
    with Suc.IH [OF IH] sendmsg_answers(1,2) [OF sm k] \<open>k < 0\<close> show ?case
      by (fastforce intro: goes_round_step)
  qed
qed

lemma send_ok:
  fixes \<sigma> :: "'k sys"
  assumes sm: "sendmsg_contract sendmsg sock sent passed"
    and wc: "write_contract write sock sent" and wp: "write_passes_nothing write sock passed"
    and count: "count < 2 ^ 63"
  shows "if send_stalls sendmsg write sock buf count sharedFd \<sigma>
    then xcp_sock_send_shared_fd sendmsg write sock buf count sharedFd \<sigma> = None
    else \<exists>r \<sigma>'. xcp_sock_send_shared_fd sendmsg write sock buf count sharedFd \<sigma> = Some (r, \<sigma>') \<and>
      send_result sent passed (takes_nothing sendmsg sock buf count sharedFd \<sigma>) buf count sharedFd \<sigma> r \<sigma>'"
proof (cases "first_settled (sendmsg sock (shared_fd_msg buf count sharedFd) 0) transient_failure \<sigma>")
  case None
  then have never: "never_settles (sendmsg sock (shared_fd_msg buf count sharedFd) 0) transient_failure \<sigma>"
    by (auto simp: first_settled_def split: if_splits)
  have "do_while (send_body sendmsg write sock buf count sharedFd) \<sigma> = None"
  proof (rule do_while_diverges [where I = "never_settles (sendmsg sock (shared_fd_msg buf count sharedFd) 0) transient_failure"])
    fix \<tau> assume I: "never_settles (sendmsg sock (shared_fd_msg buf count sharedFd) 0) transient_failure \<tau>"
    obtain k \<tau>' where k: "sendmsg sock (shared_fd_msg buf count sharedFd) 0 \<tau> = (k, \<tau>')" by fastforce
    have "send_body sendmsg write sock buf count sharedFd \<tau> = Some (Again \<tau>')"
      using never_settles_first [OF I] k by (auto simp: send_body_def transient_failure_def again_or_eintr_def)
    moreover have "never_settles (sendmsg sock (shared_fd_msg buf count sharedFd) 0) transient_failure \<tau>'"
      using never_settles_later [OF I, of 1] k by simp
    ultimately show "send_body sendmsg write sock buf count sharedFd \<tau> = None \<or>
        (\<exists>s'. send_body sendmsg write sock buf count sharedFd \<tau> = Some (Again s') \<and>
          never_settles (sendmsg sock (shared_fd_msg buf count sharedFd) 0) transient_failure s')" by blast
  qed (rule never)
  with None show ?thesis by (simp add: send_stalls_def xcp_sock_send_shared_fd_def)
next
  case (Some c)
  obtain k \<tau>' where c: "c = (k, \<tau>')" by fastforce
  have "\<exists>\<tau>. goes_round (send_body sendmsg write sock buf count sharedFd) \<sigma> \<tau> \<and>
      sendmsg sock (shared_fd_msg buf count sharedFd) 0 \<tau> = c \<and> \<not> transient_failure c \<and>
      mem \<tau> = mem \<sigma> \<and> sent (kern \<tau>) = sent (kern \<sigma>) \<and> passed (kern \<tau>) = passed (kern \<sigma>)"
    by (rule send_skips [OF sm]) (rule Some)
  then obtain \<tau> where round: "goes_round (send_body sendmsg write sock buf count sharedFd) \<sigma> \<tau>"
      and k: "sendmsg sock (shared_fd_msg buf count sharedFd) 0 \<tau> = (k, \<tau>')" "\<not> transient_failure (k, \<tau>')"
      and I: "mem \<tau> = mem \<sigma>" "sent (kern \<tau>) = sent (kern \<sigma>)" "passed (kern \<tau>) = passed (kern \<sigma>)"
    unfolding c by (elim exE conjE)
  note run = do_while_goes_round [OF round]
  note a = sendmsg_answers [OF sm k(1)]
  have signed: "s64 (int count) = int count" using count by (simp add: s64_id)
  have took: "takes_nothing sendmsg sock buf count sharedFd \<sigma> \<longleftrightarrow> k = 0"
    using Some c by (auto simp: takes_nothing_def)
  consider (full) "0 \<le> k" "int count \<le> k" | (part) "0 \<le> k" "k < int count" | (fail) "k < 0" by linarith
  then show ?thesis
  proof cases
    case full
    then have "nat k = count" using a(3) by linarith
    then have "send_body sendmsg write sock buf count sharedFd \<tau> = Some (Leave XCP_ERR_OK \<tau>')"
      "send_result sent passed (k = 0) buf count sharedFd \<sigma> XCP_ERR_OK \<tau>'"
      using k a(1,3) full I signed by (auto simp: send_body_def send_result_def XCP_ERR_OK_def)
    with full Some c run show ?thesis unfolding took
      by (simp add: send_stalls_def xcp_sock_send_shared_fd_def do_while_Leave)
  next
    case part
    then have n: "nat k < count" "u64 (int count - k) = count - nat k"
      using count by (auto simp: u64_id nat_diff_distrib)
    have rest: "count - nat k < 2 ^ 63" using count by linarith
    have body: "send_body sendmsg write sock buf count sharedFd \<tau> =
        (case xcp_fd_write_all write sock (buf + nat k) (count - nat k) (Ptr 0) \<tau>' of
           None \<Rightarrow> None | Some (r, offset, \<sigma>'') \<Rightarrow> Some (Leave r \<sigma>''))"
      using k part n signed by (simp add: send_body_def)
    have stalls: "send_stalls sendmsg write sock buf count sharedFd \<sigma> \<longleftrightarrow>
        xcp_fd_write_all write sock (buf + nat k) (count - nat k) (Ptr 0) \<tau>' = None"
      using Some c part posix_sink.write_all_None_iff [OF posix_sink.intro [OF wc] rest]
      by (simp add: send_stalls_def)
    show ?thesis
    proof (cases "xcp_fd_write_all write sock (buf + nat k) (count - nat k) (Ptr 0) \<tau>'")
      case None
      then have "do_while (send_body sendmsg write sock buf count sharedFd) \<sigma> = None"
        by (intro do_while_stuck [OF round]) (simp add: body)
      with None stalls show ?thesis by (simp add: xcp_sock_send_shared_fd_def)
    next
      case (Some x)
      then obtain r off \<upsilon> where w: "xcp_fd_write_all write sock (buf + nat k) (count - nat k) (Ptr 0) \<tau>' = Some (r, off, \<upsilon>)"
        by (cases x) auto
      have "send_result sent passed (k = 0) buf count sharedFd \<sigma> r \<upsilon>"
        by (rule send_rest [OF wc wp count n(1) _ _ _ w]) (use a(1,3) part I in auto)
      with w stalls run body show ?thesis unfolding took
        by (simp add: xcp_sock_send_shared_fd_def do_while_Leave)
    qed
  next
    case fail
    with k(2) have "send_body sendmsg write sock buf count sharedFd \<tau> = Some (Leave XCP_ERR_ERRNO \<tau>')"
      using k(1) by (auto simp: send_body_def transient_failure_def again_or_eintr_def)
    moreover have "send_result sent passed (k = 0) buf count sharedFd \<sigma> XCP_ERR_ERRNO \<tau>'"
      using fail a(1,2) I unfolding send_result_def by (intro conjI exI [of _ 0]) simp_all
    ultimately show ?thesis unfolding took using fail Some c run
      by (simp add: send_stalls_def xcp_sock_send_shared_fd_def do_while_Leave)
  qed
qed

end
