(* ===== verification/Network_Properties.thy ===== *)
theory Network_Properties
  imports Xcp_Network
begin

text \<open>
  The properties of \<^verbatim>\<open>src/network.c\<close>, and a connection for the witnesses: its first calls are
  interrupted, \<^verbatim>\<open>sendmsg\<close> takes at most three bytes, with which it passes the control message, and
  \<^verbatim>\<open>write\<close> at most two.
\<close>

record conn =
  conn_data :: "byte list"
  conn_ctrl :: "cmsghdr list"
  conn_eintr :: nat

definition conn_interrupt :: "conn sys \<Rightarrow> conn sys" where
  "conn_interrupt \<sigma> = \<sigma>\<lparr>errno := EINTR, kern := (kern \<sigma>)\<lparr>conn_eintr := conn_eintr (kern \<sigma>) - 1\<rparr>\<rparr>"

definition conn_write :: "conn buf_call" where
  "conn_write fd a n \<sigma> =
     (if 0 < conn_eintr (kern \<sigma>) then (- 1, conn_interrupt \<sigma>)
      else (int (min n 2), \<sigma>\<lparr>kern := (kern \<sigma>)\<lparr>conn_data := conn_data (kern \<sigma>) @ mem_bytes (mem \<sigma>) a (min n 2)\<rparr>\<rparr>))"

definition conn_sendmsg :: "conn msg_call" where
  "conn_sendmsg fd m flags \<sigma> =
     (if 0 < conn_eintr (kern \<sigma>) then (- 1, conn_interrupt \<sigma>)
      else case hd (msg_iov m) of (a, n) \<Rightarrow>
        (int (min n 3), \<sigma>\<lparr>kern := (kern \<sigma>)\<lparr>conn_data := conn_data (kern \<sigma>) @ mem_bytes (mem \<sigma>) a (min n 3),
                                              conn_ctrl := conn_ctrl (kern \<sigma>) @ (if n = 0 then [] else [msg_control m])\<rparr>\<rparr>))"

definition conn_read :: "conn buf_call" where
  "conn_read fd a n \<sigma> = (let k = min n (min 2 (length (conn_data (kern \<sigma>)))) in
     (int k, \<sigma>\<lparr>mem := mem_store (mem \<sigma>) a (take k (conn_data (kern \<sigma>))),
              kern := (kern \<sigma>)\<lparr>conn_data := drop k (conn_data (kern \<sigma>))\<rparr>\<rparr>))"

definition conn_poll :: "conn poll_call" where
  "conn_poll nfds timeout s = (1, s)"

lemma conn_read_contract: "read_contract conn_read fd conn_data"
  by (auto simp: read_contract_def delivered_def conn_read_def Let_def min_def)

lemma conn_poll_contract: "poll_contract conn_poll conn_data"
  by (simp add: poll_contract_def conn_poll_def)

lemma conn_write_contract: "write_contract conn_write fd conn_data"
  by (auto simp: write_contract_def accepted_def conn_write_def conn_interrupt_def)

lemma conn_sendmsg_contract: "sendmsg_contract conn_sendmsg fd conn_data conn_ctrl"
  by (auto simp: sendmsg_contract_def conn_sendmsg_def conn_interrupt_def Let_def)

text \<open>Its interruptions come to an end.\<close>

lemma conn_sendmsg_settles: "\<not> never_settles (conn_sendmsg fd m flags) transient_failure \<sigma>"
  by (rule settles_if_tired [where \<mu> = "\<lambda>\<tau>. conn_eintr (kern \<tau>)"])
    (auto simp: transient_failure_def conn_sendmsg_def conn_interrupt_def split: if_splits prod.splits)

lemma conn_write_settles: "\<not> write_all_stalls conn_write fd buf count \<sigma>"
  by (rule write_all_stalls_not [where patience = conn_eintr])
    (auto simp: transient_failure_def stalled_def conn_write_def conn_interrupt_def split: if_splits)

lemma conn_read_settles: "\<not> read_all_starves conn_poll conn_read fd buf count timeout \<sigma>"
  by (rule read_all_starves_not [where patience = conn_eintr])
    (auto simp: transient_failure_def poll_failure_def conn_read_def conn_poll_def Let_def)

lemma conn_send_settles: "\<not> send_stalls conn_sendmsg conn_write sock buf count sharedFd \<sigma>"
  by (simp add: send_stalls_def first_settled_def conn_sendmsg_settles conn_write_settles split: prod.split)

lemma conn_write_passes: "write_passes_nothing conn_write fd conn_ctrl"
  by (auto simp: write_passes_nothing_def conn_write_def conn_interrupt_def)

text \<open>
  C24: \<^verbatim>\<open>xcp_sock_send_shared_fd\<close> returns unless \<^verbatim>\<open>sendmsg\<close> fails transiently for ever, or takes a
  part of the buffer and the calls to \<^verbatim>\<open>write\<close> for the rest then fail transiently or take nothing for
  ever; in these cases it never returns. When it returns it has sent the peer a prefix of the
  buffer and nothing else, and unless it reports an error it has sent the whole buffer and the
  descriptor, once, whatever the splits and the interruptions. The exception is a \<^verbatim>\<open>sendmsg\<close> that
  takes no byte, as it must when \<^verbatim>\<open>count\<close> is 0: a stream socket passes no descriptor without a
  byte of data, and the function reports success all the same.
\<close>
theorem shared_fd_is_sent:
  assumes "sendmsg_contract sendmsg sock sent passed"
    and "write_contract write sock sent" and "write_passes_nothing write sock passed"
    and "count < 2 ^ 63"
  shows "if send_stalls sendmsg write sock buf count sharedFd \<sigma>
    then xcp_sock_send_shared_fd sendmsg write sock buf count sharedFd \<sigma> = None
    else \<exists>r \<sigma>'. xcp_sock_send_shared_fd sendmsg write sock buf count sharedFd \<sigma> = Some (r, \<sigma>') \<and>
      mem \<sigma>' = mem \<sigma> \<and>
      (\<exists>n \<le> count. sent (kern \<sigma>') = sent (kern \<sigma>) @ mem_bytes (mem \<sigma>) buf n \<and>
        (r = XCP_ERR_ERRNO \<or> 0 \<le> r \<and> n = count \<and>
          (passed (kern \<sigma>') = passed (kern \<sigma>) @ [msg_control (shared_fd_msg buf count sharedFd)] \<or>
           takes_nothing sendmsg sock buf count sharedFd \<sigma> \<and> passed (kern \<sigma>') = passed (kern \<sigma>))))"
  using send_ok [OF assms, of buf sharedFd \<sigma>] unfolding send_result_def .

definition conn_start :: "conn sys" where
  "conn_start = \<lparr>errno = 0, mem = (\<lambda>x. of_nat x), kern = \<lparr>conn_data = [], conn_ctrl = [], conn_eintr = 2\<rparr>\<rparr>"

text \<open>Eight bytes with a descriptor arrive; no byte with a descriptor is a success without the descriptor.\<close>

lemma shared_fd_is_sent_witness:
  "(\<exists>r \<sigma>'. xcp_sock_send_shared_fd conn_sendmsg conn_write 5 100 8 7 conn_start = Some (r, \<sigma>') \<and>
    mem \<sigma>' = mem conn_start \<and>
    (\<exists>n \<le> 8. conn_data (kern \<sigma>') = mem_bytes (mem conn_start) 100 n \<and>
      (r = XCP_ERR_ERRNO \<or> 0 \<le> r \<and> n = 8 \<and>
        (conn_ctrl (kern \<sigma>') = [msg_control (shared_fd_msg 100 8 7)] \<or>
         takes_nothing conn_sendmsg 5 100 8 7 conn_start \<and> conn_ctrl (kern \<sigma>') = [])))) \<and>
   map_option (\<lambda>(r, \<sigma>'). (r, conn_ctrl (kern \<sigma>')))
     (xcp_sock_send_shared_fd conn_sendmsg conn_write 5 100 0 7 conn_start) = Some (XCP_ERR_OK, [])"
proof
  have "kern conn_start = \<lparr>conn_data = [], conn_ctrl = [], conn_eintr = 2\<rparr>" by (simp add: conn_start_def)
  with shared_fd_is_sent [OF conn_sendmsg_contract conn_write_contract conn_write_passes, of 8 5 100 7 conn_start]
  show "\<exists>r \<sigma>'. xcp_sock_send_shared_fd conn_sendmsg conn_write 5 100 8 7 conn_start = Some (r, \<sigma>') \<and>
    mem \<sigma>' = mem conn_start \<and>
    (\<exists>n \<le> 8. conn_data (kern \<sigma>') = mem_bytes (mem conn_start) 100 n \<and>
      (r = XCP_ERR_ERRNO \<or> 0 \<le> r \<and> n = 8 \<and>
        (conn_ctrl (kern \<sigma>') = [msg_control (shared_fd_msg 100 8 7)] \<or>
         takes_nothing conn_sendmsg 5 100 8 7 conn_start \<and> conn_ctrl (kern \<sigma>') = [])))"
    by (simp add: conn_send_settles)
  show "map_option (\<lambda>(r, \<sigma>'). (r, conn_ctrl (kern \<sigma>')))
     (xcp_sock_send_shared_fd conn_sendmsg conn_write 5 100 0 7 conn_start) = Some (XCP_ERR_OK, [])"
    by (simp add: xcp_sock_send_shared_fd_def do_while.simps send_body_def conn_sendmsg_def conn_interrupt_def
        shared_fd_msg_def s64_def conn_start_def)
qed

text \<open>
  C36: the value of a success is not one value: when the first \<^verbatim>\<open>sendmsg\<close> takes the whole buffer it is
  \<^verbatim>\<open>XCP_ERR_OK\<close>; when it takes only \<open>k\<close> bytes and the rest is written, it is the number of bytes of
  that rest, which is positive.
\<close>
theorem send_success_value:
  assumes "sendmsg sock (shared_fd_msg buf count sharedFd) 0 \<sigma> = (int k, \<sigma>1)"
    and "write_contract write sock sent" and "k \<le> count" and "count < 2 ^ 63"
    and "xcp_sock_send_shared_fd sendmsg write sock buf count sharedFd \<sigma> = Some (r, \<sigma>')"
    and "r \<noteq> XCP_ERR_ERRNO"
  shows "r = (if k = count then XCP_ERR_OK else int (count - k)) \<and> (k < count \<longrightarrow> r > XCP_ERR_OK)"
proof -
  have s: "s64 (int count) = int count" using assms(4) by (simp add: s64_id)
  show ?thesis
  proof (cases "k = count")
    case True
    then have "send_body sendmsg write sock buf count sharedFd \<sigma> = Some (Leave XCP_ERR_OK \<sigma>1)"
      using assms(1) s by (simp add: send_body_def)
    with assms(5) True show ?thesis by (simp add: xcp_sock_send_shared_fd_def do_while_Leave)
  next
    case False
    with assms(3) have k: "k < count" by simp
    have n: "u64 (int count - int k) = count - k" using k assms(4) by (simp add: u64_diff)
    have "count - k < 2 ^ 63" using assms(4) by linarith
    note accepted = posix_sink.write_all_accepted [OF posix_sink.intro [OF assms(2)] this]
    have body: "send_body sendmsg write sock buf count sharedFd \<sigma> =
        (case xcp_fd_write_all write sock (buf + k) (count - k) (Ptr 0) \<sigma>1 of
           None \<Rightarrow> None | Some (q, offset, \<upsilon>) \<Rightarrow> Some (Leave q \<upsilon>))"
      using assms(1) s k n by (simp add: send_body_def)
    have "xcp_fd_write_all write sock (buf + k) (count - k) (Ptr 0) \<sigma>1 \<noteq> None"
      using assms(5) do_while_stuck [OF goes_round_refl, of "send_body sendmsg write sock buf count sharedFd" \<sigma>] body
      by (cases "xcp_fd_write_all write sock (buf + k) (count - k) (Ptr 0) \<sigma>1") (auto simp: xcp_sock_send_shared_fd_def)
    then obtain q off \<upsilon> where w: "xcp_fd_write_all write sock (buf + k) (count - k) (Ptr 0) \<sigma>1 = Some (q, off, \<upsilon>)"
      by auto
    with accepted [OF w] body assms(5,6) k show ?thesis by (auto simp: xcp_sock_send_shared_fd_def do_while_Leave XCP_ERR_OK_def)
  qed
qed

lemma send_success_value_witness:
  "map_option fst (xcp_sock_send_shared_fd conn_sendmsg conn_write 5 100 8 7
      (conn_start\<lparr>kern := \<lparr>conn_data = [], conn_ctrl = [], conn_eintr = 0\<rparr>\<rparr>)) = Some 5"
proof -
  let ?s = "conn_start\<lparr>kern := \<lparr>conn_data = [], conn_ctrl = [], conn_eintr = 0\<rparr>\<rparr>"
  obtain r \<sigma>' where run: "xcp_sock_send_shared_fd conn_sendmsg conn_write 5 100 8 7 ?s = Some (r, \<sigma>')"
    using send_ok [OF conn_sendmsg_contract conn_write_contract conn_write_passes, of 8 5 100 7 ?s]
    by (auto simp: conn_send_settles)
  have "map_option (\<lambda>x. fst x < 0) (xcp_sock_send_shared_fd conn_sendmsg conn_write 5 100 8 7 ?s) = Some False"
    by (simp add: xcp_sock_send_shared_fd_def do_while.simps send_body_def conn_sendmsg_def conn_write_def
        shared_fd_msg_def xcp_fd_write_all_def write_all_loop_def write_all_body_def xcp_fd_write_def
        u64_def usz_def s64_def store_out_def conn_start_def)
  then have ok: "r \<noteq> XCP_ERR_ERRNO" using run by (simp add: XCP_ERR_ERRNO_def)
  have first: "\<exists>\<sigma>1. conn_sendmsg 5 (shared_fd_msg 100 8 7) 0 ?s = (int 3, \<sigma>1)"
    by (simp add: conn_sendmsg_def shared_fd_msg_def)
  then obtain \<sigma>1 where "conn_sendmsg 5 (shared_fd_msg 100 8 7) 0 ?s = (int 3, \<sigma>1)" by blast
  from send_success_value [OF this conn_write_contract _ _ run ok] run show ?thesis by simp
qed

text \<open>The four bytes of the control message are the number of the descriptor.\<close>

lemma shared_fd_data:
  assumes "- (2 ^ 31) \<le> sharedFd" and "sharedFd < 2 ^ 31"
  shows "sint (of_le_bytes (cmsg_data (msg_control (shared_fd_msg buf count sharedFd))) :: 32 word) = sharedFd"
proof -
  have "signed_take_bit 31 sharedFd = sharedFd"
    using assms by (intro signed_take_bit_int_eq_self) simp_all
  then have "sint (word_of_int sharedFd :: 32 word) = sharedFd" by (simp add: sint_sbintrunc')
  then show ?thesis
    using of_to_le_bytes [where 'a = 32, of 4 "word_of_int sharedFd"] by (simp only: shared_fd_msg_def) simp
qed

text \<open>
  C15: sending and receiving. After a send on an empty connection that reports no error, and whose
  \<^verbatim>\<open>sendmsg\<close> took a byte of the buffer, the peer has been passed exactly one control message, which
  carries the descriptor. \<^verbatim>\<open>xcp_fd_read_all\<close> on the other end returns, unless its calls fail
  transiently for ever; it has received a prefix of the buffer, and what it has not received is
  still in the connection. Unless it fails that is the whole buffer.
\<close>
theorem shared_fd_arrives:
  assumes "sendmsg_contract sendmsg sock sent passed"
    and "write_contract write sock sent" and "write_passes_nothing write sock passed"
    and "read_contract read peer sent" and "poll_contract poll sent"
    and "count < 2 ^ 63" and "- (2 ^ 31) \<le> sharedFd" and "sharedFd < 2 ^ 31"
    and "sent (kern \<sigma>) = []" and "passed (kern \<sigma>) = []"
    and "\<not> takes_nothing sendmsg sock buf count sharedFd \<sigma>"
    and "xcp_sock_send_shared_fd sendmsg write sock buf count sharedFd \<sigma> = Some (r, \<sigma>1)" and "r \<noteq> XCP_ERR_ERRNO"
  shows "(\<exists>h. passed (kern \<sigma>1) = [h] \<and> cmsg_level h = SOL_SOCKET \<and> cmsg_type h = SCM_RIGHTS \<and>
      sint (of_le_bytes (cmsg_data h) :: 32 word) = sharedFd) \<and>
    (if read_all_starves poll read peer dest count timeout \<sigma>1
     then xcp_fd_read_all poll read peer dest count timeout roff \<sigma>1 = None
     else \<exists>q n \<sigma>2. xcp_fd_read_all poll read peer dest count timeout roff \<sigma>1 = Some (q, store_out roff n, \<sigma>2) \<and>
       n \<le> count \<and> mem_bytes (mem \<sigma>2) dest n = mem_bytes (mem \<sigma>) buf n \<and>
       sent (kern \<sigma>2) = drop n (mem_bytes (mem \<sigma>) buf count) \<and>
       (q = XCP_ERR_ERRNO \<or> q = int count \<and> n = count))"
proof -
  let ?h = "msg_control (shared_fd_msg buf count sharedFd)" and ?bytes = "mem_bytes (mem \<sigma>) buf count"
  have "send_result sent passed (takes_nothing sendmsg sock buf count sharedFd \<sigma>) buf count sharedFd \<sigma> r \<sigma>1"
    using send_ok [OF assms(1-3,6), of buf sharedFd \<sigma>] assms(12) by (auto split: if_splits)
  then have all: "sent (kern \<sigma>1) = ?bytes" "passed (kern \<sigma>1) = [?h]"
    using assms(9-11,13) by (auto simp: send_result_def)
  have "cmsg_level ?h = SOL_SOCKET" "cmsg_type ?h = SCM_RIGHTS" by (simp_all add: shared_fd_msg_def)
  with all(2) shared_fd_data [OF assms(7,8)] have "\<exists>h. passed (kern \<sigma>1) = [h] \<and> cmsg_level h = SOL_SOCKET \<and>
      cmsg_type h = SCM_RIGHTS \<and> sint (of_le_bytes (cmsg_data h) :: 32 word) = sharedFd" by blast
  moreover have "length (sent (kern \<sigma>1)) = count" by (simp add: all)
  from posix_source.read_all_drains [OF posix_source.intro [OF assms(4,5)] assms(6) this, of dest timeout roff]
  have "if read_all_starves poll read peer dest count timeout \<sigma>1
     then xcp_fd_read_all poll read peer dest count timeout roff \<sigma>1 = None
     else \<exists>q n \<sigma>2. xcp_fd_read_all poll read peer dest count timeout roff \<sigma>1 = Some (q, store_out roff n, \<sigma>2) \<and>
       n \<le> count \<and> mem_bytes (mem \<sigma>2) dest n = take n ?bytes \<and> sent (kern \<sigma>2) = drop n ?bytes \<and>
       (q = XCP_ERR_ERRNO \<or> q = int count \<and> n = count)"
    unfolding all by (auto split: if_splits)
  ultimately show ?thesis by (simp add: take_mem_bytes cong: conj_cong if_cong)
qed

lemma shared_fd_arrives_witness:
  "\<exists>\<sigma>1 q n \<sigma>2 h. xcp_sock_send_shared_fd conn_sendmsg conn_write 5 100 3 (- 1) conn_start = Some (XCP_ERR_OK, \<sigma>1) \<and>
     conn_ctrl (kern \<sigma>1) = [h] \<and> sint (of_le_bytes (cmsg_data h) :: 32 word) = - 1 \<and>
     xcp_fd_read_all conn_poll conn_read 6 200 3 0 NULL \<sigma>1 = Some (q, store_out NULL n, \<sigma>2) \<and>
     (q = XCP_ERR_ERRNO \<or> q = 3 \<and> mem_bytes (mem \<sigma>2) 200 3 = [100, 101, 102])"
proof -
  have "map_option fst (xcp_sock_send_shared_fd conn_sendmsg conn_write 5 100 3 (- 1) conn_start) = Some XCP_ERR_OK"
    by (simp add: xcp_sock_send_shared_fd_def do_while.simps send_body_def conn_sendmsg_def conn_interrupt_def
        shared_fd_msg_def s64_def conn_start_def)
  then obtain \<sigma>1 where run: "xcp_sock_send_shared_fd conn_sendmsg conn_write 5 100 3 (- 1) conn_start = Some (XCP_ERR_OK, \<sigma>1)"
    by auto
  have "conn_data (kern conn_start) = []" "conn_ctrl (kern conn_start) = []"
    and m: "mem_bytes (mem conn_start) 100 3 = [100, 101, 102]"
    by (simp_all add: conn_start_def mem_bytes_def upt_rec)
  moreover have "\<not> takes_nothing conn_sendmsg 5 100 3 (- 1) conn_start"
  proof -
    let ?m = "shared_fd_msg 100 3 (- 1)"
    have "settled_call (conn_sendmsg 5 ?m 0) transient_failure conn_start 2"
      by (simp add: numeral_2_eq_2 settled_call_Suc settled_call_0 transient_failure_def again_or_eintr_def
          conn_sendmsg_def conn_interrupt_def conn_start_def shared_fd_msg_def)
    from first_settled_at [OF this] show ?thesis
      by (simp add: takes_nothing_def numeral_2_eq_2 conn_sendmsg_def conn_interrupt_def conn_start_def shared_fd_msg_def)
  qed
  ultimately show ?thesis
    using shared_fd_arrives [OF conn_sendmsg_contract conn_write_contract conn_write_passes conn_read_contract
      conn_poll_contract _ _ _ _ _ _ run, of 6 200 0 NULL] run m
    by (auto simp: xcp_err_defs conn_read_settles)
qed

end
