(* ===== verification/Xcp_Algorithm.thy ===== *)
theory Xcp_Algorithm
  imports C_String
begin

text \<open>
  \<^verbatim>\<open>include/xcp-ng/generic/algorithm.h\<close>. An array is given by its address; a predicate looks at the
  element at an address, and is \<^const>\<open>None\<close> when doing so is undefined.
\<close>

section \<open>Functions\<close>

text \<open>The array of strings: what pointer the cell at an address holds, and the string at a pointer.\<close>

record str_heap =
  cell_at :: "nat \<Rightarrow> nat option"
  string_at :: "nat \<Rightarrow> char list option"

definition xcp_pred_str_equal :: "str_heap \<Rightarrow> nat \<Rightarrow> nat \<Rightarrow> bool option" where
  "xcp_pred_str_equal h elem needle =
     do { p \<leftarrow> cell_at h elem; s \<leftarrow> string_at h p; t \<leftarrow> string_at h needle; strcmp_eq s t }"

text \<open>The loop from \<^verbatim>\<open>p\<close> on; it need not end, as \<open>elemSize\<close> may be 0.\<close>

partial_function (option) index_of_loop ::
  "(nat \<Rightarrow> 'n \<Rightarrow> bool option) \<Rightarrow> nat \<Rightarrow> nat \<Rightarrow> 'n \<Rightarrow> nat \<Rightarrow> nat \<Rightarrow> nat option" where
  "index_of_loop predicate arr elemSize needle end_p p =
     (if p < end_p then
        (case predicate p needle of
           None \<Rightarrow> None
         | Some found \<Rightarrow>
             if found then Some (u64 (int p - int arr) div elemSize)
             else index_of_loop predicate arr elemSize needle end_p (p + elemSize))
      else Some (u64 (- 1)))"

definition xcp_arr_index_of ::
  "nat \<Rightarrow> nat \<Rightarrow> nat \<Rightarrow> 'n \<Rightarrow> (nat \<Rightarrow> 'n \<Rightarrow> bool option) \<Rightarrow> nat option" where
  "xcp_arr_index_of arr elemSize n needle predicate =
     index_of_loop predicate arr elemSize needle (arr + usz (n * elemSize)) arr"

definition xcp_str_arr_index_of :: "str_heap \<Rightarrow> nat \<Rightarrow> nat \<Rightarrow> nat \<Rightarrow> nat option" where
  "xcp_str_arr_index_of h arr n needle = xcp_arr_index_of arr 8 n needle (xcp_pred_str_equal h)"

section \<open>What the search finds\<close>

text \<open>The first of \<open>n\<close> elements that a test accepts, and \<^verbatim>\<open>(size_t)-1\<close> when none does.\<close>

definition first_index :: "(nat \<Rightarrow> bool) \<Rightarrow> nat \<Rightarrow> nat" where
  "first_index P n = (case find P [0..<n] of None \<Rightarrow> 2 ^ 64 - 1 | Some i \<Rightarrow> i)"

lemma size_max: "u64 (- 1) = 2 ^ 64 - 1"
  by (simp add: u64_def)

lemma index_of_loop_eq:
  assumes size: "0 < e" and fits: "arr + n * e < 2 ^ 64"
    and pred: "\<And>i. k \<le> i \<Longrightarrow> i < n \<Longrightarrow> (\<forall>j. k \<le> j \<longrightarrow> j < i \<longrightarrow> \<not> P j) \<Longrightarrow> predicate (arr + i * e) needle = Some (P i)"
    and k: "k \<le> n"
  shows "index_of_loop predicate arr e needle (arr + n * e) (arr + k * e) =
    Some (case find P [k..<n] of None \<Rightarrow> 2 ^ 64 - 1 | Some i \<Rightarrow> i)"
  using k pred
proof (induction "n - k" arbitrary: k)
  case 0
  then show ?case by (subst index_of_loop.simps) (simp add: size_max)
next
  case (Suc m)
  then have kn: "k < n" by simp
  then have lt: "arr + k * e < arr + n * e" using size by simp
  have upt: "[k..<n] = k # [Suc k..<n]" using kn by (simp add: upt_conv_Cons)
  have pk: "predicate (arr + k * e) needle = Some (P k)" using Suc.prems(2) [of k] kn by simp
  show ?case
  proof (cases "P k")
    case True
    have "k * e < 2 ^ 64" using lt fits by linarith
    then have "u64 (int (arr + k * e) - int arr) div e = k" using size u64_of_nat [of "k * e"] by simp
    with True pk lt upt show ?thesis by (subst index_of_loop.simps) simp
  next
    case False
    have "index_of_loop predicate arr e needle (arr + n * e) (arr + Suc k * e) =
        Some (case find P [Suc k..<n] of None \<Rightarrow> 2 ^ 64 - 1 | Some i \<Rightarrow> i)"
    proof (rule Suc.hyps(1))
      show "m = n - Suc k" "Suc k \<le> n" using Suc.hyps(2) kn by auto
      fix i assume i: "Suc k \<le> i" "i < n" "\<forall>j. Suc k \<le> j \<longrightarrow> j < i \<longrightarrow> \<not> P j"
      then have "\<forall>j. k \<le> j \<longrightarrow> j < i \<longrightarrow> \<not> P j" using False by (metis le_antisym not_less_eq_eq)
      with i Suc.prems(2) [of i] show "predicate (arr + i * e) needle = Some (P i)" by simp
    qed
    with False pk lt upt show ?thesis by (subst index_of_loop.simps) (simp add: algebra_simps)
  qed
qed

text \<open>Blocks that are strings are compared as strings.\<close>

definition str_cell :: "str_heap \<Rightarrow> nat \<Rightarrow> string \<Rightarrow> bool" where
  "str_cell h p s \<longleftrightarrow> is_str s \<and> (\<exists>r. string_at h p = Some (s @ NUL # r))"

lemma pred_str_equal_eq:
  "cell_at h elem = Some p \<Longrightarrow> str_cell h p s \<Longrightarrow> str_cell h needle t \<Longrightarrow>
   xcp_pred_str_equal h elem needle = Some (s = t)"
  by (auto simp: xcp_pred_str_equal_def str_cell_def strcmp_eq_str)

end
