(* ===== verification/Algorithm_Properties.thy ===== *)
theory Algorithm_Properties
  imports Xcp_Algorithm
begin

text \<open>The properties of \<^verbatim>\<open>include/xcp-ng/generic/algorithm.h\<close>.\<close>

text \<open>
  C40: \<^verbatim>\<open>xcp_arr_index_of\<close> always returns, on an array of elements of positive size: the index of the
  first element the predicate accepts, and the greatest \<^verbatim>\<open>size_t\<close> when it accepts none. It asks the
  predicate about no element after that one and about no address that is not an element's.
\<close>
theorem index_of_first:
  assumes "0 < elemSize" and "arr + n * elemSize < 2 ^ 64"
    and "\<And>i. i < n \<Longrightarrow> (\<forall>j < i. \<not> P j) \<Longrightarrow> predicate (arr + i * elemSize) needle = Some (P i)"
  shows "xcp_arr_index_of arr elemSize n needle predicate = Some (first_index P n)"
proof -
  have "n * elemSize < 2 ^ 64" using assms(2) by linarith
  then have "usz (n * elemSize) = n * elemSize" by (rule usz_id)
  then show ?thesis
    using index_of_loop_eq [OF assms(1,2), of 0 P predicate needle] assms(3)
    by (simp add: xcp_arr_index_of_def first_index_def)
qed

text \<open>An array of three 4-byte elements whose first bytes are 7, 9 and 9.\<close>

definition nine_at :: "nat \<Rightarrow> nat \<Rightarrow> bool option" where
  "nine_at p needle = (if p = 100 then Some (needle = 7) else if p = 104 then Some (needle = 9) else None)"

lemma index_of_first_witness:
  "xcp_arr_index_of 100 4 3 9 nine_at = Some (first_index (\<lambda>i. 0 < i) 3)"
proof (rule index_of_first)
  fix i :: nat assume "i < 3" "\<forall>j < i. \<not> 0 < j"
  then have "i = 0 \<or> i = 1" by (metis One_nat_def gr0I less_one linorder_neqE_nat)
  then show "nine_at (100 + i * 4) 9 = Some (0 < i)" by (auto simp: nine_at_def)
qed simp_all

text \<open>
  On an array of pointers to strings \<^verbatim>\<open>xcp_str_arr_index_of\<close> gives the index of the first one that
  equals the needle, compared as strings, and the greatest \<^verbatim>\<open>size_t\<close> when no one does.
\<close>
lemma str_index_of_first:
  assumes "arr + length ss * 8 < 2 ^ 64" and "str_cell h needle t"
    and "\<And>i. i < length ss \<Longrightarrow> \<exists>p. cell_at h (arr + i * 8) = Some p \<and> str_cell h p (ss ! i)"
  shows "xcp_str_arr_index_of h arr (length ss) needle = Some (first_index (\<lambda>i. ss ! i = t) (length ss))"
proof -
  have "length ss * 8 < 2 ^ 64" using assms(1) by linarith
  then have size: "usz (length ss * 8) = length ss * 8" by (rule usz_id)
  have "xcp_pred_str_equal h (arr + i * 8) needle = Some (ss ! i = t)" if "i < length ss" for i
    using assms(3) [OF that] pred_str_equal_eq [OF _ _ assms(2)] by blast
  with index_of_loop_eq [of 8 arr "length ss" 0 "\<lambda>i. ss ! i = t" "xcp_pred_str_equal h" needle] assms(1)
  show ?thesis by (simp add: xcp_str_arr_index_of_def xcp_arr_index_of_def size first_index_def)
qed

definition two_strings :: str_heap where
  "two_strings =
     \<lparr>cell_at = [800 \<mapsto> 10, 808 \<mapsto> 20],
      string_at = [10 \<mapsto> ''vdi'' @ [NUL], 20 \<mapsto> ''vm'' @ [NUL], 30 \<mapsto> ''vm'' @ [NUL]]\<rparr>"

lemma str_index_of_first_witness:
  "xcp_str_arr_index_of two_strings 800 (length [''vdi'', ''vm'']) 30 =
    Some (first_index (\<lambda>i. [''vdi'', ''vm''] ! i = ''vm'') (length [''vdi'', ''vm'']))"
proof (rule str_index_of_first)
  fix i assume "i < length [''vdi'', ''vm'']"
  then have "i = 0 \<or> i = 1" by auto
  then show "\<exists>p. cell_at two_strings (800 + i * 8) = Some p \<and> str_cell two_strings p ([''vdi'', ''vm''] ! i)"
    by (auto simp: two_strings_def str_cell_def is_str_def)
qed (simp_all add: two_strings_def str_cell_def is_str_def)

end
