(* ===== verification/Xcp_Global.thy ===== *)
theory Xcp_Global
  imports C_Prelude
begin

text \<open>
  The macros of \<^verbatim>\<open>include/xcp-ng/generic/global.h\<close> and \<^verbatim>\<open>network.h\<close> that compute something: the branch
  hints, the number of elements of an array, and the loop over the elements of an array.
\<close>

section \<open>Values\<close>

text \<open>\<^verbatim>\<open>__builtin_expect (x, c)\<close> is \<open>x\<close>.\<close>

definition XCP_LIKELY :: "int \<Rightarrow> int" where
  "XCP_LIKELY e = of_bool (e \<noteq> 0)"

definition XCP_UNLIKELY :: "int \<Rightarrow> int" where
  "XCP_UNLIKELY e = of_bool (e \<noteq> 0)"

text \<open>The sizes, in bytes, of the array and of its first element.\<close>

definition XCP_ARRAY_LEN :: "nat \<Rightarrow> nat \<Rightarrow> nat" where
  "XCP_ARRAY_LEN sizeArr sizeElem = sizeArr div sizeElem"

text \<open>The sizes of the members of \<^verbatim>\<open>struct sockaddr_un\<close> that are asked for: \<^verbatim>\<open>sun_path\<close> and \<^verbatim>\<open>sun_path[0]\<close>.\<close>

datatype sockaddr_un_member = Sun_path | Sun_path_0

definition XCP_MEMBER_SIZE :: "sockaddr_un_member \<Rightarrow> nat" where
  "XCP_MEMBER_SIZE m = (case m of Sun_path \<Rightarrow> 108 | Sun_path_0 \<Rightarrow> 1)"

definition XCP_SOCK_UNIX_PATH_MAX :: nat where
  "XCP_SOCK_UNIX_PATH_MAX = XCP_MEMBER_SIZE Sun_path div XCP_MEMBER_SIZE Sun_path_0"

section \<open>The loop\<close>

text \<open>
  \<^verbatim>\<open>foreach (it, arr) body\<close> on an array of \<open>n\<close> elements of \<open>w\<close> bytes at \<open>arr\<close>: the iterator is an address;
  a zero element size would make the loop endless, which is \<^const>\<open>None\<close>.
\<close>

partial_function (option) foreach_from :: "nat \<Rightarrow> nat \<Rightarrow> (nat \<Rightarrow> 's \<Rightarrow> 's) \<Rightarrow> nat \<Rightarrow> 's \<Rightarrow> 's option" where
  "foreach_from stop w body it s =
     (if it < stop then foreach_from stop w body (it + w) (body it s) else Some s)"

definition foreach :: "nat \<Rightarrow> nat \<Rightarrow> nat \<Rightarrow> (nat \<Rightarrow> 's \<Rightarrow> 's) \<Rightarrow> 's \<Rightarrow> 's option" where
  "foreach arr sizeArr w body s = foreach_from (arr + XCP_ARRAY_LEN sizeArr w * w) w body arr s"

lemma foreach_from_fold:
  "0 < w \<Longrightarrow> foreach_from (it + n * w) w body it s = Some (fold (\<lambda>i. body (it + i * w)) [0..<n] s)"
proof (induction n arbitrary: it s)
  case 0
  then show ?case by (simp add: foreach_from.simps)
next
  case (Suc n)
  have shift: "[0..<Suc n] = 0 # map Suc [0..<n]" by (simp add: upt_conv_Cons map_Suc_upt del: upt_Suc)
  have "foreach_from (it + Suc n * w) w body it s = foreach_from (it + w + n * w) w body (it + w) (body it s)"
    using Suc.prems by (subst foreach_from.simps) (simp add: algebra_simps)
  also have "\<dots> = Some (fold (\<lambda>i. body (it + w + i * w)) [0..<n] (body it s))"
    by (rule Suc.IH [OF Suc.prems])
  also have "\<dots> = Some (fold (\<lambda>i. body (it + i * w)) [0..<Suc n] s)"
    unfolding shift by (simp add: fold_map comp_def algebra_simps del: upt_Suc)
  finally show ?case .
qed

text \<open>The loop visits each element once, in order, and no other address.\<close>

lemma foreach_visits_all:
  assumes "0 < w"
  shows "foreach arr (n * w) w body s = Some (fold (\<lambda>i. body (arr + i * w)) [0..<n] s)"
  using assms by (simp add: foreach_def XCP_ARRAY_LEN_def foreach_from_fold)

lemma path_max: "XCP_SOCK_UNIX_PATH_MAX = 108"
  by (simp add: XCP_SOCK_UNIX_PATH_MAX_def XCP_MEMBER_SIZE_def)

end
