(* ===== verification/Xcp_Stacktrace.thy ===== *)
theory Xcp_Stacktrace
  imports Xcp_String Xcp_Global
begin

text \<open>
  \<^verbatim>\<open>src/stacktrace/stacktrace.c\<close> and \<^verbatim>\<open>src/stacktrace/platform/bfd-stacktrace.c\<close>. Addresses are
  64-bit words. The BFD library, the dynamic linker's list of objects and the allocator are
  parameters; the formats of \<^verbatim>\<open>printf\<close> that the code uses are written out.
\<close>

section \<open>Formatting one symbol\<close>

fun hex_nat :: "nat \<Rightarrow> string" where
  "hex_nat n = (if n < 16 then [''0123456789abcdef'' ! n] else hex_nat (n div 16) @ [''0123456789abcdef'' ! (n mod 16)])"

declare hex_nat.simps [simp del]

text \<open>\<^verbatim>\<open>%#0*lx\<close> with the width \<^verbatim>\<open>HEX_ADDRESS_LEN\<close>; a \<^verbatim>\<open>uintptr_t\<close> has 8 bytes, and a zero has no prefix.\<close>

definition HEX_ADDRESS_LEN :: nat where
  "HEX_ADDRESS_LEN = 8 * 2"

definition hex_address :: "64 word \<Rightarrow> string" where
  "hex_address a =
     (if a = 0 then replicate HEX_ADDRESS_LEN (CHR ''0'')
      else ''0x'' @ replicate (HEX_ADDRESS_LEN - 2 - length (hex_nat (unat a))) (CHR ''0'') @ hex_nat (unat a))"

record SymbolInfo =
  si_filename :: "string option"
  si_function :: "string option"
  si_line :: nat
  si_physAddress :: "64 word"
  si_libraryName :: string

definition or_unknown :: "string option \<Rightarrow> string" where
  "or_unknown s = (case s of None \<Rightarrow> ''??'' | Some s \<Rightarrow> if s = [] then ''??'' else s)"

definition symbol_text :: "SymbolInfo \<Rightarrow> string" where
  "symbol_text info =
     ''['' @ hex_address (si_physAddress info) @ ''] '' @ or_unknown (si_filename info) @ '':'' @
     dec_nat (si_line info) @ ''  '' @ or_unknown (si_function info) @ ''() in '' @ si_libraryName info"

text \<open>\<^verbatim>\<open>snprintf\<close> of a text: its length, negative when that is no \<^verbatim>\<open>int\<close>, and the block it wrote.\<close>

definition snprintf :: "char list \<Rightarrow> nat \<Rightarrow> string \<Rightarrow> (int \<times> char list) option" where
  "snprintf buf sz s =
     (let ret = (if length s < 2 ^ 31 then int (length s) else - 1) in
      if sz = 0 then Some (ret, buf)
      else do { buf \<leftarrow> blk_copy buf 0 (take (sz - 1) s @ [NUL]); Some (ret, buf) })"

definition symbol_info_to_str :: "SymbolInfo \<Rightarrow> char list \<Rightarrow> nat \<Rightarrow> (int \<times> char list) option" where
  "symbol_info_to_str info buf sz = snprintf buf sz (symbol_text info)"

section \<open>Looking an address up in an object file\<close>

text \<open>
  A table of symbols is known by its address. A section comes with what \<^verbatim>\<open>bfd_find_nearest_line\<close>
  answers for a table and an offset in the section; a file with what \<^verbatim>\<open>bfd_read_minisymbols\<close> answers
  for the static and for the dynamic symbols: the count, and the table if it stores one through
  its pointer. It need not when there are no symbols.
\<close>

record asection =
  sec_alloc :: bool
  sec_vma :: "64 word"
  sec_size :: "64 word"
  sec_line :: "nat \<Rightarrow> 64 word \<Rightarrow> (string option \<times> string option \<times> nat) option"

record bfd =
  bfd_filename :: string
  bfd_is_object :: bool
  bfd_has_syms :: bool
  bfd_minisymbols :: "bool \<Rightarrow> int \<times> nat option"
  bfd_sections :: "asection list"

text \<open>The variable behind \<^verbatim>\<open>symbols\<close> is \<^const>\<open>None\<close> as long as nothing has been stored in it.\<close>

definition store_symbols :: "nat option \<Rightarrow> nat option \<Rightarrow> nat option" where
  "store_symbols out symbols = (case out of None \<Rightarrow> symbols | Some p \<Rightarrow> Some p)"

definition read_symbols :: "bfd \<Rightarrow> nat option \<Rightarrow> int \<times> nat option" where
  "read_symbols bin symbols =
     (if \<not> bfd_has_syms bin then (- 1, symbols)
      else let (count, out) = bfd_minisymbols bin False;
               symbols = store_symbols out symbols;
               (count, symbols) =
                 (if count = 0 then
                    (case bfd_minisymbols bin True of (count, out) \<Rightarrow> (count, store_symbols out symbols))
                  else (count, symbols))
           in (if count < 0 then - 1 else 0, symbols))"

definition find_physical_address_info :: "asection \<Rightarrow> nat \<Rightarrow> SymbolInfo \<Rightarrow> SymbolInfo option" where
  "find_physical_address_info sec symbols info =
     (let pa = si_physAddress info in
      if \<not> sec_alloc sec then None
      else if pa < sec_vma sec then None
      else if pa \<ge> sec_vma sec + sec_size sec then None
      else case sec_line sec symbols (pa - sec_vma sec) of
             None \<Rightarrow> None
           | Some (file, fn, line) \<Rightarrow> Some (info\<lparr>si_filename := file, si_function := fn, si_line := line\<rparr>))"

fun first_section :: "asection list \<Rightarrow> nat \<Rightarrow> SymbolInfo \<Rightarrow> SymbolInfo option" where
  "first_section [] symbols info = None"
| "first_section (sec # secs) symbols info =
     (case find_physical_address_info sec symbols info of
        None \<Rightarrow> first_section secs symbols info
      | Some i \<Rightarrow> Some i)"

text \<open>Adding one to the length is undefined for the greatest \<^verbatim>\<open>int\<close>.\<close>

definition physical_address_to_str_from_syms ::
  "(nat \<Rightarrow> char list ptr) \<Rightarrow> bfd \<Rightarrow> nat \<Rightarrow> 64 word \<Rightarrow> char list ptr option" where
  "physical_address_to_str_from_syms malloc bin symbols pa =
     (let unknown = \<lparr>si_filename = None, si_function = None, si_line = 0, si_physAddress = pa, si_libraryName = []\<rparr>;
          info = (case first_section (bfd_sections bin) symbols unknown of None \<Rightarrow> unknown | Some i \<Rightarrow> i);
          info = info\<lparr>si_libraryName := bfd_filename bin\<rparr>
      in do { (len, _) \<leftarrow> symbol_info_to_str info [] 0;
              if len = 2 ^ 31 - 1 then None
              else let sz = len + 1 in
              if sz \<le> 0 then Some NULL
              else case malloc (u64 sz) of
                NULL \<Rightarrow> Some NULL
              | Ptr str \<Rightarrow> do {
                  (ret, str) \<leftarrow> symbol_info_to_str info str (u64 sz);
                  Some (if ret < 0 then NULL else Ptr str) } })"

text \<open>
  The second component counts the files opened and not closed. The local \<^verbatim>\<open>symbols\<close> starts without
  a value; passing it on and freeing it are undefined when it still has none.
\<close>

definition physical_addr_to_str_from_file ::
  "(string \<Rightarrow> bfd option) \<Rightarrow> (nat \<Rightarrow> char list ptr) \<Rightarrow> string \<Rightarrow> 64 word \<Rightarrow> int \<Rightarrow> (char list ptr \<times> int) option" where
  "physical_addr_to_str_from_file bfd_openr malloc filename pa opened =
     (case bfd_openr filename of
        None \<Rightarrow> Some (NULL, opened)
      | Some bin \<Rightarrow>
          let opened = opened + 1 in
          if \<not> bfd_is_object bin then Some (NULL, opened - 1)
          else let (ret, symbols) = read_symbols bin None in
            if ret < 0 then Some (NULL, opened - 1)
            else do { table \<leftarrow> symbols;
                      buf \<leftarrow> physical_address_to_str_from_syms malloc bin table pa;
                      Some (buf, opened - 1) })"

section \<open>Finding the object of an address\<close>

record phdr =
  p_type :: nat
  p_vaddr :: "64 word"
  p_memsz :: "64 word"

record dl_phdr_info =
  dlpi_addr :: "64 word"
  dlpi_name :: string
  dlpi_phdr :: "phdr list"

definition PT_LOAD :: nat where
  "PT_LOAD = 1"

record Symbol =
  sym_filepath :: "string option"
  sym_baseAddress :: "64 word"
  sym_address :: "64 word"

text \<open>\<^verbatim>\<open>{ .address = a }\<close> sets the other fields to zero.\<close>

definition symbol_of :: "64 word \<Rightarrow> Symbol" where
  "symbol_of a = \<lparr>sym_filepath = None, sym_baseAddress = 0, sym_address = a\<rparr>"

text \<open>The loop over the headers; \<^const>\<open>Some\<close> is \<^verbatim>\<open>true\<close>, with the symbol as the loop leaves it.\<close>

fun find_header :: "dl_phdr_info \<Rightarrow> phdr list \<Rightarrow> Symbol \<Rightarrow> Symbol option" where
  "find_header info [] symbol = None"
| "find_header info (h # hs) symbol =
     (if p_type h \<noteq> PT_LOAD then find_header info hs symbol
      else let address = dlpi_addr info + p_vaddr h in
        if sym_address symbol \<ge> address \<and> sym_address symbol < address + p_memsz h
        then Some (symbol\<lparr>sym_filepath := Some (dlpi_name info), sym_baseAddress := dlpi_addr info\<rparr>)
        else find_header info hs symbol)"

definition find_symbol_location :: "dl_phdr_info \<Rightarrow> Symbol \<Rightarrow> Symbol option" where
  "find_symbol_location info symbol = find_header info (dlpi_phdr info) symbol"

text \<open>\<^verbatim>\<open>dl_iterate_phdr\<close> calls back for each object until a call stops it.\<close>

fun dl_iterate_phdr :: "dl_phdr_info list \<Rightarrow> Symbol \<Rightarrow> Symbol option" where
  "dl_iterate_phdr [] symbol = None"
| "dl_iterate_phdr (info # infos) symbol =
     (case find_symbol_location info symbol of None \<Rightarrow> dl_iterate_phdr infos symbol | Some r \<Rightarrow> Some r)"

section \<open>The table of strings\<close>

text \<open>
  A cell of \<^verbatim>\<open>locations\<close>: never written (or left by a failed \<^verbatim>\<open>asprintf\<close>), null, or a string. Freeing
  the first is undefined.
\<close>

datatype cell_state = Indeterminate | NullCell | StrCell string

fun free_cell :: "cell_state \<Rightarrow> unit option" where
  "free_cell Indeterminate = None"
| "free_cell _ = Some ()"

text \<open>What step 2 writes for one address, from the string that the file lookup gives.\<close>

definition locate ::
  "dl_phdr_info list \<Rightarrow> (string \<Rightarrow> string option) \<Rightarrow> (string \<Rightarrow> 64 word \<Rightarrow> string option) \<Rightarrow> string
    \<Rightarrow> 64 word \<Rightarrow> cell_state" where
  "locate objects asprintf from_file self a =
     (case dl_iterate_phdr objects (symbol_of a) of
        None \<Rightarrow>
          (case asprintf ''[0x????] ??:??  ??()'' of None \<Rightarrow> Indeterminate | Some s \<Rightarrow> StrCell s)
      | Some symbol \<Rightarrow>
          let physAddr = a - sym_baseAddress symbol in
          (case from_file
             (case sym_filepath symbol of
                None \<Rightarrow> self
              | Some filepath \<Rightarrow> if filepath \<noteq> [] then filepath else self) physAddr of
             None \<Rightarrow> NullCell | Some s \<Rightarrow> StrCell s))"

text \<open>The loop from the last address to the first; \<open>Inl i\<close> is \<^verbatim>\<open>goto fail\<close> at the index \<open>i\<close>.\<close>

fun fill_locations ::
  "(64 word \<Rightarrow> cell_state) \<Rightarrow> 64 word list \<Rightarrow> nat \<Rightarrow> cell_state list \<Rightarrow> nat \<Rightarrow> (nat + nat) \<times> cell_state list" where
  "fill_locations loc buffer 0 cells n = (Inr n, cells)"
| "fill_locations loc buffer (Suc i) cells n =
     (let c = loc (buffer ! i); cells = cells[i := c] in
      case c of
        StrCell s \<Rightarrow> fill_locations loc buffer i cells (n + length s + 1)
      | _ \<Rightarrow> (Inl i, cells))"

fun free_from :: "cell_state list \<Rightarrow> int \<Rightarrow> nat \<Rightarrow> unit option" where
  "free_from cells i 0 = Some ()"
| "free_from cells i (Suc k) = do { c \<leftarrow> blk_read cells i; free_cell c; free_from cells (i + 1) k }"

text \<open>\<^verbatim>\<open>(int)log10 (n)\<close>, and the number of columns for the index of a frame.\<close>

fun log10_floor :: "nat \<Rightarrow> nat" where
  "log10_floor n = (if n < 10 then 0 else Suc (log10_floor (n div 10)))"

declare log10_floor.simps [simp del]

definition size_length :: "nat \<Rightarrow> nat" where
  "size_length sz = log10_floor (max 1 (u64 (int sz - 1))) + 2"

text \<open>\<^verbatim>\<open>"#%-*u"\<close>.\<close>

definition frame_prefix :: "nat \<Rightarrow> nat \<Rightarrow> string" where
  "frame_prefix width j = ''#'' @ dec_nat j @ replicate (width - length (dec_nat j)) (CHR '' '')"

text \<open>Step 3: the characters behind the pointers, the pointers as offsets into them.\<close>

fun build_strings ::
  "nat \<Rightarrow> cell_state list \<Rightarrow> nat \<Rightarrow> nat list \<Rightarrow> char list \<Rightarrow> nat \<Rightarrow> (nat list \<times> char list \<times> nat) option" where
  "build_strings width cells 0 ptrs chars data = Some (ptrs, chars, data)"
| "build_strings width cells (Suc j) ptrs chars data =
     (case cells ! j of
        StrCell s \<Rightarrow>
          do { let offset = length (frame_prefix width j);
               chars \<leftarrow> blk_copy chars data (frame_prefix width j @ [NUL]);
               chars \<leftarrow> blk_copy chars (data + offset) (s @ [NUL]);
               build_strings width cells j (ptrs[j := data]) chars (data + offset + length s + 1) }
      | _ \<Rightarrow> None)"

datatype strings = NoStrings | Strings "nat list" "char list" | AssertFails

text \<open>
  \<open>can_alloc\<close> says whether \<^verbatim>\<open>malloc\<close> succeeds for a size; the contents of a fresh block are
  arbitrary characters, \<open>junk\<close>.
\<close>

definition stacktrace_symbols ::
  "string option \<Rightarrow> (nat \<Rightarrow> bool) \<Rightarrow> (nat \<Rightarrow> char) \<Rightarrow> (string \<Rightarrow> 64 word \<Rightarrow> cell_state) \<Rightarrow> 64 word list \<Rightarrow> strings option" where
  "stacktrace_symbols self can_alloc junk loc buffer =
     (case self of
        None \<Rightarrow> Some NoStrings
      | Some self \<Rightarrow>
          let sz = length buffer in
          if \<not> can_alloc (usz (sz * 8)) then
            do { free_from [] (int sz) (sz - sz); Some NoStrings }
          else
            (case fill_locations (loc self) buffer sz (replicate sz Indeterminate) 0 of
               (Inl i, cells) \<Rightarrow> do { free_from cells (int i) (sz - i); Some NoStrings }
             | (Inr n, cells) \<Rightarrow>
                 let width = size_length sz;
                     charCount = n + (width + 1) * sz
                 in if \<not> can_alloc (usz (charCount + sz * 8)) then
                      do { free_from cells (- 1) (sz + 1); Some NoStrings }
                    else
                      do { (ptrs, chars, data) \<leftarrow>
                             build_strings width cells sz (replicate sz 0) (map junk [0..<charCount]) 0;
                           Some (if charCount = data then Strings ptrs chars else AssertFails) }))"

text \<open>
  The function of the interface, in the two platforms that a build chooses between: with BFD, and with
  \<^verbatim>\<open>backtrace_symbols\<close> of the C library (\<^verbatim>\<open>src/stacktrace/platform/std-stacktrace.c\<close>), to which the
  number of addresses is passed as an \<^verbatim>\<open>int\<close>.
\<close>

definition xcp_stacktrace_symbols ::
  "string option \<Rightarrow> (nat \<Rightarrow> bool) \<Rightarrow> (nat \<Rightarrow> char) \<Rightarrow> (string \<Rightarrow> 64 word \<Rightarrow> cell_state) \<Rightarrow> 64 word list \<Rightarrow> strings option" where
  "xcp_stacktrace_symbols self can_alloc junk loc buffer = stacktrace_symbols self can_alloc junk loc buffer"

definition std_stacktrace_symbols ::
  "(64 word list \<Rightarrow> int \<Rightarrow> strings option) \<Rightarrow> 64 word list \<Rightarrow> strings option" where
  "std_stacktrace_symbols backtrace_symbols buffer = backtrace_symbols buffer (s32 (int (length buffer)))"

section \<open>Crash handlers\<close>

datatype handler = SIG_DFL | DefaultCrashHandler | UserHandler nat

datatype signal =
  SIGBUS | SIGFPE | SIGILL | SIGPIPE | SIGSEGV | SIGSYS | SIGTRAP | SIGXCPU | SIGXFSZ | OtherSignal nat

definition xcp_set_crash_handler :: "handler \<Rightarrow> (signal \<Rightarrow> handler) \<Rightarrow> int \<times> (signal \<Rightarrow> handler)" where
  "xcp_set_crash_handler h tbl =
     (let tbl = tbl(SIGBUS := h);
          tbl = tbl(SIGFPE := h);
          tbl = tbl(SIGILL := h);
          tbl = tbl(SIGPIPE := h);
          tbl = tbl(SIGSEGV := h);
          tbl = tbl(SIGSYS := h);
          tbl = tbl(SIGTRAP := h);
          tbl = tbl(SIGXCPU := h);
          tbl = tbl(SIGXFSZ := h)
      in (0, tbl))"

definition xcp_set_default_crash_handler :: "(signal \<Rightarrow> handler) \<Rightarrow> int \<times> (signal \<Rightarrow> handler)" where
  "xcp_set_default_crash_handler tbl = xcp_set_crash_handler DefaultCrashHandler tbl"

definition xcp_clear_crash_handler :: "(signal \<Rightarrow> handler) \<Rightarrow> int \<times> (signal \<Rightarrow> handler)" where
  "xcp_clear_crash_handler tbl = xcp_set_crash_handler SIG_DFL tbl"

text \<open>\<^verbatim>\<open>backtrace\<close> stores at most \<open>size\<close> addresses and returns their number, here the list's length.\<close>

definition xcp_stacktrace :: "(int \<Rightarrow> 64 word list) \<Rightarrow> nat \<Rightarrow> 64 word list" where
  "xcp_stacktrace backtrace sz = backtrace (s32 (int sz))"

text \<open>\<open>symbols\<close> is the platform's \<^verbatim>\<open>xcp_stacktrace_symbols\<close>. The lines that \<^verbatim>\<open>dprintf (fd, "%s\n", strings[i])\<close> writes.\<close>

definition cstring_at :: "char list \<Rightarrow> nat \<Rightarrow> string" where
  "cstring_at chars p = takeWhile (\<lambda>c. c \<noteq> NUL) (drop p chars)"

definition xcp_stacktrace_symbols_fd ::
  "(64 word list \<Rightarrow> strings option) \<Rightarrow> 64 word list \<Rightarrow> (int \<times> string list) option" where
  "xcp_stacktrace_symbols_fd symbols buffer =
     do { r \<leftarrow> symbols buffer;
          case r of
            NoStrings \<Rightarrow> Some (- 1, [])
          | Strings ptrs chars \<Rightarrow> Some (0, map (\<lambda>i. cstring_at chars (ptrs ! i)) [0..<length buffer])
          | AssertFails \<Rightarrow> None }"

text \<open>The exit status of the process, what it wrote to \<^verbatim>\<open>stderr\<close>, and the handlers at that time.\<close>

definition default_crash_handler ::
  "(int \<Rightarrow> 64 word list) \<Rightarrow> (64 word list \<Rightarrow> strings option) \<Rightarrow> int \<Rightarrow> (signal \<Rightarrow> handler)
    \<Rightarrow> (int \<times> string list \<times> (signal \<Rightarrow> handler)) option" where
  "default_crash_handler backtrace symbols signum tbl =
     (let tbl = snd (xcp_set_crash_handler SIG_DFL tbl);
          buffer = xcp_stacktrace backtrace (XCP_ARRAY_LEN (128 * 8) 8)
      in do { (_, out) \<leftarrow> xcp_stacktrace_symbols_fd symbols buffer;
              Some (128 + signum, out, tbl) })"

section \<open>The table of strings, proved\<close>

lemma length_dec_nat: "length (dec_nat n) = log10_floor n + 1"
proof (induction n rule: dec_nat.induct)
  case (1 n)
  then show ?case by (subst dec_nat.simps, subst log10_floor.simps) simp
qed

lemma log10_floor_mono: "m \<le> n \<Longrightarrow> log10_floor m \<le> log10_floor n"
proof (induction m arbitrary: n rule: log10_floor.induct)
  case (1 m)
  show ?case
  proof (cases "m < 10")
    case True
    then show ?thesis by (subst log10_floor.simps) simp
  next
    case False
    with 1 have "log10_floor (m div 10) \<le> log10_floor (n div 10)" by (simp add: div_le_mono)
    with False \<open>m \<le> n\<close> show ?thesis
      by (subst log10_floor.simps, subst (2) log10_floor.simps) simp
  qed
qed

lemma dec_nat_in_column:
  assumes "j < n" and "n < 2 ^ 31"
  shows "length (dec_nat j) < size_length n"
proof -
  have "u64 (int n - 1) = n - 1" using assms u64_diff [of 1 n] by simp
  then have "log10_floor j \<le> log10_floor (max 1 (u64 (int n - 1)))"
    using assms by (intro log10_floor_mono) simp
  then show ?thesis by (simp add: length_dec_nat size_length_def)
qed

lemma frame_prefix_length:
  assumes "j < n" and "n < 2 ^ 31"
  shows "length (frame_prefix (size_length n) j) = size_length n + 1"
  using dec_nat_in_column [OF assms] by (simp add: frame_prefix_def)

text \<open>The cells that hold the strings \<open>f 0\<close>, \<open>f 1\<close>, \dots\<close>

definition str_cells :: "(nat \<Rightarrow> string) \<Rightarrow> nat \<Rightarrow> cell_state list" where
  "str_cells f n = map (\<lambda>i. StrCell (f i)) [0..<n]"

text \<open>What filling does: either every lookup gives a string, or it stops at the last one that does not.\<close>

lemma fill_locations_result:
  assumes "i \<le> n" and "length cells = n" and "\<And>k. i \<le> k \<Longrightarrow> k < n \<Longrightarrow> cells ! k = loc (buf ! k)"
  shows "case fill_locations loc buf i cells c of
      (Inr m, cells') \<Rightarrow> length cells' = n \<and> (\<forall>k < n. cells' ! k = loc (buf ! k)) \<and>
        (\<forall>k < i. \<exists>s. loc (buf ! k) = StrCell s) \<and>
        m = c + (\<Sum>k<i. case loc (buf ! k) of StrCell s \<Rightarrow> length s + 1 | _ \<Rightarrow> 0)
    | (Inl j, cells') \<Rightarrow> j < i \<and> length cells' = n \<and> (\<forall>k. j \<le> k \<longrightarrow> k < n \<longrightarrow> cells' ! k = loc (buf ! k)) \<and>
        (\<forall>s. loc (buf ! j) \<noteq> StrCell s) \<and> (\<forall>k. j < k \<longrightarrow> k < i \<longrightarrow> (\<exists>s. loc (buf ! k) = StrCell s))"
  using assms
proof (induction i arbitrary: cells c)
  case 0
  then show ?case by simp
next
  case (Suc i)
  let ?cells = "cells[i := loc (buf ! i)]"
  have keep: "?cells ! k = loc (buf ! k)" if "i \<le> k" "k < n" for k
    using Suc.prems that by (cases "k = i") auto
  show ?case
  proof (cases "loc (buf ! i)")
    case (StrCell s)
    have "length ?cells = n" "i \<le> n" using Suc.prems by auto
    from Suc.IH [OF this(2,1) keep, of "c + length s + 1"] StrCell show ?thesis
      by (auto simp: less_Suc_eq split: sum.splits prod.splits)
  qed (use Suc.prems keep in auto)
qed

lemma free_from_ok:
  "(\<And>j. i \<le> j \<Longrightarrow> j < i + k \<Longrightarrow> j < length cells \<and> cells ! j \<noteq> Indeterminate) \<Longrightarrow> free_from cells (int i) k = Some ()"
proof (induction k arbitrary: i)
  case (Suc k)
  from Suc.prems [of i] have i: "i < length cells" "cells ! i \<noteq> Indeterminate" by auto
  then have "free_cell (cells ! i) = Some ()" by (cases "cells ! i") auto
  moreover have "free_from cells (int (Suc i)) k = Some ()" using Suc.prems by (intro Suc.IH) auto
  ultimately show ?case using i by (simp add: blk_read_nat add.commute)
qed simp

text \<open>The entries of the big string, the last frame's first, and where each starts.\<close>

definition entry :: "nat \<Rightarrow> (nat \<Rightarrow> string) \<Rightarrow> nat \<Rightarrow> string" where
  "entry width f k = frame_prefix width k @ f k @ [NUL]"

definition entries :: "nat \<Rightarrow> (nat \<Rightarrow> string) \<Rightarrow> nat \<Rightarrow> nat \<Rightarrow> string" where
  "entries width f j n = concat (map (entry width f) (rev [j..<n]))"

lemma entries_step: "j < n \<Longrightarrow> entries w f j n = entries w f (Suc j) n @ entry w f j"
  by (simp add: entries_def upt_conv_Cons)

lemma entries_Nil [simp]: "entries w f n n = []"
  by (simp add: entries_def)

lemma blk_copy_mid:
  "length p = i \<Longrightarrow> length xs = length ys \<Longrightarrow> blk_copy (p @ ys @ q) i xs = Some (p @ xs @ q)"
  by (simp add: blk_copy_def)

text \<open>One turn of step 4: the prefix with a terminator, then the string over it.\<close>

lemma write_entry:
  assumes "length rest = length (entry w f j) + m"
  obtains r where "length r = m"
    "blk_copy (d @ rest) (length d) (frame_prefix w j @ [NUL]) = Some (d @ (frame_prefix w j @ [NUL]) @ drop (length (frame_prefix w j) + 1) rest)"
    "blk_copy (d @ (frame_prefix w j @ [NUL]) @ drop (length (frame_prefix w j) + 1) rest)
       (length d + length (frame_prefix w j)) (f j @ [NUL]) = Some (d @ entry w f j @ r)"
proof -
  let ?p = "frame_prefix w j"
  let ?k = "length ?p + 1"
  define mid r where "mid = take (length (f j)) (drop ?k rest)" and "r = drop (length (f j)) (drop ?k rest)"
  have len: "length rest = ?k + length (f j) + m" using assms by (simp add: entry_def)
  have rest: "drop ?k rest = mid @ r" unfolding mid_def r_def by (rule append_take_drop_id [symmetric])
  have "blk_copy (d @ take ?k rest @ drop ?k rest) (length d) (?p @ [NUL]) = Some (d @ (?p @ [NUL]) @ drop ?k rest)"
    by (rule blk_copy_mid) (use len in auto)
  then have one: "blk_copy (d @ rest) (length d) (?p @ [NUL]) = Some (d @ (?p @ [NUL]) @ drop ?k rest)"
    by (simp only: append_take_drop_id)
  have "blk_copy ((d @ ?p) @ (NUL # mid) @ r) (length d + length ?p) (f j @ [NUL]) = Some ((d @ ?p) @ (f j @ [NUL]) @ r)"
    by (rule blk_copy_mid) (use len in \<open>auto simp: mid_def\<close>)
  then have two: "blk_copy (d @ (?p @ [NUL]) @ drop ?k rest) (length d + length ?p) (f j @ [NUL]) = Some (d @ entry w f j @ r)"
    by (simp only: rest entry_def append_assoc append_Cons append_Nil)
  have "length r = m" using len by (simp add: r_def)
  from this one two show thesis by (rule that)
qed

lemma build_strings_ok:
  assumes "j \<le> n" and "length ptrs = n" and "length rest = length (entries w f 0 j)"
    and "\<And>k. j \<le> k \<Longrightarrow> k < n \<Longrightarrow> ptrs ! k = length (entries w f (Suc k) n)"
  shows "\<exists>ptrs'. build_strings w (str_cells f n) j ptrs (entries w f j n @ rest) (length (entries w f j n)) =
      Some (ptrs', entries w f 0 n, length (entries w f 0 n)) \<and> length ptrs' = n \<and>
      (\<forall>k < n. ptrs' ! k = length (entries w f (Suc k) n))"
  using assms
proof (induction j arbitrary: ptrs rest)
  case 0
  then show ?case by (auto simp: entries_def)
next
  case (Suc j)
  let ?d = "entries w f (Suc j) n"
  have "length rest = length (entry w f j) + length (entries w f 0 j)"
    using Suc.prems(3) by (simp add: entries_def)
  from write_entry [OF this, of ?d] obtain r where r: "length r = length (entries w f 0 j)"
    and copies: "blk_copy (?d @ rest) (length ?d) (frame_prefix w j @ [NUL]) =
        Some (?d @ (frame_prefix w j @ [NUL]) @ drop (length (frame_prefix w j) + 1) rest)"
      "blk_copy (?d @ (frame_prefix w j @ [NUL]) @ drop (length (frame_prefix w j) + 1) rest)
        (length ?d + length (frame_prefix w j)) (f j @ [NUL]) = Some (entries w f j n @ r)"
    using Suc.prems(1) by (auto simp: entries_step)
  have "\<exists>ptrs'. build_strings w (str_cells f n) j (ptrs[j := length ?d]) (entries w f j n @ r) (length (entries w f j n)) =
      Some (ptrs', entries w f 0 n, length (entries w f 0 n)) \<and> length ptrs' = n \<and>
      (\<forall>k < n. ptrs' ! k = length (entries w f (Suc k) n))"
  proof (rule Suc.IH)
    fix k assume "j \<le> k" "k < n"
    then show "ptrs[j := length ?d] ! k = length (entries w f (Suc k) n)"
      using Suc.prems(2,4) by (cases "k = j") auto
  qed (use Suc.prems r in auto)
  moreover have "str_cells f n ! j = StrCell (f j)" using Suc.prems(1) by (simp add: str_cells_def)
  moreover have "length ?d + length (frame_prefix w j) + length (f j) + 1 = length (entries w f j n)"
    using Suc.prems(1) by (simp add: entries_step entry_def)
  ultimately show ?case using copies by (simp add: Let_def)
qed

lemma entries_split: "j \<le> m \<Longrightarrow> m \<le> n \<Longrightarrow> entries w f j n = entries w f m n @ entries w f j m"
proof -
  assume "j \<le> m" "m \<le> n"
  then have "[j..<n] = [j..<m] @ [m..<n]" by (metis le_add_diff_inverse upt_add_eq_append)
  then show ?thesis by (simp add: entries_def)
qed

lemma length_entries:
  "(\<And>k. k < n \<Longrightarrow> length (frame_prefix w k) = w + 1) \<Longrightarrow>
   length (entries w f 0 n) = (\<Sum>k<n. length (f k) + 1) + (w + 1) * n"
proof (induction n)
  case (Suc n)
  have "entries w f 0 (Suc n) = entry w f n @ entries w f 0 n" by (simp add: entries_def)
  with Suc show ?case by (simp add: entry_def)
qed simp

lemma frame_prefix_str: "is_str (frame_prefix w j)"
proof -
  have "NUL \<notin> set (dec_nat j)"
    using dec_nat_digits [of j] by (auto simp: is_digit_def digit_val_def)
  then show ?thesis by (auto simp: frame_prefix_def is_str_def)
qed

lemma cstring_at_entry:
  assumes "k < n" and "is_str (f k)"
  shows "cstring_at (entries w f 0 n) (length (entries w f (Suc k) n)) = frame_prefix w k @ f k"
proof -
  have "entries w f 0 n = entries w f (Suc k) n @ entries w f 0 (Suc k)"
    using assms(1) by (intro entries_split) auto
  moreover have "entries w f 0 (Suc k) = (frame_prefix w k @ f k) @ NUL # entries w f 0 k"
    by (simp add: entries_def entry_def)
  moreover have "is_str (frame_prefix w k @ f k)" using assms(2) frame_prefix_str by simp
  ultimately show ?thesis by (simp add: cstring_at_def takeWhile_str del: append_assoc)
qed

text \<open>The characters the table needs, and the outcome of \<^verbatim>\<open>stacktrace_symbols\<close> on every branch.\<close>

definition table_size :: "(nat \<Rightarrow> string) \<Rightarrow> nat \<Rightarrow> nat" where
  "table_size f n = (\<Sum>k<n. length (f k) + 1) + (size_length n + 1) * n"

lemma all_located:
  assumes "\<And>k. k < n \<Longrightarrow> loc (buf ! k) = StrCell (f k)"
  shows "fill_locations loc buf n (replicate n Indeterminate) 0 =
    (Inr (\<Sum>k<n. length (f k) + 1), str_cells f n)"
proof -
  have res: "case fill_locations loc buf n (replicate n Indeterminate) 0 of
      (Inr m, cells') \<Rightarrow> length cells' = n \<and> (\<forall>k < n. cells' ! k = loc (buf ! k)) \<and>
        (\<forall>k < n. \<exists>s. loc (buf ! k) = StrCell s) \<and>
        m = 0 + (\<Sum>k<n. case loc (buf ! k) of StrCell s \<Rightarrow> length s + 1 | _ \<Rightarrow> 0)
    | (Inl j, cells') \<Rightarrow> j < n \<and> length cells' = n \<and> (\<forall>k. j \<le> k \<longrightarrow> k < n \<longrightarrow> cells' ! k = loc (buf ! k)) \<and>
        (\<forall>s. loc (buf ! j) \<noteq> StrCell s) \<and> (\<forall>k. j < k \<longrightarrow> k < n \<longrightarrow> (\<exists>s. loc (buf ! k) = StrCell s))"
    by (rule fill_locations_result) simp_all
  obtain r cells where run: "fill_locations loc buf n (replicate n Indeterminate) 0 = (r, cells)"
    by (cases "fill_locations loc buf n (replicate n Indeterminate) 0") auto
  show ?thesis
  proof (cases r)
    case (Inl j)
    with res run assms show ?thesis by auto
  next
    case (Inr m)
    with res run have c: "length cells = n" "\<forall>k < n. cells ! k = loc (buf ! k)"
      "m = (\<Sum>k<n. case loc (buf ! k) of StrCell s \<Rightarrow> length s + 1 | _ \<Rightarrow> 0)" by auto
    have "cells = str_cells f n"
      using c(1,2) assms by (intro nth_equalityI) (auto simp: str_cells_def)
    moreover have "m = (\<Sum>k<n. length (f k) + 1)"
      unfolding c(3) using assms by (intro sum.cong) auto
    ultimately show ?thesis using run Inr by simp
  qed
qed

lemma stacktrace_all_located:
  assumes n: "length buffer = n" "n < 2 ^ 31" and alloc: "can_alloc (usz (n * 8))"
    and loc: "\<And>k. k < n \<Longrightarrow> loc self (buffer ! k) = StrCell (f k)"
  shows "stacktrace_symbols (Some self) can_alloc junk loc buffer =
    (if can_alloc (usz (table_size f n + n * 8))
     then Some (Strings (map (\<lambda>k. length (entries (size_length n) f (Suc k) n)) [0..<n]) (entries (size_length n) f 0 n))
     else None)"
proof -
  let ?w = "size_length n"
  have size: "length (entries ?w f 0 n) = table_size f n"
    using length_entries [of n ?w f] frame_prefix_length [OF _ n(2)] by (simp add: table_size_def)
  have "\<exists>ptrs'. build_strings ?w (str_cells f n) n (replicate n 0) (entries ?w f n n @ map junk [0..<table_size f n])
      (length (entries ?w f n n)) = Some (ptrs', entries ?w f 0 n, length (entries ?w f 0 n)) \<and> length ptrs' = n \<and>
      (\<forall>k < n. ptrs' ! k = length (entries ?w f (Suc k) n))"
    by (rule build_strings_ok) (simp_all add: size)
  then obtain ptrs where b: "build_strings ?w (str_cells f n) n (replicate n 0) (map junk [0..<table_size f n]) 0 =
      Some (ptrs, entries ?w f 0 n, table_size f n)" "length ptrs = n"
      "\<forall>k < n. ptrs ! k = length (entries ?w f (Suc k) n)"
    by (auto simp: size)
  have ptrs: "ptrs = map (\<lambda>k. length (entries ?w f (Suc k) n)) [0..<n]"
    using b(2,3) by (intro nth_equalityI) auto
  have "free_from (str_cells f n) (- 1) (n + 1) = None" by (simp add: blk_read_def)
  moreover have ts: "(\<Sum>k<n. length (f k) + 1) + (?w + 1) * n = table_size f n"
    by (simp only: table_size_def)
  have "stacktrace_symbols (Some self) can_alloc junk loc buffer =
      (if \<not> can_alloc (usz (table_size f n + n * 8)) then
         do { free_from (str_cells f n) (- 1) (n + 1); Some NoStrings }
       else
         do { (ptrs, chars, data) \<leftarrow>
                build_strings ?w (str_cells f n) n (replicate n 0) (map junk [0..<table_size f n]) 0;
              Some (if table_size f n = data then Strings ptrs chars else AssertFails) })"
    unfolding stacktrace_symbols_def n(1) Let_def using alloc
    by (simp only: option.case prod.case sum.case ts not_True_eq_False if_False
        all_located [of n "loc self" buffer f, OF loc])
  ultimately show ?thesis using b(1) ptrs by simp
qed

end
