(* ===== verification/Stacktrace_Properties.thy ===== *)
theory Stacktrace_Properties
  imports Xcp_Stacktrace
begin

text \<open>The properties of \<^verbatim>\<open>src/stacktrace/\<close>.\<close>

section \<open>The table of strings\<close>

text \<open>
  C20: when every address is described by a string and memory suffices, \<^verbatim>\<open>stacktrace_symbols\<close> gives
  one pointer per address, to \<^verbatim>\<open>#\<close>, the frame's index, at least one blank that pads it to the same
  width for all frames, and its description; every write stays in the block, which they fill, so the assertion holds.
\<close>
theorem symbols_table:
  assumes "length buffer = n" and "n < 2 ^ 31" and "\<And>k. can_alloc k"
    and "\<And>k. k < n \<Longrightarrow> loc self (buffer ! k) = StrCell (f k) \<and> is_str (f k)"
  shows "\<exists>ptrs chars. stacktrace_symbols (Some self) can_alloc junk loc buffer = Some (Strings ptrs chars) \<and>
    length ptrs = n \<and> length chars = table_size f n \<and>
    (\<forall>k < n. \<exists>blanks > 0. length (dec_nat k) + blanks = size_length n \<and>
      cstring_at chars (ptrs ! k) = ''#'' @ dec_nat k @ replicate blanks (CHR '' '') @ f k)"
proof -
  let ?w = "size_length n"
  have width: "length (frame_prefix ?w k) = ?w + 1" if "k < n" for k
    using frame_prefix_length that assms(2) by blast
  have "length (entries ?w f 0 n) = table_size f n"
    using length_entries [of n ?w f] width by (simp add: table_size_def)
  moreover have "stacktrace_symbols (Some self) can_alloc junk loc buffer =
      Some (Strings (map (\<lambda>k. length (entries ?w f (Suc k) n)) [0..<n]) (entries ?w f 0 n))"
    using stacktrace_all_located [where loc = loc and self = self and junk = junk and f = f and
        buffer = buffer and n = n and can_alloc = can_alloc] assms by simp
  moreover have "\<exists>blanks > 0. length (dec_nat k) + blanks = ?w \<and>
      cstring_at (entries ?w f 0 n) (length (entries ?w f (Suc k) n)) = ''#'' @ dec_nat k @ replicate blanks (CHR '' '') @ f k"
    if "k < n" for k
    using dec_nat_in_column [OF that assms(2)] cstring_at_entry [of k n f ?w] that assms(4)
    by (intro exI [of _ "?w - length (dec_nat k)"]) (simp add: frame_prefix_def)
  ultimately show ?thesis by simp
qed

text \<open>An address is described by its parity.\<close>

definition parity_loc :: "string \<Rightarrow> 64 word \<Rightarrow> cell_state" where
  "parity_loc self a = StrCell (if even (unat a) then ''even'' else ''odd'')"

lemma symbols_table_witness:
  "\<exists>ptrs chars. stacktrace_symbols (Some ''/bin/x'') (\<lambda>_. True) (\<lambda>_. NUL) parity_loc [4, 7] = Some (Strings ptrs chars) \<and>
    length ptrs = 2 \<and> length chars = table_size (\<lambda>k. if k = 0 then ''even'' else ''odd'') 2 \<and>
    (\<forall>k < 2. \<exists>blanks > 0. length (dec_nat k) + blanks = size_length 2 \<and>
      cstring_at chars (ptrs ! k) = ''#'' @ dec_nat k @ replicate blanks (CHR '' '') @ (if k = 0 then ''even'' else ''odd''))"
  by (rule symbols_table) (auto simp: parity_loc_def is_str_def less_2_cases_iff)

text \<open>The lookups that fail: the first one the loop meets is the one with the greatest index.\<close>

definition last_missing :: "(64 word \<Rightarrow> cell_state) \<Rightarrow> 64 word list \<Rightarrow> nat \<Rightarrow> bool" where
  "last_missing loc buffer j \<longleftrightarrow> j < length buffer \<and> (\<forall>s. loc (buffer ! j) \<noteq> StrCell s) \<and>
     (\<forall>k. j < k \<longrightarrow> k < length buffer \<longrightarrow> (\<exists>s. loc (buffer ! k) = StrCell s))"

lemma last_missing_ex:
  assumes "k < length buffer" and "\<forall>s. loc (buffer ! k) \<noteq> StrCell s"
  shows "\<exists>j. last_missing loc buffer j"
proof -
  let ?P = "\<lambda>k. k < length buffer \<and> (\<forall>s. loc (buffer ! k) \<noteq> StrCell s)"
  from assms have "?P k" by blast
  then have "?P (GREATEST k. ?P k)" by (rule GreatestI_nat [where P = ?P and b = "length buffer"]) auto
  moreover have "\<exists>s. loc (buffer ! i) = StrCell s" if "(GREATEST k. ?P k) < i" "i < length buffer" for i
  proof (rule ccontr)
    assume "\<not> ?thesis"
    with that(2) have "i \<le> (GREATEST k. ?P k)" by (intro Greatest_le_nat [where P = ?P and b = "length buffer"]) auto
    with that(1) show False by simp
  qed
  ultimately show ?thesis unfolding last_missing_def by blast
qed

lemma last_missing_unique: "last_missing loc buffer i \<Longrightarrow> last_missing loc buffer j \<Longrightarrow> i = j"
  unfolding last_missing_def by (metis linorder_neqE_nat)

lemma fill_stops:
  assumes j: "last_missing loc buffer j"
  obtains cells where
    "fill_locations loc buffer (length buffer) (replicate (length buffer) Indeterminate) 0 = (Inl j, cells)"
    "length cells = length buffer" "\<And>k. j \<le> k \<Longrightarrow> k < length buffer \<Longrightarrow> cells ! k = loc (buffer ! k)"
proof -
  let ?n = "length buffer"
  have res: "case fill_locations loc buffer ?n (replicate ?n Indeterminate) 0 of
      (Inr m, cells') \<Rightarrow> length cells' = ?n \<and> (\<forall>k < ?n. cells' ! k = loc (buffer ! k)) \<and>
        (\<forall>k < ?n. \<exists>s. loc (buffer ! k) = StrCell s) \<and>
        m = 0 + (\<Sum>k<?n. case loc (buffer ! k) of StrCell s \<Rightarrow> length s + 1 | _ \<Rightarrow> 0)
    | (Inl j, cells') \<Rightarrow> j < ?n \<and> length cells' = ?n \<and> (\<forall>k. j \<le> k \<longrightarrow> k < ?n \<longrightarrow> cells' ! k = loc (buffer ! k)) \<and>
        (\<forall>s. loc (buffer ! j) \<noteq> StrCell s) \<and> (\<forall>k. j < k \<longrightarrow> k < ?n \<longrightarrow> (\<exists>s. loc (buffer ! k) = StrCell s))"
    by (rule fill_locations_result) simp_all
  obtain r cells where run: "fill_locations loc buffer ?n (replicate ?n Indeterminate) 0 = (r, cells)"
    by (cases "fill_locations loc buffer ?n (replicate ?n Indeterminate) 0") auto
  from res run j obtain i where r: "r = Inl i" by (cases r) (auto simp: last_missing_def)
  with res run have "last_missing loc buffer i" by (simp add: last_missing_def)
  with j have "i = j" using last_missing_unique by blast
  with res run r that show thesis by simp
qed

lemma stacktrace_missing:
  assumes alloc: "can_alloc (usz (length buffer * 8))" and j: "last_missing (loc self) buffer j"
  shows "stacktrace_symbols (Some self) can_alloc junk loc buffer =
    (if loc self (buffer ! j) = Indeterminate then None else Some NoStrings)"
proof -
  let ?n = "length buffer" and ?l = "loc self"
  from fill_stops [OF j] obtain cells where run:
      "fill_locations ?l buffer ?n (replicate ?n Indeterminate) 0 = (Inl j, cells)"
    and cells: "length cells = ?n" "\<And>k. j \<le> k \<Longrightarrow> k < ?n \<Longrightarrow> cells ! k = ?l (buffer ! k)" by blast
  have jn: "j < ?n" and found: "\<And>k. j < k \<Longrightarrow> k < ?n \<Longrightarrow> \<exists>s. ?l (buffer ! k) = StrCell s"
    using j by (simp_all add: last_missing_def)
  have sym: "stacktrace_symbols (Some self) can_alloc junk loc buffer =
      do { free_from cells (int j) (?n - j); Some NoStrings }"
    using run alloc by (simp add: stacktrace_symbols_def Let_def)
  show ?thesis
  proof (cases "?l (buffer ! j) = Indeterminate")
    case True
    then have "free_from cells (int j) (?n - j) = None"
      using jn cells by (cases "?n - j") (simp_all add: blk_read_nat)
    with sym True show ?thesis by simp
  next
    case False
    have "free_from cells (int j) (?n - j) = Some ()"
    proof (rule free_from_ok)
      fix k assume "j \<le> k" "k < j + (?n - j)"
      then consider "k = j" | "j < k" "k < ?n" by linarith
      then show "k < length cells \<and> cells ! k \<noteq> Indeterminate"
        using cells False jn found [of k] by cases auto
    qed
    with sym False show ?thesis by simp
  qed
qed

text \<open>
  C21: the clean-up of \<^verbatim>\<open>stacktrace_symbols\<close> is undefined behaviour in exactly two cases: \<^verbatim>\<open>asprintf\<close>
  fails, so that the cell it left is freed, or the last \<^verbatim>\<open>malloc\<close> fails, after a loop that ended at
  the index -1, from which the cells are freed. A failed lookup and the other failures of the
  allocator are handled.
\<close>
theorem cleanup_undefined_iff:
  assumes "length buffer < 2 ^ 31"
  shows "stacktrace_symbols (Some self) can_alloc junk loc buffer = None \<longleftrightarrow>
    can_alloc (usz (length buffer * 8)) \<and>
    ((\<exists>j. last_missing (loc self) buffer j \<and> loc self (buffer ! j) = Indeterminate) \<or>
     (\<exists>f. (\<forall>k < length buffer. loc self (buffer ! k) = StrCell (f k)) \<and>
        \<not> can_alloc (usz (table_size f (length buffer) + length buffer * 8))))"
proof (cases "can_alloc (usz (length buffer * 8))")
  case False
  then show ?thesis by (simp add: stacktrace_symbols_def Let_def)
next
  case alloc: True
  let ?n = "length buffer"
  show ?thesis
  proof (cases "\<exists>j. last_missing (loc self) buffer j")
    case True
    then obtain j where j: "last_missing (loc self) buffer j" ..
    then have no: "\<not> (\<exists>f. (\<forall>k < ?n. loc self (buffer ! k) = StrCell (f k)) \<and>
        \<not> can_alloc (usz (table_size f ?n + ?n * 8)))" by (auto simp: last_missing_def)
    have "(\<exists>i. last_missing (loc self) buffer i \<and> loc self (buffer ! i) = Indeterminate) \<longleftrightarrow>
        loc self (buffer ! j) = Indeterminate"
      using j last_missing_unique by blast
    with no alloc stacktrace_missing [where loc = loc and self = self and junk = junk and can_alloc = can_alloc and
        buffer = buffer, OF alloc j]
    show ?thesis by simp
  next
    case False
    with last_missing_ex have ex: "\<forall>k < ?n. \<exists>s. loc self (buffer ! k) = StrCell s" by metis
    define f where "f k = (case loc self (buffer ! k) of StrCell s \<Rightarrow> s | _ \<Rightarrow> [])" for k
    have f: "loc self (buffer ! k) = StrCell (f k)" if "k < ?n" for k
      using ex that by (auto simp: f_def)
    have "table_size g ?n = table_size f ?n" if "\<forall>k < ?n. loc self (buffer ! k) = StrCell (g k)" for g
      using that f by (simp add: table_size_def)
    then have "(\<exists>g. (\<forall>k < ?n. loc self (buffer ! k) = StrCell (g k)) \<and>
        \<not> can_alloc (usz (table_size g ?n + ?n * 8))) \<longleftrightarrow>
        \<not> can_alloc (usz (table_size f ?n + ?n * 8))"
      using f by metis
    with False alloc stacktrace_all_located [where loc = loc and self = self and junk = junk and f = f and
          can_alloc = can_alloc and buffer = buffer and n = ?n, OF refl assms alloc f]
    show ?thesis by simp
  qed
qed

lemma cleanup_undefined_iff_witness:
  "stacktrace_symbols (Some ''/bin/x'') (\<lambda>k. k < 20) (\<lambda>_. NUL) parity_loc [4, 7] = None"
proof -
  let ?f = "\<lambda>k::nat. if k = 0 then ''even'' else ''odd''"
  have "table_size ?f 2 = 4 + 1 + (3 + 1) + (size_length 2 + 1) * 2"
  proof -
    have "{..<2 :: nat} = {0, 1}" by auto
    then show ?thesis by (simp add: table_size_def)
  qed
  moreover have "size_length 2 < 100"
    by (simp add: size_length_def u64_def) (subst log10_floor.simps, simp)
  ultimately have "\<not> usz (table_size ?f 2 + 2 * 8) < 20" by (simp add: usz_id)
  moreover have "parity_loc ''/bin/x'' ([4, 7] ! k) = StrCell (?f k)" if "k < 2" for k
    using that by (auto simp: parity_loc_def less_2_cases_iff)
  moreover have len: "length [4, 7 :: 64 word] = 2" by simp
  ultimately have ex: "\<exists>f. (\<forall>k < length [4, 7 :: 64 word]. parity_loc ''/bin/x'' ([4, 7] ! k) = StrCell (f k)) \<and>
      \<not> usz (table_size f (length [4, 7 :: 64 word]) + length [4, 7 :: 64 word] * 8) < 20"
    unfolding len by (intro exI [of _ ?f]) simp
  have alloc: "usz (length [4, 7 :: 64 word] * 8) < 20" unfolding len by (simp add: usz_id)
  have small: "length [4, 7 :: 64 word] < 2 ^ 31" by simp
  show ?thesis
    by (rule cleanup_undefined_iff [where self = "''/bin/x''" and can_alloc = "\<lambda>k. k < 20" and
          loc = parity_loc and junk = "\<lambda>_. NUL", OF small, THEN iffD2, OF conjI [OF alloc disjI2 [OF ex]]])
qed

section \<open>One address\<close>

text \<open>An object covers an address that lies in one of its loaded segments.\<close>

definition covers :: "64 word \<Rightarrow> dl_phdr_info \<Rightarrow> bool" where
  "covers a info \<longleftrightarrow> (\<exists>h \<in> set (dlpi_phdr info). p_type h = PT_LOAD \<and>
     dlpi_addr info + p_vaddr h \<le> a \<and> a < dlpi_addr info + p_vaddr h + p_memsz h)"

lemma find_header_eq:
  "find_header info hs symbol =
     (if \<exists>h \<in> set hs. p_type h = PT_LOAD \<and> dlpi_addr info + p_vaddr h \<le> sym_address symbol \<and>
         sym_address symbol < dlpi_addr info + p_vaddr h + p_memsz h
      then Some (symbol\<lparr>sym_filepath := Some (dlpi_name info), sym_baseAddress := dlpi_addr info\<rparr>) else None)"
  by (induction hs) (auto simp: Let_def)

lemma dl_iterate_find:
  "dl_iterate_phdr infos symbol =
     map_option (\<lambda>info. symbol\<lparr>sym_filepath := Some (dlpi_name info), sym_baseAddress := dlpi_addr info\<rparr>)
       (find (covers (sym_address symbol)) infos)"
  by (induction infos) (auto simp: find_symbol_location_def find_header_eq covers_def)

text \<open>
  The search through the loaded objects gives the name and the base address of the first object
  one of whose loaded segments contains the address, and fails when there is none.
\<close>
theorem address_is_attributed:
  "dl_iterate_phdr infos (symbol_of a) =
     map_option (\<lambda>info. \<lparr>sym_filepath = Some (dlpi_name info), sym_baseAddress = dlpi_addr info, sym_address = a\<rparr>)
       (find (covers a) infos)"
  by (simp add: dl_iterate_find symbol_of_def)

text \<open>
  What BFD knows about an address, independently of the loop over the sections: the answer of the
  first section that is in memory, contains the address and has an answer for its offset in the
  section; no file, no function and line 0 when there is none.
\<close>

definition sec_contains :: "64 word \<Rightarrow> asection \<Rightarrow> bool" where
  "sec_contains pa sec \<longleftrightarrow> sec_alloc sec \<and> sec_vma sec \<le> pa \<and> pa < sec_vma sec + sec_size sec"

definition bfd_line :: "bfd \<Rightarrow> nat \<Rightarrow> 64 word \<Rightarrow> string option \<times> string option \<times> nat" where
  "bfd_line bin table pa =
     (case [x. sec \<leftarrow> bfd_sections bin, sec_contains pa sec, Some x \<leftarrow> [sec_line sec table (pa - sec_vma sec)]] of
        [] \<Rightarrow> (None, None, 0)
      | x # _ \<Rightarrow> x)"

definition bfd_text :: "bfd \<Rightarrow> nat \<Rightarrow> 64 word \<Rightarrow> string" where
  "bfd_text bin table pa =
     (case bfd_line bin table pa of (file, fn, line) \<Rightarrow>
        symbol_text \<lparr>si_filename = file, si_function = fn, si_line = line, si_physAddress = pa,
          si_libraryName = bfd_filename bin\<rparr>)"

lemma first_section_line:
  "(case first_section secs table \<lparr>si_filename = None, si_function = None, si_line = 0, si_physAddress = pa, si_libraryName = []\<rparr> of
      None \<Rightarrow> \<lparr>si_filename = None, si_function = None, si_line = 0, si_physAddress = pa, si_libraryName = []\<rparr>
    | Some i \<Rightarrow> i) =
   (case (case [x. sec \<leftarrow> secs, sec_contains pa sec, Some x \<leftarrow> [sec_line sec table (pa - sec_vma sec)]] of
        [] \<Rightarrow> (None, None, 0) | x # _ \<Rightarrow> x) of (file, fn, line) \<Rightarrow>
      \<lparr>si_filename = file, si_function = fn, si_line = line, si_physAddress = pa, si_libraryName = []\<rparr>)"
proof (induction secs)
  case (Cons sec secs)
  show ?case
  proof (cases "sec_contains pa sec \<and> sec_line sec table (pa - sec_vma sec) \<noteq> None")
    case True
    then show ?thesis
      by (auto simp: find_physical_address_info_def Let_def sec_contains_def not_less not_le split: prod.splits)
  next
    case False
    then have "find_physical_address_info sec table
        \<lparr>si_filename = None, si_function = None, si_line = 0, si_physAddress = pa, si_libraryName = []\<rparr> = None"
      by (auto simp: find_physical_address_info_def Let_def sec_contains_def not_less not_le split: option.split)
    moreover have "[x. sec \<leftarrow> sec # secs, sec_contains pa sec, Some x \<leftarrow> [sec_line sec table (pa - sec_vma sec)]] =
        [x. sec \<leftarrow> secs, sec_contains pa sec, Some x \<leftarrow> [sec_line sec table (pa - sec_vma sec)]]"
      using False by (auto split: option.split)
    ultimately show ?thesis using Cons.IH by (simp only: first_section.simps option.case)
  qed
qed simp

text \<open>Measuring a text, allocating a block for it and formatting it again.\<close>

lemma snprintf_twice:
  assumes "malloc_ok malloc"
  shows "do { (len, _) \<leftarrow> snprintf [] 0 s;
              if len = 2 ^ 31 - 1 then None
              else let sz = len + 1 in
              if sz \<le> 0 then Some NULL
              else case malloc (u64 sz) of
                NULL \<Rightarrow> Some NULL
              | Ptr str \<Rightarrow> do {
                  (ret, str) \<leftarrow> snprintf str (u64 sz) s;
                  Some (if ret < 0 then NULL else Ptr str) } } =
    (if length s = 2 ^ 31 - 1 then None
     else if 2 ^ 31 \<le> length s then Some NULL
     else case malloc (length s + 1) of NULL \<Rightarrow> Some NULL | Ptr _ \<Rightarrow> Some (Ptr (s @ [NUL])))"
proof (cases "length s < 2 ^ 31 - 1")
  case False
  then consider "length s = 2 ^ 31 - 1" | "2 ^ 31 \<le> length s" by linarith
  then show ?thesis by cases (simp_all add: snprintf_def Let_def)
next
  case True
  let ?n = "length s + 1"
  have u: "u64 (int (length s) + 1) = ?n" using True u64_of_nat [of ?n] by (simp add: add.commute)
  show ?thesis
  proof (cases "malloc ?n")
    case NULL
    with True u show ?thesis by (simp add: snprintf_def Let_def)
  next
    case (Ptr b)
    then have "length b = ?n" using assms by (simp add: malloc_ok_def)
    then have "blk_copy b 0 (s @ [NUL]) = Some (s @ [NUL])" by (simp add: blk_copy_def)
    with True u Ptr show ?thesis by (simp add: snprintf_def Let_def)
  qed
qed

lemma description_of_file:
  assumes "malloc_ok malloc"
  shows "physical_addr_to_str_from_file bfd_openr malloc filename pa opened =
    (case bfd_openr filename of
       None \<Rightarrow> Some (NULL, opened)
     | Some bin \<Rightarrow>
         if \<not> bfd_is_object bin \<or> fst (read_symbols bin None) < 0 then Some (NULL, opened)
         else case snd (read_symbols bin None) of
           None \<Rightarrow> None
         | Some table \<Rightarrow>
             let text = bfd_text bin table pa in
             if length text = 2 ^ 31 - 1 then None
             else if 2 ^ 31 \<le> length text then Some (NULL, opened)
             else case malloc (length text + 1) of
               NULL \<Rightarrow> Some (NULL, opened) | Ptr _ \<Rightarrow> Some (Ptr (text @ [NUL]), opened))"
proof -
  have syms: "physical_address_to_str_from_syms malloc bin table pa =
    (if length (bfd_text bin table pa) = 2 ^ 31 - 1 then None
     else if 2 ^ 31 \<le> length (bfd_text bin table pa) then Some NULL
     else case malloc (length (bfd_text bin table pa) + 1) of
       NULL \<Rightarrow> Some NULL | Ptr _ \<Rightarrow> Some (Ptr (bfd_text bin table pa @ [NUL])))" for bin table
  proof -
    obtain path fn line where l: "bfd_line bin table pa = (path, fn, line)" by (cases "bfd_line bin table pa")
    have formatted: "bfd_text bin table pa = symbol_text (\<lparr>si_filename = path, si_function = fn, si_line = line,
        si_physAddress = pa, si_libraryName = []\<rparr>\<lparr>si_libraryName := bfd_filename bin\<rparr>)"
      by (simp add: bfd_text_def l)
    show ?thesis
      unfolding physical_address_to_str_from_syms_def symbol_info_to_str_def Let_def first_section_line
        bfd_line_def [symmetric] l prod.case formatted [symmetric]
      using snprintf_twice [OF assms, of "bfd_text bin table pa"] unfolding Let_def .
  qed
  show ?thesis
    unfolding physical_addr_to_str_from_file_def syms
    by (auto simp: Let_def split: option.split prod.split ptr.split)
qed

text \<open>
  C37: the description of an address by an object file, exactly. It is \<^verbatim>\<open>NULL\<close> when the file cannot be
  opened, is not an object file or has no symbols, when the line is too long for an \<^verbatim>\<open>int\<close> or memory does
  not suffice; otherwise it is a block that holds the formatted line of what BFD knows about the
  address and its terminator exactly, so that the second \<^verbatim>\<open>snprintf\<close> never cuts it. In each of
  these cases the file is closed again. The behaviour is undefined when BFD finds no symbol, static or dynamic,
  and has stored no table (the variable \<^verbatim>\<open>symbols\<close> is passed on and freed without a value), and when the
  line has the length of the greatest \<^verbatim>\<open>int\<close>.
\<close>
theorem description_fills_block:
  assumes "malloc_ok malloc"
  shows "physical_addr_to_str_from_file bfd_openr malloc filename pa opened =
    (case bfd_openr filename of
       None \<Rightarrow> Some (NULL, opened)
     | Some bin \<Rightarrow>
         if \<not> bfd_is_object bin \<or> fst (read_symbols bin None) < 0 then Some (NULL, opened)
         else case snd (read_symbols bin None) of
           None \<Rightarrow> None
         | Some table \<Rightarrow>
             let text = bfd_text bin table pa in
             if length text = 2 ^ 31 - 1 then None
             else if 2 ^ 31 \<le> length text then Some (NULL, opened)
             else case malloc (length text + 1) of
               NULL \<Rightarrow> Some (NULL, opened) | Ptr _ \<Rightarrow> Some (Ptr (text @ [NUL]), opened))"
  using assms by (rule description_of_file)

definition malloc_z :: "nat \<Rightarrow> char list ptr" where
  "malloc_z n = Ptr (replicate n (CHR ''z''))"

text \<open>An object file with one section and a table of symbols, and one with no symbols and no table.\<close>

definition tiny_file :: "string \<Rightarrow> bfd" where
  "tiny_file name =
     \<lparr>bfd_filename = name, bfd_is_object = True, bfd_has_syms = True, bfd_minisymbols = (\<lambda>_. (1, Some 0x600000)),
      bfd_sections = [\<lparr>sec_alloc = True, sec_vma = 0x1000, sec_size = 0x100,
        sec_line = (\<lambda>_ off. Some (Some ''a.c'', Some ''main'', unat off))\<rparr>]\<rparr>"

definition tiny_bfd :: "string \<Rightarrow> bfd option" where
  "tiny_bfd name = Some (tiny_file name)"

definition bare_bfd :: "string \<Rightarrow> bfd option" where
  "bare_bfd name = Some ((tiny_file name)\<lparr>bfd_minisymbols := (\<lambda>_. (0, None))\<rparr>)"

lemma tiny_line: "bfd_line (tiny_file name) table 0x1010 = (Some ''a.c'', Some ''main'', 16)"
  by (simp add: bfd_line_def tiny_file_def sec_contains_def)

lemma tiny_text:
  "bfd_text (tiny_file ''/bin/x'') table 0x1010 = ''[0x00000000001010] a.c:16  main() in /bin/x''"
proof -
  have "symbol_text \<lparr>si_filename = Some ''a.c'', si_function = Some ''main'', si_line = 16,
     si_physAddress = 0x1010, si_libraryName = ''/bin/x''\<rparr> = ''[0x00000000001010] a.c:16  main() in /bin/x''"
    by (simp add: symbol_text_def or_unknown_def hex_address_def HEX_ADDRESS_LEN_def)
      (simp add: hex_nat.simps dec_nat.simps, code_simp)
  moreover have "bfd_filename (tiny_file ''/bin/x'') = ''/bin/x''" by (simp add: tiny_file_def)
  ultimately show ?thesis by (simp only: bfd_text_def tiny_line prod.case)
qed

lemma tiny_symbols: "read_symbols (tiny_file name) None = (0, Some 0x600000)"
  by (simp add: read_symbols_def tiny_file_def store_symbols_def)

lemma malloc_z_ok: "malloc_ok malloc_z"
  by (auto simp: malloc_ok_def malloc_z_def)

lemma description_fills_block_witness:
  "physical_addr_to_str_from_file tiny_bfd malloc_z ''/bin/x'' 0x1010 3 =
     Some (Ptr (''[0x00000000001010] a.c:16  main() in /bin/x'' @ [NUL]), 3) \<and>
   physical_addr_to_str_from_file bare_bfd malloc_z ''/bin/x'' 0x1010 3 = None"
proof
  show "physical_addr_to_str_from_file tiny_bfd malloc_z ''/bin/x'' 0x1010 3 =
     Some (Ptr (''[0x00000000001010] a.c:16  main() in /bin/x'' @ [NUL]), 3)"
    using description_fills_block [OF malloc_z_ok, where bfd_openr = tiny_bfd and filename = "''/bin/x''" and pa = "0x1010" and opened = 3]
    by (simp add: tiny_bfd_def tiny_symbols tiny_text malloc_z_def) (simp add: tiny_file_def)
  have "read_symbols (the (bare_bfd ''/bin/x'')) None = (0, None)"
    by (simp add: read_symbols_def bare_bfd_def tiny_file_def store_symbols_def)
  then show "physical_addr_to_str_from_file bare_bfd malloc_z ''/bin/x'' 0x1010 3 = None"
    using description_fills_block [OF malloc_z_ok, where bfd_openr = bare_bfd and filename = "''/bin/x''" and pa = "0x1010" and opened = 3]
    by (simp add: bare_bfd_def) (simp add: tiny_file_def)
qed

section \<open>Crash handlers\<close>

definition crash_signals :: "signal list" where
  "crash_signals = [SIGBUS, SIGFPE, SIGILL, SIGPIPE, SIGSEGV, SIGSYS, SIGTRAP, SIGXCPU, SIGXFSZ]"

text \<open>
  The default crash handler, when it ends, has restored the default action of exactly the nine
  crash signals before it printed one line per frame, and has ended the process with the status
  128 plus the signal: the signal's default action itself is not executed.
\<close>
lemma default_crash_handler_exits:
  assumes "length (backtrace 128) = n" and "n < 2 ^ 31" and "\<And>k. can_alloc k"
    and "\<And>k. k < n \<Longrightarrow> loc self (backtrace 128 ! k) = StrCell (f k) \<and> is_str (f k)"
  shows "default_crash_handler backtrace (xcp_stacktrace_symbols (Some self) can_alloc junk loc) signum tbl =
    Some (128 + signum, map (\<lambda>k. frame_prefix (size_length n) k @ f k) [0..<n],
      \<lambda>s. if s \<in> set crash_signals then SIG_DFL else tbl s)"
proof -
  let ?w = "size_length n"
  have b: "xcp_stacktrace backtrace 128 = backtrace 128" by (simp add: xcp_stacktrace_def s32_def)
  have tbl: "snd (xcp_set_crash_handler SIG_DFL tbl) = (\<lambda>s. if s \<in> set crash_signals then SIG_DFL else tbl s)"
    by (auto simp: xcp_set_crash_handler_def crash_signals_def fun_eq_iff)
  have "stacktrace_symbols (Some self) can_alloc junk loc (backtrace 128) =
      Some (Strings (map (\<lambda>k. length (entries ?w f (Suc k) n)) [0..<n]) (entries ?w f 0 n))"
    using stacktrace_all_located [where loc = loc and self = self and junk = junk and f = f and
        can_alloc = can_alloc, OF assms(1,2,3)] assms(3,4) by simp
  moreover have "map (\<lambda>i. cstring_at (entries ?w f 0 n) (map (\<lambda>k. length (entries ?w f (Suc k) n)) [0..<n] ! i)) [0..<n]
      = map (\<lambda>k. frame_prefix ?w k @ f k) [0..<n]"
    using assms(4) by (intro map_cong) (auto simp: cstring_at_entry)
  ultimately show ?thesis
    using b tbl assms(1)
    by (simp add: default_crash_handler_def xcp_stacktrace_symbols_fd_def xcp_stacktrace_symbols_def
        XCP_ARRAY_LEN_def Let_def)
qed

lemma default_crash_handler_exits_witness:
  "default_crash_handler (\<lambda>_. [4, 7]) (xcp_stacktrace_symbols (Some ''/bin/x'') (\<lambda>_. True) (\<lambda>_. NUL) parity_loc) 11
      (\<lambda>_. DefaultCrashHandler) =
    Some (128 + 11, map (\<lambda>k. frame_prefix (size_length 2) k @ (if k = 0 then ''even'' else ''odd'')) [0..<2],
      \<lambda>s. if s \<in> set crash_signals then SIG_DFL else DefaultCrashHandler)"
  by (rule default_crash_handler_exits) (auto simp: parity_loc_def is_str_def less_2_cases_iff)

text \<open>
  With the C library's symbols the handler prints their lines, for the number of frames that
  \<^verbatim>\<open>backtrace\<close> gave, and exits in the same way.
\<close>

lemma default_crash_handler_std:
  assumes "length (backtrace 128) = n" and "n < 2 ^ 31"
    and "\<And>buf. backtrace_symbols buf (int n) = Some (Strings ptrs chars)"
  shows "default_crash_handler backtrace (std_stacktrace_symbols backtrace_symbols) signum tbl =
    Some (128 + signum, map (\<lambda>k. cstring_at chars (ptrs ! k)) [0..<n],
      snd (xcp_clear_crash_handler tbl))"
proof -
  have "xcp_stacktrace backtrace (XCP_ARRAY_LEN (128 * 8) 8) = backtrace 128"
    by (simp add: xcp_stacktrace_def s32_def XCP_ARRAY_LEN_def)
  moreover have "s32 (int n) = int n" using assms(2) by (simp add: s32_id)
  ultimately show ?thesis
    using assms(1,3)
    by (simp add: default_crash_handler_def xcp_stacktrace_symbols_fd_def std_stacktrace_symbols_def
        xcp_clear_crash_handler_def Let_def)
qed

end
