(* ===== verification/Coroutine_Sched.thy ===== *)
theory Coroutine_Sched
  imports Coroutine_Pending
begin

text \<open>
  What the coroutines promise when pending lists are used: a scheduler. The abstract machine keeps
  the stack of running coroutines, for each the coroutine that it was resumed on behalf of, the two
  queues of each as lists, and the coroutines that are suspended or have ended. The intrusive queues of
  the code implement these lists as long as a coroutine is put on at most one of them, which is
  the duty of the code that uses the library; the lemmas show that then every operation of
  \<^verbatim>\<open>src/coroutine.c\<close> gives the outcome that the abstract machine gives.
\<close>

section \<open>The abstract machine\<close>

text \<open>
  An element \<open>(x, a)\<close> of the stack is a running coroutine and the argument of the call to
  \<^verbatim>\<open>xcp_coroutine_resume\<close> that runs it; the dummy at the bottom has none.
\<close>

record sched =
  sc_stack :: "(cid \<times> cid) list"
  sc_q :: "head \<Rightarrow> cid list"
  sc_idle :: "cid set"
  sc_ended :: "cid set"

definition sc_init :: sched where
  "sc_init = \<lparr>sc_stack = [(dummy, dummy)], sc_q = (\<lambda>_. []), sc_idle = {}, sc_ended = {}\<rparr>"

abbreviation running :: "sched \<Rightarrow> cid list" where
  "running S \<equiv> map fst (sc_stack S)"

definition sc_live :: "sched \<Rightarrow> cid set" where
  "sc_live S = set (running S) \<union> sc_idle S \<union> sc_ended S"

definition queued :: "cid \<Rightarrow> sched \<Rightarrow> bool" where
  "queued a S \<longleftrightarrow> (\<exists>x \<in> set (running S). a \<in> set (sc_q S (PendingsOf x)) \<union> set (sc_q S (LocalOf x)))"

text \<open>Appending to a queue touches its last element, which must not have been freed.\<close>

definition dead_end :: "cid list \<Rightarrow> sched \<Rightarrow> bool" where
  "dead_end q S \<longleftrightarrow> q \<noteq> [] \<and> last q \<notin> sc_live S"

text \<open>
  Running a coroutine that is live but cannot run ends in an abort. The dummy merges the pending
  coroutines of the one that it has resumed with its own queue before that.
\<close>

definition sc_refuse :: "cid \<Rightarrow> sched \<Rightarrow> sched outcome" where
  "sc_refuse p S =
     (if p \<notin> sc_live S \<or>
         p = dummy \<and> sc_q S (LocalOf dummy) \<noteq> [] \<and> dead_end (sc_q S (PendingsOf (dummy_callee (running S)))) S
      then Undefined else Aborts)"

text \<open>The next turn of the resumption that the coroutine on top is in, made for \<open>a\<close>.\<close>

definition sc_next :: "cid \<Rightarrow> sched \<Rightarrow> sched outcome" where
  "sc_next a S =
     (let x = hd (running S) in
      case sc_q S (LocalOf x) of
        [] \<Rightarrow> Ok S
      | p # ps \<Rightarrow>
          if p \<in> sc_idle S then
            Ok (S\<lparr>sc_stack := (p, a) # sc_stack S, sc_q := (sc_q S)(LocalOf x := ps), sc_idle := sc_idle S - {p}\<rparr>)
          else sc_refuse p (S\<lparr>sc_q := (sc_q S)(LocalOf x := ps)\<rparr>))"

definition sc_resume :: "cid \<Rightarrow> sched \<Rightarrow> sched outcome" where
  "sc_resume a S = sc_next a (S\<lparr>sc_q := (sc_q S)(LocalOf (hd (running S)) := [a])\<rparr>)"

text \<open>\<open>c\<close> has left the stack: its pending coroutines go in front of the queue of the one below.\<close>

definition sc_merge :: "cid \<Rightarrow> sched \<Rightarrow> sched outcome" where
  "sc_merge c S =
     (let x = hd (running S) in
      if sc_q S (LocalOf x) \<noteq> [] \<and> dead_end (sc_q S (PendingsOf c)) S then Undefined
      else Ok (S\<lparr>sc_q := (sc_q S)(LocalOf x := sc_q S (PendingsOf c) @ sc_q S (LocalOf x), PendingsOf c := [])\<rparr>))"

definition sc_free :: "cid \<Rightarrow> sched \<Rightarrow> sched outcome" where
  "sc_free a S =
     (if a \<in> sc_idle S \<union> sc_ended S
      then Ok (S\<lparr>sc_idle := sc_idle S - {a}, sc_ended := sc_ended S - {a}\<rparr>) else Undefined)"

definition sc_process :: "cid \<Rightarrow> sched \<Rightarrow> sched outcome" where
  "sc_process a S =
     (let c = hd (running S) in
      if tl (sc_stack S) = [] then sc_resume a S
      else if a = c then Aborts
      else if a \<notin> sc_live S \<or> dead_end (sc_q S (PendingsOf c)) S then Undefined
      else Ok (S\<lparr>sc_q := (sc_q S)(PendingsOf c := sc_q S (PendingsOf c) @ [a])\<rparr>))"

fun sc_op :: "co_op \<Rightarrow> sched \<Rightarrow> sched outcome" where
  "sc_op (Create (Some x) (Some _) _ _) S = Ok (S\<lparr>sc_idle := insert x (sc_idle S)\<rparr>)"
| "sc_op (Create _ _ _ _) S = Ok S"
| "sc_op GetSelf S = Ok S"
| "sc_op (Resume a) S = sc_resume a S"
| "sc_op (Process a) S = sc_process a S"
| "sc_op Yield S =
     (case sc_stack S of
        (c, a) # y # r \<Rightarrow>
          obind (sc_merge c (S\<lparr>sc_stack := y # r, sc_idle := insert c (sc_idle S)\<rparr>)) (sc_next a)
      | _ \<Rightarrow> Aborts)"
| "sc_op Return S =
     (case sc_stack S of
        (c, a) # y # r \<Rightarrow>
          obind (sc_merge c (S\<lparr>sc_stack := y # r, sc_ended := insert c (sc_ended S)\<rparr>))
            (\<lambda>S. obind (sc_free a S) (sc_next a))
      | _ \<Rightarrow> Undefined)"

abbreviation sc_ops :: "co_op list \<Rightarrow> sched \<Rightarrow> sched outcome" where
  "sc_ops \<equiv> run_with sc_op"

text \<open>
  The duty of the user: only a coroutine that is on no queue is resumed or put on one. New memory
  may not be a freed coroutine that a queue still holds.
\<close>

definition allowed :: "co_op \<Rightarrow> sched \<Rightarrow> bool" where
  "allowed op S =
     (case op of
        Resume a \<Rightarrow> \<not> queued a S
      | Process a \<Rightarrow> \<not> queued a S
      | Create (Some x) _ _ _ \<Rightarrow> \<not> queued x S
      | _ \<Rightarrow> True)"

abbreviation obeys :: "co_op list \<Rightarrow> sched \<Rightarrow> bool" where
  "obeys \<equiv> dutiful allowed sc_op"

section \<open>The simulation relation\<close>

text \<open>Each coroutine below another waits in a resumption of it, made for its argument.\<close>

fun calls_for :: "(cid \<Rightarrow> coroutine option) \<Rightarrow> (cid \<times> cid) list \<Rightarrow> bool" where
  "calls_for ob ((x, a) # (y, b) # r) \<longleftrightarrow>
     (\<exists>d. ob y = Some d \<and> co_env d = InResume a x) \<and> calls_for ob ((y, b) # r)"
| "calls_for ob xs \<longleftrightarrow> True"

fun owner :: "head \<Rightarrow> cid" where
  "owner (PendingsOf x) = x"
| "owner (LocalOf x) = x"

definition queues_rel :: "costate \<Rightarrow> (head \<Rightarrow> cid list) \<Rightarrow> bool" where
  "queues_rel s q \<longleftrightarrow> (\<forall>h. stailq_holds (links s) h (q h)) \<and> (\<forall>h g. h \<noteq> g \<longrightarrow> set (q h) \<inter> set (q g) = {})"

definition sched_pre :: "costate \<Rightarrow> sched \<Rightarrow> bool" where
  "sched_pre s S \<longleftrightarrow>
     chain_inv s (running S) \<and> calls_for (objs s) (sc_stack S) \<and> queues_rel s (sc_q S) \<and>
     (\<forall>h. sc_q S h \<noteq> [] \<longrightarrow> owner h \<in> set (running S)) \<and>
     dom (objs s) = sc_live S \<and> set (running S) \<inter> (sc_idle S \<union> sc_ended S) = {} \<and>
     (\<forall>x d. x \<in> sc_idle S \<longrightarrow> objs s x = Some d \<longrightarrow> ready d) \<and>
     (\<forall>x d. x \<in> sc_ended S \<longrightarrow> objs s x = Some d \<longrightarrow> ended d)"

text \<open>Between two operations the coroutine that runs is in no resumption.\<close>

definition sched_rel :: "costate \<Rightarrow> sched \<Rightarrow> bool" where
  "sched_rel s S \<longleftrightarrow> sched_pre s S \<and> sc_q S (LocalOf (hd (running S))) = []"

abbreviation sched_outcome :: "costate outcome \<Rightarrow> sched outcome \<Rightarrow> bool" where
  "sched_outcome \<equiv> outcome_rel sched_rel"

lemma sched_preI:
  "chain_inv s (running S) \<Longrightarrow> calls_for (objs s) (sc_stack S) \<Longrightarrow> queues_rel s (sc_q S) \<Longrightarrow>
   (\<And>h. sc_q S h \<noteq> [] \<Longrightarrow> owner h \<in> set (running S)) \<Longrightarrow>
   dom (objs s) = sc_live S \<Longrightarrow> set (running S) \<inter> (sc_idle S \<union> sc_ended S) = {} \<Longrightarrow>
   (\<And>x d. x \<in> sc_idle S \<Longrightarrow> objs s x = Some d \<Longrightarrow> ready d) \<Longrightarrow>
   (\<And>x d. x \<in> sc_ended S \<Longrightarrow> objs s x = Some d \<Longrightarrow> ended d) \<Longrightarrow> sched_pre s S"
  by (simp add: sched_pre_def)

lemma sched_preD:
  assumes "sched_pre s S"
  shows "chain_inv s (running S)" "calls_for (objs s) (sc_stack S)" "queues_rel s (sc_q S)"
    "\<And>h. sc_q S h \<noteq> [] \<Longrightarrow> owner h \<in> set (running S)"
    "dom (objs s) = sc_live S" "set (running S) \<inter> (sc_idle S \<union> sc_ended S) = {}"
    "\<And>x d. x \<in> sc_idle S \<Longrightarrow> objs s x = Some d \<Longrightarrow> ready d"
    "\<And>x d. x \<in> sc_ended S \<Longrightarrow> objs s x = Some d \<Longrightarrow> ended d"
  using assms by (simp_all add: sched_pre_def)

lemma queues_relI:
  "(\<And>h. stailq_holds (links s) h (q h)) \<Longrightarrow> (\<And>h g. h \<noteq> g \<Longrightarrow> set (q h) \<inter> set (q g) = {}) \<Longrightarrow>
   queues_rel s q"
  by (simp add: queues_rel_def)

lemma queues_relD:
  assumes "queues_rel s q"
  shows "stailq_holds (links s) h (q h)" "h \<noteq> g \<Longrightarrow> set (q h) \<inter> set (q g) = {}"
  using assms by (auto simp: queues_rel_def)

lemma calls_for_cong:
  "calls_for ob xs \<Longrightarrow> (\<And>x. x \<in> set (map fst (tl xs)) \<Longrightarrow> ob' x = ob x) \<Longrightarrow> calls_for ob' xs"
  by (induction ob xs rule: calls_for.induct) (auto split: list.splits)

lemma not_queued:
  assumes "sched_pre s S" and "\<not> queued a S"
  shows "a \<notin> set (sc_q S h)"
proof
  assume a: "a \<in> set (sc_q S h)"
  then have "sc_q S h \<noteq> []" by auto
  then have "owner h \<in> set (running S)" by (rule sched_preD(4) [OF assms(1)])
  with a assms(2) show False by (cases h) (auto simp: queued_def)
qed

lemma sched_live: "sched_pre s S \<Longrightarrow> x \<in> sc_live S \<longleftrightarrow> objs s x \<noteq> None"
  using sched_preD(5) [of s S] by (metis domIff)

section \<open>One turn of the loop\<close>

lemma queues_rel_pop:
  assumes "queues_rel s q" and "q h = p # ps" and "stailq_holds m h ps"
    and "\<And>g zs. stailq_holds (links s) g zs \<Longrightarrow> g \<noteq> h \<Longrightarrow> stailq_holds m g zs"
  shows "queues_rel (t\<lparr>links := m\<rparr>) (q(h := ps))"
proof (rule queues_relI)
  show "stailq_holds (links (t\<lparr>links := m\<rparr>)) g ((q(h := ps)) g)" for g
    using assms(3,4) queues_relD(1) [OF assms(1)] by simp
  show "set ((q(h := ps)) g) \<inter> set ((q(h := ps)) g') = {}" if "g \<noteq> g'" for g g'
    using that queues_relD(2) [OF assms(1), of g g'] assms(2) by auto
qed

text \<open>A coroutine at the head of the queue that cannot run ends the process.\<close>

lemma sim_refuse:
  assumes pre: "sched_pre s S" and top: "running S = x # r" and q: "sc_q S (LocalOf x) = p # ps"
    and p: "p \<notin> sc_idle S"
  shows "resume_loop x a s = Undefined \<and> sc_next a S = Undefined \<or> resume_loop x a s = Aborts \<and> sc_next a S = Aborts"
proof -
  note inv = sched_preD(1) [OF pre, unfolded top]
  note holds = queues_relD(1) [OF sched_preD(3) [OF pre]]
  let ?S = "S\<lparr>sc_q := (sc_q S)(LocalOf x := ps)\<rparr>" and ?v = "dummy_callee (x # r)"
  from sq.remove_holds [OF holds [of "LocalOf x", unfolded q]] obtain m
    where m: "STAILQ_REMOVE_HEAD (LocalOf x) (links s) = Some m" "stailq_holds m (LocalOf x) ps" by blast
  have mh: "stailq_holds m h (sc_q ?S h)" for h
    using m(2) sq.remove_frame [OF m(1) holds [of h]] by (cases "h = LocalOf x") auto
  have live: "sc_live ?S = sc_live S" by (simp add: sc_live_def)
  have "p \<in> set (x # r) \<or> \<not> ready d" if d: "objs s p = Some d" for d
  proof (cases "p \<in> sc_ended S")
    case True
    with sched_preD(8) [OF pre _ d] show ?thesis by (simp add: ready_def ended_def)
  next
    case F: False
    have "p \<in> sc_live S" using d sched_live [OF pre] by simp
    with F p top show ?thesis by (simp add: sc_live_def)
  qed
  from loop_not_ready [OF inv holds [of "LocalOf x", unfolded q] this m(1)]
  have "resume_loop x a s = (if objs s p = None \<or> p = dummy \<and> dangling (x # r) m s then Undefined else Aborts)" .
  moreover have "dangling (x # r) m s \<longleftrightarrow> sc_q ?S (LocalOf dummy) \<noteq> [] \<and> dead_end (sc_q ?S (PendingsOf ?v)) ?S"
    using sq.is_empty_iff [OF mh [of "LocalOf dummy"]] mh [of "PendingsOf ?v"] sched_live [OF pre] live
    by (auto simp: dangling_def dead_end_def tail_live_def stailq_holds_def)
  ultimately show ?thesis
    using q p top live sched_live [OF pre, of p] by (simp add: sc_next_def sc_refuse_def)
qed

text \<open>A suspended one runs on top of the stack.\<close>

lemma pre_push:
  assumes pre: "sched_pre s S" and top: "running S = x # r" and q: "sc_q S (LocalOf x) = p # ps"
    and p: "p \<in> sc_idle S" and a: "a \<notin> set (x # r)"
    and c: "objs s x = Some c" and e: "objs s p = Some e"
    and m: "stailq_holds m (LocalOf x) ps"
      "\<And>g zs. stailq_holds (links s) g zs \<Longrightarrow> g \<noteq> LocalOf x \<Longrightarrow> stailq_holds m g zs"
  shows "sched_pre
    (s\<lparr>objs := (objs s)(p \<mapsto> e\<lparr>co_caller := Some x\<rparr>, x \<mapsto> c\<lparr>co_env := InResume a p\<rparr>), cur := Some p, links := m\<rparr>)
    (S\<lparr>sc_stack := (p, a) # sc_stack S, sc_q := (sc_q S)(LocalOf x := ps), sc_idle := sc_idle S - {p}\<rparr>)"
    (is "sched_pre ?s ?S")
proof (rule sched_preI)
  note inv = sched_preD(1) [OF pre, unfolded top]
  have rd: "ready e" using sched_preD(7) [OF pre p e] .
  have out: "p \<noteq> x" "p \<notin> set r" using sched_preD(6) [OF pre] p top by auto
  from top obtain b st where st: "sc_stack S = (x, b) # st" "map fst st = r"
    by (cases "sc_stack S") auto
  have xr: "x \<notin> set r" using inv by (simp add: chain_inv_def)
  show "chain_inv ?s (running ?S)"
    using push_chain [OF inv a e rd out c] top by (simp add: set_obj_def chain_inv_def)
  have "calls_for (objs ?s) (sc_stack S)"
    by (rule calls_for_cong [OF sched_preD(2) [OF pre]]) (use st xr out in auto)
  then show "calls_for (objs ?s) (sc_stack ?S)" using st by simp
  have "queues_rel (s\<lparr>links := m\<rparr>) ((sc_q S)(LocalOf x := ps))"
    by (rule queues_rel_pop [OF sched_preD(3) [OF pre] q m])
  then show "queues_rel ?s (sc_q ?S)" by (simp add: queues_rel_def)
  show "owner h \<in> set (running ?S)" if "sc_q ?S h \<noteq> []" for h
    using that sched_preD(4) [OF pre, of h] q by (auto split: if_splits)
  show "dom (objs ?s) = sc_live ?S"
    using sched_preD(5) [OF pre] p top by (auto simp: sc_live_def)
  show "set (running ?S) \<inter> (sc_idle ?S \<union> sc_ended ?S) = {}"
    using sched_preD(6) [OF pre] sched_preD(8) [OF pre _ e] rd by (auto simp: ready_def ended_def)
  show "ready d" if "z \<in> sc_idle ?S" "objs ?s z = Some d" for z d
    using that sched_preD(7) [OF pre, of z d] sched_preD(6) [OF pre] top by (auto split: if_splits)
  show "ended d" if "z \<in> sc_ended ?S" "objs ?s z = Some d" for z d
    using that sched_preD(8) [OF pre] sched_preD(6) [OF pre] top e rd
    by (fastforce split: if_splits simp: ready_def ended_def)
qed

lemma sim_next:
  assumes pre: "sched_pre s S" and top: "running S = x # r"
    and a: "a \<notin> set (running S) \<or> (\<exists>ps. sc_q S (LocalOf x) = a # ps)"
  shows "sched_outcome (resume_loop x a s) (sc_next a S)"
proof (cases "sc_q S (LocalOf x)")
  case Nil
  with queues_relD(1) [OF sched_preD(3) [OF pre], of "LocalOf x"] have "resume_loop x a s = Ok s"
    by (simp add: resume_loop_Nil)
  with pre Nil top show ?thesis by (simp add: sc_next_def sched_rel_def)
next
  case (Cons p ps)
  note q = queues_relD(1) [OF sched_preD(3) [OF pre], of "LocalOf x", unfolded Cons]
  show ?thesis
  proof (cases "p \<in> sc_idle S")
    case False
    from sim_refuse [OF pre top Cons False, of a] show ?thesis by auto
  next
    case True
    then have "p \<in> sc_live S" by (simp add: sc_live_def)
    with sched_live [OF pre, of p] obtain e where e: "objs s p = Some e" by auto
    from chain_inv_live [OF sched_preD(1) [OF pre, unfolded top], of x] obtain c where c: "objs s x = Some c" by auto
    have out: "p \<notin> set (x # r)" using sched_preD(6) [OF pre] True top by auto
    with a top Cons have ar: "a \<notin> set (x # r)" by auto
    from resume_loop_Cons [OF q e sched_preD(7) [OF pre True e] c, of a] out obtain m where m: "stailq_holds m (LocalOf x) ps"
      "\<And>g zs. stailq_holds (links s) g zs \<Longrightarrow> g \<noteq> LocalOf x \<Longrightarrow> stailq_holds m g zs"
      "resume_loop x a s =
       Ok (s\<lparr>objs := (objs s)(p \<mapsto> e\<lparr>co_caller := Some x\<rparr>, x \<mapsto> c\<lparr>co_env := InResume a p\<rparr>),
             cur := Some p, links := m\<rparr>)" by auto
    have "sc_q S (LocalOf p) = []" "p \<noteq> x"
      using sched_preD(4) [OF pre, of "LocalOf p"] out top by auto
    with pre_push [OF pre top Cons True ar c e m(1,2)] m(3) Cons True top
    show ?thesis by (simp add: sc_next_def sched_rel_def)
  qed
qed

section \<open>Leaving\<close>

lemma resume_after_merges:
  assumes ps: "stailq_holds (links s) (PendingsOf c) ps" and ls: "stailq_holds (links s) (LocalOf x) ls"
    and d: "objs s c = Some d"
  shows "resume_after x a c st s =
    (if ls \<noteq> [] \<and> ps \<noteq> [] \<and> objs s (last ps) = None then Undefined
     else case st of
       StatusTerminated \<Rightarrow> obind (xcp_coroutine_destroy a (merged c x s)) (resume_loop x a)
     | StatusSuspend \<Rightarrow> resume_loop x a (merged c x s)
     | StatusRunning \<Rightarrow> Aborts)"
proof -
  have "tail_live (PendingsOf c) s \<longleftrightarrow> ps = [] \<or> objs s (last ps) \<noteq> None"
    using ps by (simp add: tail_live_def stailq_holds_def)
  with d sq.is_empty_iff [OF ls] show ?thesis
    by (cases st) (auto simp: resume_after_def merge_pendings_def deref_def Let_def merged_def sq.splice_def)
qed

text \<open>
  \<open>c\<close> has left the stack to \<open>x\<close>, with the object \<open>d'\<close>, and the queues have been merged: the state and
  the abstract state before the next turn of the loop.
\<close>

definition left :: "cid \<Rightarrow> cid \<Rightarrow> coroutine \<Rightarrow> costate \<Rightarrow> costate" where
  "left c x d' s = s\<lparr>cur := Some x, objs := (objs s)(c \<mapsto> d')\<rparr>"

lemma left_simps [simp]:
  "objs (left c x d' s) = (objs s)(c \<mapsto> d')" "cur (left c x d' s) = Some x"
  "links (left c x d' s) = links s"
  by (simp_all add: left_def)

lemma queues_rel_merge:
  assumes rel: "queues_rel s q" and t: "links t = links s"
  shows "queues_rel (merged c x t) (q(LocalOf x := q (PendingsOf c) @ q (LocalOf x), PendingsOf c := []))"
proof (rule queues_relI)
  note holds = queues_relD(1) [OF rel] and apart = queues_relD(2) [OF rel]
  let ?q = "q(LocalOf x := q (PendingsOf c) @ q (LocalOf x), PendingsOf c := [])"
  have sep: "set (q (PendingsOf c)) \<inter> set (q (LocalOf x)) = {}" by (rule apart) simp
  note two = merged_holds [of t c "q (PendingsOf c)" x "q (LocalOf x)"]
  show "stailq_holds (links (merged c x t)) g (?q g)" for g
  proof -
    consider "g = LocalOf x" | "g = PendingsOf c" | "g \<noteq> LocalOf x" "g \<noteq> PendingsOf c" by blast
    then show ?thesis
    proof cases
      case 3
      have "stailq_holds (sq.splice (PendingsOf c) (LocalOf x) (links s)) g (q g)"
        by (rule sq.splice_frame [OF holds [of "PendingsOf c"] holds [of "LocalOf x"] _ sep holds])
          (use 3 apart [of "PendingsOf c" g] apart [of "LocalOf x" g] in auto)
      with 3 show ?thesis by (simp add: merged_def t)
    qed (use two holds sep t in auto)
  qed
  show "set (?q g) \<inter> set (?q g') = {}" if "g \<noteq> g'" for g g'
    using that apart [of g g'] apart [of g "PendingsOf c"] apart [of "PendingsOf c" g']
      apart [of g "LocalOf x"] apart [of "LocalOf x" g'] by (auto split: if_splits)
qed

lemma pre_leave:
  assumes rel: "sched_rel s S" and st: "sc_stack S = (c, a) # (x, b) # r"
    and S': "S' = S\<lparr>sc_stack := (x, b) # r, sc_idle := I, sc_ended := E,
      sc_q := (sc_q S)(LocalOf x := sc_q S (PendingsOf c) @ sc_q S (LocalOf x), PendingsOf c := [])\<rparr>"
    and IE: "I = insert c (sc_idle S) \<and> E = sc_ended S \<and> ready d' \<or>
      I = sc_idle S \<and> E = insert c (sc_ended S) \<and> ended d'"
  shows "sched_pre (merged c x (left c x d' s)) S'"
proof -
  from rel have pre: "sched_pre s S" and top: "sc_q S (LocalOf c) = []"
    using st by (simp_all add: sched_rel_def)
  note inv = sched_preD(1) [OF pre, unfolded st, simplified]
  then have cr: "c \<noteq> x" "c \<notin> set (map fst r)" by (auto simp: chain_inv_def)
  have c: "c \<notin> sc_idle S" "c \<notin> sc_ended S" using sched_preD(6) [OF pre] st by auto
  show ?thesis
  proof (rule sched_preI)
    have "chain_inv (left c x d' s) (x # map fst r)"
      using pop_chain [OF inv, of d'] IE by (auto simp: left_def set_obj_def)
    then show "chain_inv (merged c x (left c x d' s)) (running S')" by (simp add: S')
    have "calls_for (objs s) ((x, b) # r)"
      using sched_preD(2) [OF pre] st by simp
    then have "calls_for ((objs s)(c \<mapsto> d')) ((x, b) # r)"
      by (rule calls_for_cong) (use cr in auto)
    then show "calls_for (objs (merged c x (left c x d' s))) (sc_stack S')" by (simp add: S')
    show "queues_rel (merged c x (left c x d' s)) (sc_q S')"
      using queues_rel_merge [OF sched_preD(3) [OF pre], of "left c x d' s" c x] by (simp add: S')
    show "owner h \<in> set (running S')" if "sc_q S' h \<noteq> []" for h
      using that sched_preD(4) [OF pre, of h] top st by (cases h) (auto simp: S' split: if_splits)
    show "dom (objs (merged c x (left c x d' s))) = sc_live S'"
      using sched_preD(5) [OF pre] st IE by (auto simp: S' sc_live_def)
    show "set (running S') \<inter> (sc_idle S' \<union> sc_ended S') = {}"
      using sched_preD(6) [OF pre] st IE cr by (auto simp: S')
    show "ready d" if "z \<in> sc_idle S'" "objs (merged c x (left c x d' s)) z = Some d" for z d
      using that sched_preD(7) [OF pre, of z d] IE c by (auto simp: S' split: if_splits)
    show "ended d" if "z \<in> sc_ended S'" "objs (merged c x (left c x d' s)) z = Some d" for z d
      using that sched_preD(8) [OF pre, of z d] IE c by (auto simp: S' split: if_splits)
  qed
qed

lemma pre_free:
  assumes pre: "sched_pre s S" and a: "a \<notin> set (running S)"
  shows "sched_pre (s\<lparr>destroyed := u, objs := (objs s)(a := None)\<rparr>)
    (S\<lparr>sc_idle := sc_idle S - {a}, sc_ended := sc_ended S - {a}\<rparr>)" (is "sched_pre ?s ?S")
proof (rule sched_preI)
  show "chain_inv ?s (running ?S)"
    using destroy_inv [OF sched_preD(1) [OF pre] a] by simp
  have "set (map fst (tl (sc_stack S))) \<subseteq> set (running S)" by (cases "sc_stack S") auto
  then show "calls_for (objs ?s) (sc_stack ?S)"
    using calls_for_cong [OF sched_preD(2) [OF pre], of "(objs s)(a := None)"] a by fastforce
  show "queues_rel ?s (sc_q ?S)"
    using sched_preD(3) [OF pre] by (simp add: queues_rel_def)
  show "dom (objs ?s) = sc_live ?S"
    using sched_preD(5) [OF pre] a by (auto simp: sc_live_def)
  show "ready d" if "x \<in> sc_idle ?S" "objs ?s x = Some d" for x d
    using that sched_preD(7) [OF pre, of x d] by (auto split: if_splits)
  show "ended d" if "x \<in> sc_ended ?S" "objs ?s x = Some d" for x d
    using that sched_preD(8) [OF pre, of x d] by (auto split: if_splits)
qed (use sched_preD(4,6) [OF pre] in auto)

section \<open>The simulation, operation by operation\<close>

lemma sched_relD:
  assumes "sched_rel s S"
  shows "sched_pre s S" "sc_q S (LocalOf (hd (running S))) = []" "chain_inv s (running S)"
  using assms sched_preD(1) by (simp_all add: sched_rel_def)

lemma sched_top:
  assumes "sched_rel s S" obtains x r where "running S = x # r"
  using chain_inv_Cons [OF sched_relD(3) [OF assms]] by (elim exE)

lemma sched_running_for:
  assumes rel: "sched_rel s S" and st: "sc_stack S = (c, a) # (x, b) # r"
  shows "running_for c x a s"
proof -
  note pre = sched_relD(1) [OF rel] and inv = sched_relD(3) [OF rel, unfolded st, simplified]
  from inv obtain d where "objs s c = Some d" "co_caller d = Some x" by (auto simp: chain_inv_def)
  moreover from sched_preD(2) [OF pre, unfolded st] obtain e where
    "objs s x = Some e" "co_env e = InResume a c" by auto
  ultimately show ?thesis using get_self_eq [OF inv] by (simp add: running_for_def)
qed

text \<open>What the code and the abstract machine do when \<open>c\<close> leaves with the status \<open>st\<close>.\<close>

lemma sim_leave:
  assumes rel: "sched_rel s S" and st: "sc_stack S = (c, a) # (x, b) # r"
    and T: "T = S\<lparr>sc_stack := (x, b) # r, sc_idle := I, sc_ended := E\<rparr>"
    and IE: "I = insert c (sc_idle S) \<and> E = sc_ended S \<and> ready d' \<or>
      I = sc_idle S \<and> E = insert c (sc_ended S) \<and> ended d'"
  shows "case sc_merge c T of
      Ok U \<Rightarrow> sched_pre (merged c x (left c x d' s)) U \<and> running U = x # map fst r \<and>
        resume_after x a c sts (left c x d' s) =
          (case sts of
             StatusTerminated \<Rightarrow>
               obind (xcp_coroutine_destroy a (merged c x (left c x d' s))) (resume_loop x a)
           | StatusSuspend \<Rightarrow> resume_loop x a (merged c x (left c x d' s))
           | StatusRunning \<Rightarrow> Aborts)
    | Aborts \<Rightarrow> False
    | Undefined \<Rightarrow> resume_after x a c sts (left c x d' s) = Undefined"
proof -
  note pre = sched_relD(1) [OF rel]
  note q = queues_relD(1) [OF sched_preD(3) [OF pre]]
  let ?ps = "sc_q S (PendingsOf c)" and ?ls = "sc_q S (LocalOf x)"
  let ?U = "T\<lparr>sc_q := (sc_q T)(LocalOf x := ?ps @ ?ls, PendingsOf c := [])\<rparr>"
  have "set (running S) = insert c (insert x (fst ` set r))" using st by simp
  then have "sc_live T = sc_live S" using IE st T by (auto simp: sc_live_def)
  then have dead: "dead_end ?ps T \<longleftrightarrow> ?ps \<noteq> [] \<and> objs (left c x d' s) (last ?ps) = None"
    using sched_live [OF pre] st by (auto simp: dead_end_def sc_live_def)
  have after: "resume_after x a c sts (left c x d' s) =
    (if ?ls \<noteq> [] \<and> dead_end ?ps T then Undefined
     else case sts of
       StatusTerminated \<Rightarrow> obind (xcp_coroutine_destroy a (merged c x (left c x d' s))) (resume_loop x a)
     | StatusSuspend \<Rightarrow> resume_loop x a (merged c x (left c x d' s))
     | StatusRunning \<Rightarrow> Aborts)"
    using resume_after_merges [of "left c x d' s" c ?ps x ?ls d' a sts] q dead by simp
  have "sched_pre (merged c x (left c x d' s)) ?U"
    by (rule pre_leave [OF rel st _ IE]) (simp add: T)
  with after show ?thesis by (simp add: sc_merge_def T Let_def)
qed

lemma sched_stack_cases:
  assumes "sched_rel s S"
  obtains (main) c a where "sc_stack S = [(c, a)]" | (inner) c a x b r where "sc_stack S = (c, a) # (x, b) # r"
  using sched_relD(3) [OF assms] by (cases "sc_stack S" rule: remdups_adj.cases) (auto simp: chain_inv_def)

lemma sim_yield_sched:
  assumes rel: "sched_rel s S"
  shows "sched_outcome (xcp_coroutine_yield s) (sc_op Yield S)"
  using rel
proof (cases rule: sched_stack_cases)
  case (main c a)
  with sched_relD(3) [OF rel] main_yields [of s c] show ?thesis by simp
next
  case (inner c a x b r)
  note run = sched_running_for [OF rel inner]
  then obtain d where d: "objs s c = Some d" by (auto simp: running_for_def)
  let ?d = "d\<lparr>co_caller := None, co_env := InYield\<rparr>"
  let ?T = "S\<lparr>sc_stack := (x, b) # r, sc_idle := insert c (sc_idle S)\<rparr>"
  have inv: "chain_inv s (c # x # map fst r)" using sched_relD(3) [OF rel] inner by simp
  have T: "?T = S\<lparr>sc_stack := (x, b) # r, sc_idle := insert c (sc_idle S), sc_ended := sc_ended S\<rparr>"
    by (cases S) simp
  have leave: "case sc_merge c ?T of
      Ok U \<Rightarrow> sched_pre (merged c x (left c x ?d s)) U \<and> running U = x # map fst r \<and>
        xcp_coroutine_yield s = resume_loop x a (merged c x (left c x ?d s))
    | Aborts \<Rightarrow> False | Undefined \<Rightarrow> xcp_coroutine_yield s = Undefined"
    using sim_leave [OF rel inner T, of ?d StatusSuspend] yield_eq [OF inv run d]
    by (auto simp: left_def ready_def split: outcome.splits)
  have "a \<notin> set (x # map fst r)" using running_forD(4) [OF inv run] by simp
  then show ?thesis
    using leave sim_next [of "merged c x (left c x ?d s)" _ x "map fst r" a] inner
    by (auto split: outcome.splits)
qed

text \<open>Freeing the argument and going on.\<close>

lemma sim_free_next:
  assumes pre: "sched_pre s U" and top: "running U = x # r" and a: "a \<notin> set (x # r)"
  shows "sched_outcome (obind (xcp_coroutine_destroy a s) (resume_loop x a)) (obind (sc_free a U) (sc_next a))"
proof -
  have "dummy \<in> set (x # r)"
    by (rule call_chain_dummy [of "objs s"]) (use sched_preD(1) [OF pre] top in \<open>simp add: chain_inv_def\<close>)
  with a have a0: "a \<noteq> dummy" by metis
  have "a \<in> sc_live U \<longleftrightarrow> a \<in> sc_idle U \<union> sc_ended U" using a top by (auto simp: sc_live_def)
  with sched_live [OF pre, of a] have free: "a \<in> sc_idle U \<union> sc_ended U \<longleftrightarrow> objs s a \<noteq> None" by simp
  let ?U = "U\<lparr>sc_idle := sc_idle U - {a}, sc_ended := sc_ended U - {a}\<rparr>"
  have "sched_outcome (resume_loop x a (s\<lparr>destroyed := u, objs := (objs s)(a := None)\<rparr>)) (sc_next a ?U)" for u
    by (rule sim_next, rule pre_free [OF pre]) (use top a in auto)
  with free a0 show ?thesis
    by (auto simp: xcp_coroutine_destroy_def deref_def sc_free_def split: option.splits)
qed

lemma sim_return_sched:
  assumes rel: "sched_rel s S" and en: "enabled Return s"
  shows "sched_outcome (xcp_coroutine_run_end s) (sc_op Return S)"
  using rel
proof (cases rule: sched_stack_cases)
  case (main c a)
  with sched_relD(3) [OF rel] have "chain_inv s [c]" "c = dummy" by (auto simp: chain_inv_def)
  with en get_self_eq [of s c "[]"] show ?thesis by (simp add: enabled_def)
next
  case (inner c a x b r)
  note run = sched_running_for [OF rel inner]
  then obtain d where d: "objs s c = Some d" "co_caller d = Some x" by (auto simp: running_for_def)
  let ?d = "d\<lparr>co_env := AtEnd\<rparr>"
  let ?T = "S\<lparr>sc_stack := (x, b) # r, sc_ended := insert c (sc_ended S)\<rparr>"
  let ?s = "merged c x (left c x ?d s)"
  have inv: "chain_inv s (c # x # map fst r)" using sched_relD(3) [OF rel] inner by simp
  have T: "?T = S\<lparr>sc_stack := (x, b) # r, sc_idle := sc_idle S, sc_ended := insert c (sc_ended S)\<rparr>"
    by (cases S) simp
  have leave: "case sc_merge c ?T of
      Ok U \<Rightarrow> sched_pre ?s U \<and> running U = x # map fst r \<and>
        xcp_coroutine_run_end s = obind (xcp_coroutine_destroy a ?s) (resume_loop x a)
    | Aborts \<Rightarrow> False | Undefined \<Rightarrow> xcp_coroutine_run_end s = Undefined"
    using sim_leave [OF rel inner T, of ?d StatusTerminated] run_end_eq [OF inv run d(1)] d
    by (auto simp: left_def ended_def split: outcome.splits)
  have "a \<notin> set (x # map fst r)" using running_forD(4) [OF inv run] by simp
  then show ?thesis
    using leave sim_free_next [of ?s _ x "map fst r" a] inner by (cases "sc_merge c ?T") auto
qed

text \<open>Changing one queue, and what may change with it.\<close>

lemma pre_queue:
  assumes pre: "sched_pre s S" and h: "stailq_holds m h zs" "owner h \<in> set (running S)"
    and others: "\<And>g. g \<noteq> h \<Longrightarrow> stailq_holds m g (sc_q S g) \<and> set (sc_q S g) \<inter> set zs = {}"
  shows "sched_pre (s\<lparr>links := m\<rparr>) (S\<lparr>sc_q := (sc_q S)(h := zs)\<rparr>)" (is "sched_pre ?s ?S")
proof (rule sched_preI)
  have "queues_rel ?s ((sc_q S)(h := zs))"
  proof (rule queues_relI)
    show "stailq_holds (links ?s) g (((sc_q S)(h := zs)) g)" for g using h others by simp
    show "set (((sc_q S)(h := zs)) g) \<inter> set (((sc_q S)(h := zs)) g') = {}" if "g \<noteq> g'" for g g'
      using that others [of g] others [of g'] queues_relD(2) [OF sched_preD(3) [OF pre], of g g'] by auto
  qed
  then show "queues_rel ?s (sc_q ?S)" by simp
  show "owner g \<in> set (running ?S)" if "sc_q ?S g \<noteq> []" for g
    using that h(2) sched_preD(4) [OF pre, of g] by (auto split: if_splits)
  show "dom (objs ?s) = sc_live ?S" using sched_preD(5) [OF pre] by (simp add: sc_live_def)
qed (use sched_preD [OF pre] in auto)

lemma rel_cur: "sched_rel s S \<Longrightarrow> running S = x # r \<Longrightarrow> sched_rel (s\<lparr>cur := Some x\<rparr>) S"
  using chain_inv_cur [of s x r] by (simp add: sched_rel_def sched_pre_def queues_rel_def)

lemma sim_resume_sched:
  assumes rel: "sched_rel s S" and a: "\<not> queued a S"
  shows "sched_outcome (xcp_coroutine_resume a s) (sc_resume a S)"
proof -
  obtain x r where top: "running S = x # r" using rel by (rule sched_top)
  note inv = sched_relD(3) [OF rel, unfolded top]
  have pre: "sched_pre (s\<lparr>cur := Some x\<rparr>) S" using rel_cur [OF rel top] by (rule sched_relD(1))
  note out = not_queued [OF pre a]
  let ?m = "STAILQ_INSERT_TAIL (LocalOf x) a (STAILQ_INIT (LocalOf x) (links s))"
  let ?S = "S\<lparr>sc_q := (sc_q S)(LocalOf x := [a])\<rparr>"
  have one: "stailq_holds ?m (LocalOf x) [a]" by (rule sq.singleton_holds)
  have keep: "stailq_holds ?m g (sc_q S g)" if "g \<noteq> LocalOf x" for g
    using sq.singleton_frame [OF queues_relD(1) [OF sched_preD(3) [OF pre], of g] that] out by simp
  have "sched_pre (s\<lparr>cur := Some x, links := ?m\<rparr>) ?S"
    using pre_queue [OF pre one] keep out top by simp
  then have next': "sched_outcome (resume_loop x a (s\<lparr>cur := Some x, links := ?m\<rparr>)) (sc_next a ?S)"
    by (rule sim_next) (use top in auto)
  show ?thesis
  proof (cases "objs s a")
    case None
    with sched_live [OF pre, of a] have "a \<notin> sc_live S" by simp
    then have "sc_resume a S = Undefined"
      using top by (simp add: sc_resume_def sc_next_def sc_refuse_def sc_live_def)
    with None get_self_eq [OF inv] show ?thesis by (simp add: xcp_coroutine_resume_def deref_def)
  next
    case (Some d)
    with next' get_self_eq [OF inv] top show ?thesis
      by (simp add: xcp_coroutine_resume_def deref_def sc_resume_def)
  qed
qed

lemma sim_process_sched:
  assumes rel: "sched_rel s S" and a: "\<not> queued a S"
  shows "sched_outcome (xcp_coroutine_process a s) (sc_process a S)"
proof -
  obtain c r where top: "running S = c # r" using rel by (rule sched_top)
  note inv = sched_relD(3) [OF rel, unfolded top]
  note rel' = rel_cur [OF rel top]
  note pre = sched_relD(1) [OF rel']
  from chain_inv_live [OF inv, of c] obtain d where d: "objs s c = Some d" by auto
  have one: "tl (sc_stack S) = [] \<longleftrightarrow> r = []" using top by (cases "sc_stack S") auto
  show ?thesis
  proof (cases "r = []")
    case True
    then have "co_caller d = None" using inv d by (auto simp: chain_inv_def)
    with True one d get_self_eq [OF inv] sim_resume_sched [OF rel' a] top show ?thesis
      by (simp add: xcp_coroutine_process_def sc_process_def deref_def)
  next
    case False
    then have caller: "co_caller d \<noteq> None" using inv d by (cases r) (auto simp: chain_inv_def)
    note out = not_queued [OF pre a]
    let ?ps = "sc_q S (PendingsOf c)"
    note q = queues_relD(1) [OF sched_preD(3) [OF pre]]
    let ?m = "STAILQ_INSERT_TAIL (PendingsOf c) a (links s)"
    have tail: "tail_live (PendingsOf c) (s\<lparr>cur := Some c\<rparr>) \<longleftrightarrow> \<not> dead_end ?ps S"
      using q [of "PendingsOf c"] sched_live [OF pre] by (auto simp: tail_live_def stailq_holds_def dead_end_def)
    have grown: "stailq_holds ?m (PendingsOf c) (?ps @ [a])"
      using sq.insert_holds [OF q [of "PendingsOf c"] out] by simp
    have apart: "set ?ps \<inter> set (sc_q S g) = {}" if "g \<noteq> PendingsOf c" for g
      by (rule queues_relD(2) [OF sched_preD(3) [OF pre]]) (use that in simp)
    have keep: "stailq_holds ?m g (sc_q S g)" if "g \<noteq> PendingsOf c" for g
      using sq.insert_frame [OF q [of "PendingsOf c"] q [of g] that out apart [OF that]] by simp
    have "sched_pre (s\<lparr>cur := Some c, links := ?m\<rparr>) (S\<lparr>sc_q := (sc_q S)(PendingsOf c := ?ps @ [a])\<rparr>)"
      using pre_queue [OF pre grown] keep apart out top by auto
    then have "sched_rel (s\<lparr>cur := Some c, links := ?m\<rparr>) (S\<lparr>sc_q := (sc_q S)(PendingsOf c := ?ps @ [a])\<rparr>)"
      using sched_relD(2) [OF rel] top by (simp add: sched_rel_def)
    with tail False one d caller get_self_eq [OF inv] top sched_live [OF pre, of a] show ?thesis
      by (auto simp: xcp_coroutine_process_def sc_process_def deref_def split: option.splits)
  qed
qed

lemma pre_create:
  assumes pre: "sched_pre s S" and y: "y \<notin> sc_live S" and d: "ready d"
  shows "sched_pre (set_obj y d (s\<lparr>links := STAILQ_INIT (PendingsOf y) (links s)\<rparr>)) (S\<lparr>sc_idle := insert y (sc_idle S)\<rparr>)"
    (is "sched_pre ?s ?S")
proof (rule sched_preI)
  note inv = sched_preD(1) [OF pre]
  have out: "y \<notin> set (running S)" using y by (simp add: sc_live_def)
  then have empty: "sc_q S (PendingsOf y) = []" using sched_preD(4) [OF pre, of "PendingsOf y"] by auto
  have "call_chain ((objs s)(y \<mapsto> d)) (running S)"
    using inv out by (intro call_chain_idle) (simp_all add: chain_inv_def)
  moreover have "idle_ok ((objs s)(y \<mapsto> d)) (running S)"
    using inv d by (auto simp: chain_inv_def idle_ok_def)
  ultimately show "chain_inv ?s (running ?S)" using inv by (simp add: chain_inv_def)
  have "set (map fst (tl (sc_stack S))) \<subseteq> set (running S)" by (cases "sc_stack S") auto
  then show "calls_for (objs ?s) (sc_stack ?S)"
    using calls_for_cong [OF sched_preD(2) [OF pre], of "objs ?s"] out by fastforce
  show "queues_rel ?s (sc_q ?S)"
  proof (rule queues_relI)
    note q = queues_relD(1) [OF sched_preD(3) [OF pre]]
    show "stailq_holds (links ?s) h (sc_q ?S h)" for h
      using q [of h] sq.init_holds [of "PendingsOf y" "links s"] sq.init_frame [of "links s" h] empty
      by (cases "h = PendingsOf y") simp_all
    show "set (sc_q ?S h) \<inter> set (sc_q ?S g) = {}" if "h \<noteq> g" for h g
      using queues_relD(2) [OF sched_preD(3) [OF pre] that] by simp
  qed
  show "dom (objs ?s) = sc_live ?S" using sched_preD(5) [OF pre] by (auto simp: sc_live_def)
  show "ready e" if "v \<in> sc_idle ?S" "objs ?s v = Some e" for v e
    using that sched_preD(7) [OF pre, of v e] d by (cases "v = y") auto
  show "ended e" if "v \<in> sc_ended ?S" "objs ?s v = Some e" for v e
    using that sched_preD(8) [OF pre, of v e] y by (cases "v = y") (auto simp: sc_live_def)
  show "set (running ?S) \<inter> (sc_idle ?S \<union> sc_ended ?S) = {}" using sched_preD(6) [OF pre] out by auto
  show "owner h \<in> set (running ?S)" if "sc_q ?S h \<noteq> []" for h using that sched_preD(4) [OF pre, of h] by simp
qed

lemma sim_create_sched:
  assumes rel: "sched_rel s S" and en: "enabled (Create mem stack cb ud) s"
    and ok: "allowed (Create mem stack cb ud) S"
  shows "sched_outcome (Ok (snd (xcp_coroutine_create mem stack cb ud s))) (sc_op (Create mem stack cb ud) S)"
proof (cases "\<exists>y z. mem = Some y \<and> stack = Some z")
  case False
  then show ?thesis
    using rel by (cases mem; cases stack) (auto simp: xcp_coroutine_create_def)
next
  case True
  then obtain y z where yz: "mem = Some y" "stack = Some z" by auto
  obtain x r where top: "running S = x # r" using rel by (rule sched_top)
  note rel' = rel_cur [OF rel top]
  note pre = sched_relD(1) [OF rel']
  let ?d = "\<lparr>co_caller = None, co_stack = z, co_env = AtStart, co_cb = cb, co_arg = ud\<rparr>"
  have "y \<notin> sc_live S" using en yz sched_live [OF pre, of y] by (simp add: enabled_def)
  from pre_create [OF pre this, of ?d] have
    "sched_pre (set_obj y ?d (s\<lparr>cur := Some x, links := STAILQ_INIT (PendingsOf y) (links s)\<rparr>))
      (S\<lparr>sc_idle := insert y (sc_idle S)\<rparr>)" by (simp add: ready_def)
  moreover have "xcp_coroutine_get_thread_data s = s\<lparr>cur := Some x\<rparr>"
    using sched_relD(3) [OF rel] top
    by (cases "cur s") (simp_all add: xcp_coroutine_get_thread_data_def chain_inv_def)
  ultimately show ?thesis
    using yz sched_relD(2) [OF rel] by (simp add: xcp_coroutine_create_def sched_rel_def)
qed

lemma sim_step_sched:
  assumes rel: "sched_rel s S" and en: "enabled op s" and ok: "allowed op S"
  shows "sched_outcome (run_op op s) (sc_op op S)"
proof (cases op)
  case (Create mem stack cb ud)
  with sim_create_sched [OF rel] en ok show ?thesis by (simp add: run_op_def)
next
  case GetSelf
  obtain x r where top: "running S = x # r" using rel by (rule sched_top)
  with rel_cur [OF rel top] get_self_eq [of s x r] sched_relD(3) [OF rel] GetSelf show ?thesis
    by (simp add: run_op_def)
qed (use sim_resume_sched [OF rel] sim_yield_sched [OF rel] sim_return_sched [OF rel]
    sim_process_sched [OF rel] en ok in \<open>simp_all add: run_op_def allowed_def\<close>)

section \<open>Runs\<close>

lemma init_sched: "sched_rel co_init sc_init"
proof -
  have "queues_rel co_init (\<lambda>_. [])" by (simp add: queues_rel_def co_init_def stailq_holds_def)
  moreover have "dom (objs co_init) = {dummy}" by (simp add: co_init_def)
  ultimately show ?thesis
    using init_inv by (simp add: sched_rel_def sched_pre_def sc_init_def sc_live_def)
qed

interpretation sch: simulation run_op sc_op sched_rel enabled allowed
  by unfold_locales (rule sim_step_sched)

lemma sim_run_sched: "co_run ops s \<Longrightarrow> obeys ops sc_init \<Longrightarrow> \<exists>S. sc_ops ops sc_init = Ok S \<and> sched_rel s S"
  by (rule sch.simulates_forward [OF init_sched]) (simp_all add: co_run_iff)

end
