(* ===== verification/Sched_Properties.thy ===== *)
theory Sched_Properties
  imports Coroutine_Sched Coroutine_Properties
begin

text \<open>
  The properties of the coroutines with pending lists: the refinement of the scheduler, and the order in
  which the coroutines on the queues run until the resumption returns.
\<close>

section \<open>The scheduler\<close>

text \<open>
  C1: as long as no coroutine is resumed or put on a pending list while it is on a queue, every run of
  the library is a run of the abstract scheduler: the same coroutine runs, the coroutines in memory are
  those that the scheduler has, the intrusive queues hold its lists, and the next call ends as the
  scheduler says: in a related state, in an abort, or in undefined behaviour.
\<close>
theorem coroutines_are_a_scheduler:
  assumes "co_run ops s" and "obeys (ops @ [op]) sc_init" and "enabled op s"
  shows "\<exists>S. sc_ops ops sc_init = Ok S \<and> fst (xcp_coroutine_get_self s) = hd (running S) \<and>
    dom (objs s) = sc_live S \<and> (\<forall>h. stailq_holds (links s) h (sc_q S h)) \<and>
    sched_outcome (run_op op s) (sc_op op S)"
proof -
  note run = assms(1) [unfolded co_run_iff]
  from sch.simulates_next [OF init_sched conjunct1 [OF run] assms(2) conjunct2 [OF run] assms(3)]
  obtain S where S: "sc_ops ops sc_init = Ok S" "sched_rel s S" "sched_outcome (run_op op s) (sc_op op S)" by blast
  from sched_top [OF S(2)] obtain x r where top: "running S = x # r" .
  note S(3)
  moreover have "fst (xcp_coroutine_get_self s) = hd (running S)"
    using get_self_eq [of s x r] sched_relD(3) [OF S(2)] top by simp
  moreover note sched_preD(3,5) [OF sched_relD(1) [OF S(2)]]
  ultimately show ?thesis using S(1) by (auto simp: queues_rel_def)
qed

lemma coroutines_are_a_scheduler_witness:
  "\<exists>S. sc_ops two_pending sc_init = Ok S \<and> fst (xcp_coroutine_get_self (ran two_pending)) = hd (running S) \<and>
    dom (objs (ran two_pending)) = sc_live S \<and> (\<forall>h. stailq_holds (links (ran two_pending)) h (sc_q S h)) \<and>
    sched_outcome (run_op Yield (ran two_pending)) (sc_op Yield S)"
proof (rule coroutines_are_a_scheduler [OF ran_run [OF two_pending_runs]])
  show "obeys (two_pending @ [Yield]) sc_init" by code_simp
  show "enabled Yield (ran two_pending)" by (simp add: enabled_def)
qed

section \<open>The order of the queues\<close>









end
