(* ===== verification/Coroutine_World.thy ===== *)
theory Coroutine_World
  imports Coroutine_Inv Coroutine_Stack
begin

text \<open>
  The two halves of \<^verbatim>\<open>src/coroutine.c\<close> together: the coroutines of a thread, the address space
  that their stacks are mapped in, and the thread's signal state. Creating a coroutine maps a stack and
  puts a context on it; the stacks that a call has given to \<^verbatim>\<open>xcp_coroutine_destroy_stack\<close> are unmapped
  when it is over; and between two calls the program maps, unmaps and protects other memory as it likes.
\<close>

section \<open>The state and the operations\<close>

record world =
  w_co :: costate
  w_vm :: vm
  w_sig :: sig_thread

type_synonym mmap_call = "64 word \<Rightarrow> vm \<Rightarrow> nat option \<times> vm"
type_synonym mprotect_call = "nat \<Rightarrow> 64 word \<Rightarrow> prot \<Rightarrow> vm \<Rightarrow> int \<times> vm"
type_synonym munmap_call = "nat \<Rightarrow> 64 word \<Rightarrow> vm \<Rightarrow> vm"

text \<open>
  The whole of \<^verbatim>\<open>xcp_coroutine_create\<close>; \<open>block\<close> is what \<^verbatim>\<open>malloc\<close> gave and \<open>fails\<close> says which of the system
  calls of \<^verbatim>\<open>xcp_coroutine_init\<close> fail. \<^const>\<open>None\<close> would be waiting for ever.
\<close>

definition create_whole ::
  "mmap_call \<Rightarrow> mprotect_call \<Rightarrow> munmap_call \<Rightarrow> 64 word \<Rightarrow> (nat \<Rightarrow> bool) \<Rightarrow> cid option \<Rightarrow> nat \<Rightarrow> nat \<Rightarrow> world
    \<Rightarrow> (cid option \<times> world) outcome option" where
  "create_whole mmap mprotect munmap pageSize fails block cb userData w =
     (case block of
        None \<Rightarrow> Some (Ok (None, w))
      | Some coroutine \<Rightarrow>
          (case xcp_coroutine_create_stack mmap mprotect munmap pageSize (w_vm w) of
             (None, _, v) \<Rightarrow> Some (Ok (None, w\<lparr>w_vm := v\<rparr>))
           | (Some stack, stackSize, v) \<Rightarrow>
               (case xcp_coroutine_init fails coroutine stack stackSize (w_sig w) of
                  None \<Rightarrow> None
                | Some r \<Rightarrow> Some (obind r (\<lambda>t.
                    case xcp_coroutine_create block (Some stack) cb userData (w_co w) of
                      (res, s) \<Rightarrow> Ok (res, \<lparr>w_co = s, w_vm = v, w_sig = t\<rparr>))))))"

definition no_create :: "co_op \<Rightarrow> bool" where
  "no_create op = (case op of Create _ _ _ _ \<Rightarrow> False | _ \<Rightarrow> True)"

text \<open>The bytes of the stacks of the coroutines in memory; the dummy has none.\<close>

definition stack_bytes :: "64 word \<Rightarrow> costate \<Rightarrow> nat set" where
  "stack_bytes pageSize s =
     {z. \<exists>x c. x \<noteq> dummy \<and> objs s x = Some c \<and> in_range (co_stack c) (stack_size pageSize) z}"

inductive world_step :: "mmap_call \<Rightarrow> mprotect_call \<Rightarrow> munmap_call \<Rightarrow> 64 word \<Rightarrow> world \<Rightarrow> world \<Rightarrow> bool"
  for mmap mprotect munmap pageSize where
  create: "(\<And>x. block = Some x \<Longrightarrow> x \<noteq> dummy \<and> objs (w_co w) x = None) \<Longrightarrow>
    create_whole mmap mprotect munmap pageSize fails block cb userData w = Some (Ok (res, w')) \<Longrightarrow>
    world_step mmap mprotect munmap pageSize w w'"
| call: "no_create op \<Longrightarrow> enabled op (w_co w) \<Longrightarrow> run_op op (w_co w) = Ok t \<Longrightarrow>
    destroyed t = gone @ destroyed (w_co w) \<Longrightarrow>
    world_step mmap mprotect munmap pageSize w
      (w\<lparr>w_co := t, w_vm := foldr (xcp_coroutine_destroy_stack munmap pageSize \<circ> snd) gone (w_vm w)\<rparr>)"
| other: "(\<And>z. z \<in> stack_bytes pageSize (w_co w) \<Longrightarrow> v z = w_vm w z) \<Longrightarrow>
    world_step mmap mprotect munmap pageSize w (w\<lparr>w_vm := v\<rparr>)"

definition world_start :: "sig_thread \<Rightarrow> world \<Rightarrow> bool" where
  "world_start t0 w \<longleftrightarrow> w_co w = co_init \<and> w_sig w = t0"

abbreviation world_reachable ::
  "mmap_call \<Rightarrow> mprotect_call \<Rightarrow> munmap_call \<Rightarrow> 64 word \<Rightarrow> sig_thread \<Rightarrow> world \<Rightarrow> bool" where
  "world_reachable mmap mprotect munmap pageSize t0 \<equiv>
     reaches (world_start t0) (world_step mmap mprotect munmap pageSize)"

section \<open>What an operation does to the stacks of the coroutines\<close>

definition stacks_of :: "costate \<Rightarrow> cid \<Rightarrow> nat option" where
  "stacks_of s x = map_option co_stack (objs s x)"

definition keeps_stacks :: "costate \<Rightarrow> costate \<Rightarrow> bool" where
  "keeps_stacks s t \<longleftrightarrow> stacks_of t = stacks_of s \<and> destroyed t = destroyed s"

text \<open>A call frees at most one coroutine.\<close>

definition frees_stack :: "costate \<Rightarrow> costate \<Rightarrow> bool" where
  "frees_stack s t \<longleftrightarrow>
     (\<exists>a st. a \<noteq> dummy \<and> stacks_of s a = Some st \<and> stacks_of t = (stacks_of s)(a := None) \<and>
        destroyed t = (a, st) # destroyed s)"

lemma keeps_refl [simp]: "keeps_stacks s s"
  by (simp add: keeps_stacks_def)

lemma keeps_trans: "keeps_stacks s t \<Longrightarrow> keeps_stacks t u \<Longrightarrow> keeps_stacks s u"
  by (simp add: keeps_stacks_def)

lemma keeps_frees: "keeps_stacks s t \<Longrightarrow> frees_stack t u \<Longrightarrow> frees_stack s u"
  by (simp add: keeps_stacks_def frees_stack_def)

lemma frees_keeps: "frees_stack s t \<Longrightarrow> keeps_stacks t u \<Longrightarrow> frees_stack s u"
  by (auto simp: keeps_stacks_def frees_stack_def)

lemma keeps_set_obj:
  "objs s x = Some c \<Longrightarrow> co_stack c' = co_stack c \<Longrightarrow> keeps_stacks s (set_obj x c' s)"
  by (auto simp: keeps_stacks_def stacks_of_def set_obj_def fun_eq_iff)

lemma keeps_links [simp]: "keeps_stacks s (s\<lparr>links := m\<rparr>)" "keeps_stacks s (s\<lparr>cur := k\<rparr>)"
  by (simp_all add: keeps_stacks_def stacks_of_def fun_eq_iff)

lemma thread_data_keeps: "keeps_stacks s (xcp_coroutine_get_thread_data s)"
  by (simp add: xcp_coroutine_get_thread_data_def)

lemma get_self_keeps: "xcp_coroutine_get_self s = (x, s') \<Longrightarrow> keeps_stacks s s'"
  using thread_data_keeps by (auto simp: xcp_coroutine_get_self_def Let_def)

lemma exec_keeps:
  assumes "xcp_coroutine_exec x here y s = Ok (ctx, t)"
  shows "keeps_stacks s t"
proof -
  from assms obtain c where c: "objs s x = Some c"
    and t: "t = set_obj x (c\<lparr>co_env := here\<rparr>) (s\<lparr>cur := Some y\<rparr>)" by (auto simp: exec_Ok)
  show ?thesis unfolding t
    by (rule keeps_trans [OF keeps_links(2) keeps_set_obj]) (use c in simp_all)
qed

lemma resume_loop_keeps:
  assumes "resume_loop x a s = Ok t"
  shows "keeps_stacks s t"
proof (cases "STAILQ_EMPTY (LocalOf x) (links s)")
  case True
  with assms show ?thesis by (simp add: resume_loop_def)
next
  case False
  let ?p = "the (STAILQ_FIRST (LocalOf x) (links s))"
  let ?s = "s\<lparr>links := the (STAILQ_REMOVE_HEAD (LocalOf x) (links s))\<rparr>"
  from assms False obtain d ctx u where d: "objs s ?p = Some d"
    and ex: "xcp_coroutine_exec x (InResume a ?p) ?p (set_obj ?p (d\<lparr>co_caller := Some x\<rparr>) ?s) = Ok (ctx, u)"
    and "land_running ?p (ctx, u) = Ok t"
    by (auto simp: resume_loop_def Let_def split: if_splits)
  then have "t = u" by (simp add: land_running_Ok)
  moreover have "keeps_stacks s (set_obj ?p (d\<lparr>co_caller := Some x\<rparr>) ?s)"
    by (rule keeps_trans [OF keeps_links(1) keeps_set_obj]) (use d in simp_all)
  ultimately show ?thesis using exec_keeps [OF ex] keeps_trans by blast
qed

lemma resume_after_stacks:
  assumes "resume_after x a c st s = Ok t"
  shows "keeps_stacks s t \<or> frees_stack s t"
proof -
  let ?s = "s\<lparr>links := STAILQ_CONCAT (LocalOf x) (PendingsOf c) (STAILQ_CONCAT (PendingsOf c) (LocalOf x) (links s))\<rparr>"
  have s: "keeps_stacks s ?s" by simp
  show ?thesis
  proof (cases st)
    case StatusTerminated
    with assms obtain d where d: "a \<noteq> dummy" "objs s a = Some d"
      and run: "resume_loop x a (?s\<lparr>destroyed := (a, co_stack d) # destroyed s, objs := (objs s)(a := None)\<rparr>) = Ok t"
      by (auto simp: resume_after_def merge_pendings_def xcp_coroutine_destroy_def Let_def split: if_splits)
    have "frees_stack s (?s\<lparr>destroyed := (a, co_stack d) # destroyed s, objs := (objs s)(a := None)\<rparr>)"
      using d by (auto simp: frees_stack_def stacks_of_def fun_eq_iff)
    from frees_keeps [OF this resume_loop_keeps [OF run]] show ?thesis by simp
  next
    case StatusSuspend
    with assms have "resume_loop x a ?s = Ok t"
      by (auto simp: resume_after_def merge_pendings_def Let_def split: if_splits)
    from keeps_trans [OF s resume_loop_keeps [OF this]] show ?thesis by simp
  next
    case StatusRunning
    with assms show ?thesis by (auto simp: resume_after_def merge_pendings_def Let_def split: if_splits)
  qed
qed

lemma land_stacks:
  assumes "land x st (ctx, s) = Ok t"
  shows "keeps_stacks s t \<or> frees_stack s t"
proof (cases ctx)
  case (InResume a c)
  with assms resume_after_stacks show ?thesis by simp
qed (use assms in auto)

lemma resume_stacks:
  assumes "xcp_coroutine_resume a s = Ok t"
  shows "keeps_stacks s t"
proof -
  obtain x s' where self: "xcp_coroutine_get_self s = (x, s')" by (cases "xcp_coroutine_get_self s")
  with assms obtain m where "resume_loop x a (s'\<lparr>links := m\<rparr>) = Ok t"
    by (auto simp: xcp_coroutine_resume_def Let_def)
  from keeps_trans [OF keeps_links(1) resume_loop_keeps [OF this]] get_self_keeps [OF self]
  show ?thesis by (blast intro: keeps_trans)
qed

lemma yield_stacks:
  assumes "xcp_coroutine_yield s = Ok t"
  shows "keeps_stacks s t \<or> frees_stack s t"
proof -
  obtain x s' where self: "xcp_coroutine_get_self s = (x, s')" by (cases "xcp_coroutine_get_self s")
  with assms obtain c y ctx u where c: "objs s' x = Some c"
    and ex: "xcp_coroutine_exec x InYield y (set_obj x (c\<lparr>co_caller := None\<rparr>) s') = Ok (ctx, u)"
    and ld: "land y StatusSuspend (ctx, u) = Ok t"
    by (auto simp: xcp_coroutine_yield_def split: option.splits)
  have "keeps_stacks s' (set_obj x (c\<lparr>co_caller := None\<rparr>) s')" by (rule keeps_set_obj [OF c]) simp
  with get_self_keeps [OF self] exec_keeps [OF ex] have "keeps_stacks s u" by (blast intro: keeps_trans)
  with land_stacks [OF ld] show ?thesis using keeps_trans keeps_frees by blast
qed

lemma run_end_stacks:
  assumes "xcp_coroutine_run_end s = Ok t"
  shows "keeps_stacks s t \<or> frees_stack s t"
proof -
  obtain x s' where self: "xcp_coroutine_get_self s = (x, s')" by (cases "xcp_coroutine_get_self s")
  with assms obtain y ctx u where ex: "xcp_coroutine_exec x AtEnd y s' = Ok (ctx, u)"
    and ld: "land y StatusTerminated (ctx, u) = Ok t"
    by (auto simp: xcp_coroutine_run_end_def split: option.splits)
  have "keeps_stacks s u" using get_self_keeps [OF self] exec_keeps [OF ex] by (rule keeps_trans)
  with land_stacks [OF ld] show ?thesis using keeps_trans keeps_frees by blast
qed

lemma process_stacks:
  assumes "xcp_coroutine_process a s = Ok t"
  shows "keeps_stacks s t"
proof -
  obtain x s' where self: "xcp_coroutine_get_self s = (x, s')" by (cases "xcp_coroutine_get_self s")
  with assms consider "xcp_coroutine_resume a s' = Ok t" | m where "t = s'\<lparr>links := m\<rparr>"
    by (auto simp: xcp_coroutine_process_def split: if_splits)
  then show ?thesis
    using get_self_keeps [OF self] resume_stacks keeps_trans by cases auto
qed

lemma run_op_stacks:
  assumes "run_op op s = Ok t" and "no_create op"
  shows "keeps_stacks s t \<or> frees_stack s t"
proof (cases op)
  case GetSelf
  with assms(1) get_self_keeps [of s "fst (xcp_coroutine_get_self s)"] show ?thesis
    by (auto simp: run_op_def)
qed (use assms resume_stacks yield_stacks run_end_stacks process_stacks in
    \<open>auto simp: run_op_def no_create_def\<close>)

section \<open>The invariant\<close>

text \<open>A stack at \<open>a\<close>: a page that traps, and bytes that can be used.\<close>

definition stack_mapped :: "64 word \<Rightarrow> nat \<Rightarrow> vm \<Rightarrow> bool" where
  "stack_mapped pageSize a v \<longleftrightarrow>
     (\<forall>z. in_range a (stack_size pageSize) z \<longrightarrow>
        v z = Some (if in_range a pageSize z then PROT_NONE else PROT_READ_WRITE))"

definition ranges_apart :: "64 word \<Rightarrow> nat \<Rightarrow> nat \<Rightarrow> bool" where
  "ranges_apart n a b \<longleftrightarrow> (\<forall>z. \<not> (in_range a n z \<and> in_range b n z))"

definition stacks_ok :: "64 word \<Rightarrow> (cid \<Rightarrow> nat option) \<Rightarrow> vm \<Rightarrow> bool" where
  "stacks_ok pageSize st v \<longleftrightarrow>
     (\<forall>x a. x \<noteq> dummy \<longrightarrow> st x = Some a \<longrightarrow> stack_mapped pageSize a v) \<and>
     (\<forall>x y a b. x \<noteq> dummy \<longrightarrow> y \<noteq> dummy \<longrightarrow> x \<noteq> y \<longrightarrow> st x = Some a \<longrightarrow> st y = Some b \<longrightarrow>
        ranges_apart (stack_size pageSize) a b)"

lemma stacks_okD:
  assumes "stacks_ok pageSize st v"
  shows "x \<noteq> dummy \<Longrightarrow> st x = Some a \<Longrightarrow> stack_mapped pageSize a v"
    and "x \<noteq> dummy \<Longrightarrow> y \<noteq> dummy \<Longrightarrow> x \<noteq> y \<Longrightarrow> st x = Some a \<Longrightarrow> st y = Some b \<Longrightarrow>
      ranges_apart (stack_size pageSize) a b"
  using assms unfolding stacks_ok_def by blast+

text \<open>A new stack is mapped where nothing was, so on none of the others.\<close>

lemma page_fits: "k \<le> 40 \<Longrightarrow> unat (2 ^ k :: 64 word) \<le> unat (stack_size (2 ^ k))"
  using unat_stack_size [of k] by simp

lemma stacks_ok_create:
  assumes ok: "stacks_ok pageSize st v" and new: "has_stack pageSize a v v'"
    and page: "unat pageSize \<le> unat (stack_size pageSize)"
  shows "stacks_ok pageSize (st(x := Some a)) v'"
proof -
  let ?n = "stack_size pageSize"
  have free: "in_range a ?n z \<Longrightarrow> v z = None" for z
    using new by (simp add: has_stack_def)
  have guard: "in_range a pageSize z \<Longrightarrow> in_range a ?n z" for z
    using page by (simp add: in_range_def)
  have apart: "\<not> (in_range a ?n z \<and> in_range b ?n z)" if "y \<noteq> dummy" "st y = Some b" for y b z
    using stacks_okD(1) [OF ok that] free [of z] by (auto simp: stack_mapped_def)
  have old: "stack_mapped pageSize b v'" if "y \<noteq> dummy" "st y = Some b" for y b
  proof -
    have "v' z = v z" if "in_range b ?n z" for z
      using apart [OF \<open>y \<noteq> dummy\<close> \<open>st y = Some b\<close>, of z] that guard [of z] new by (auto simp: has_stack_def)
    with stacks_okD(1) [OF ok that] show ?thesis by (simp add: stack_mapped_def)
  qed
  have at_a: "stack_mapped pageSize a v'"
    using new by (simp add: stack_mapped_def has_stack_def)
  show ?thesis
    unfolding stacks_ok_def
  proof (intro conjI allI impI)
    show "stack_mapped pageSize b v'" if "y \<noteq> dummy" "(st(x := Some a)) y = Some b" for y b
      using that old at_a by (cases "y = x") auto
    show "ranges_apart ?n b c"
      if "y \<noteq> dummy" "z \<noteq> dummy" "y \<noteq> z" "(st(x := Some a)) y = Some b" "(st(x := Some a)) z = Some c" for y z b c
    proof -
      consider "y = x" "z \<noteq> x" | "y \<noteq> x" "z = x" | "y \<noteq> x" "z \<noteq> x" using \<open>y \<noteq> z\<close> by blast
      then show ?thesis
      proof cases
        case 1
        with that(4,5) apart [OF that(2), of c] show ?thesis by (simp add: ranges_apart_def)
      next
        case 2
        with that(4,5) apart [OF that(1), of b] show ?thesis by (simp add: ranges_apart_def) blast
      next
        case 3
        with that stacks_okD(2) [OF ok that(1-3)] show ?thesis by simp
      qed
    qed
  qed
qed

lemma stacks_ok_destroy:
  assumes ok: "stacks_ok pageSize st v" and x: "x \<noteq> dummy" "st x = Some a"
    and vm: "vm_contract pageSize mmap mprotect munmap"
  shows "stacks_ok pageSize (st(x := None)) (xcp_coroutine_destroy_stack munmap pageSize a v)"
proof -
  let ?n = "stack_size pageSize" and ?v = "xcp_coroutine_destroy_stack munmap pageSize a v"
  have same: "?v z = v z" if "\<not> in_range a ?n z" for z
    using munmap_cases [OF vm, of a v] that by (auto simp: xcp_coroutine_destroy_stack_def unmapped_def Let_def)
  show ?thesis
    unfolding stacks_ok_def
  proof (intro conjI allI impI)
    show "stack_mapped pageSize b ?v" if "y \<noteq> dummy" "(st(x := None)) y = Some b" for y b
    proof -
      have "y \<noteq> x" "st y = Some b" using that(2) by (auto split: if_splits)
      then show ?thesis
        using stacks_okD(1) [OF ok that(1)] stacks_okD(2) [OF ok that(1) x(1) _ _ x(2)] same
        by (auto simp: stack_mapped_def ranges_apart_def)
    qed
    show "ranges_apart ?n b c"
      if "y \<noteq> dummy" "z \<noteq> dummy" "y \<noteq> z" "(st(x := None)) y = Some b" "(st(x := None)) z = Some c" for y z b c
      using that stacks_okD(2) [OF ok, of y z b c] by (auto split: if_splits)
  qed
qed

lemma stacks_ok_other:
  assumes ok: "stacks_ok pageSize (stacks_of s) v"
    and same: "\<And>z. z \<in> stack_bytes pageSize s \<Longrightarrow> v' z = v z"
  shows "stacks_ok pageSize (stacks_of s) v'"
proof -
  have "stack_mapped pageSize a v'" if "x \<noteq> dummy" "stacks_of s x = Some a" for x a
  proof -
    have "z \<in> stack_bytes pageSize s" if "in_range a (stack_size pageSize) z" for z
      using that \<open>x \<noteq> dummy\<close> \<open>stacks_of s x = Some a\<close> by (auto simp: stack_bytes_def stacks_of_def)
    with stacks_okD(1) [OF ok that] same show ?thesis by (simp add: stack_mapped_def)
  qed
  with ok show ?thesis unfolding stacks_ok_def by blast
qed

text \<open>A mapping that is left behind is none of a coroutine.\<close>

lemma stacks_ok_left:
  assumes ok: "stacks_ok pageSize (stacks_of s) v" and left: "stack_left munmap pageSize a v v'"
  shows "stacks_ok pageSize (stacks_of s) v'"
proof (rule stacks_ok_other [OF ok])
  fix z
  assume "z \<in> stack_bytes pageSize s"
  then obtain x a where "x \<noteq> dummy" "stacks_of s x = Some a" "in_range a (stack_size pageSize) z"
    by (auto simp: stack_bytes_def stacks_of_def)
  with stacks_okD(1) [OF ok] have "v z \<noteq> None" by (auto simp: stack_mapped_def)
  with left [unfolded stack_left_def, THEN conjunct1, THEN spec, of z] show "v' z = v z" by (auto split: if_splits)
qed

text \<open>The signal state is that of the beginning, and each context lies on the stack of its coroutine.\<close>

definition sig_ok :: "sig_thread \<Rightarrow> (cid \<Rightarrow> nat option) \<Rightarrow> sig_thread \<Rightarrow> bool" where
  "sig_ok t0 st t \<longleftrightarrow> sig_mask t = sig_mask t0 \<and> usr1 t = usr1 t0 \<and> alt_stack t = alt_stack t0 \<and>
     (\<forall>x a. x \<noteq> dummy \<longrightarrow> st x = Some a \<longrightarrow> co_env_on t x = Some a)"

lemma create_stacks:
  "xcp_coroutine_create (Some x) (Some a) cb ud s = (res, t) \<Longrightarrow> res = Some x \<and> stacks_of t = (stacks_of s)(x := Some a)"
  using thread_data_keeps [of s]
  by (auto simp: xcp_coroutine_create_def stacks_of_def keeps_stacks_def fun_eq_iff)

lemma init_effect:
  "xcp_coroutine_init fails x a n t = Some (Ok t') \<Longrightarrow> sig_mask t' = sig_mask t \<and> usr1 t' = usr1 t \<and>
     alt_stack t' = alt_stack t \<and> co_env_on t' = (co_env_on t)(x \<mapsto> a)"
  by (auto simp: xcp_coroutine_init_def Let_def wait_called_delivers xcp_coroutine_trampoline_def run_to_start_def
      split: if_splits)

text \<open>The wait for the handler always ends; only a failing system call makes the process abort.\<close>

lemma init_returns:
  "\<exists>r. xcp_coroutine_init fails x a n t = Some r \<and> r \<noteq> Undefined \<and> (r = Aborts \<longrightarrow> (\<exists>i \<in> {1..7}. fails i))"
  by (simp add: xcp_coroutine_init_def Let_def wait_called_delivers xcp_coroutine_trampoline_def run_to_start_def)
    (auto intro: bexI [of _ 1] bexI [of _ 2] bexI [of _ 3] bexI [of _ 4] bexI [of _ 5] bexI [of _ 6] bexI [of _ 7])

definition world_ok :: "64 word \<Rightarrow> sig_thread \<Rightarrow> world \<Rightarrow> bool" where
  "world_ok pageSize t0 w \<longleftrightarrow> co_reachable (w_co w) \<and>
     stacks_ok pageSize (stacks_of (w_co w)) (w_vm w) \<and> sig_ok t0 (stacks_of (w_co w)) (w_sig w)"

lemma create_ok:
  assumes vm: "vm_contract (2 ^ k) mmap mprotect munmap" and k: "k \<le> 40" and ok: "world_ok (2 ^ k) t0 w"
    and new: "\<And>x. block = Some x \<Longrightarrow> x \<noteq> dummy \<and> objs (w_co w) x = None"
    and run: "create_whole mmap mprotect munmap (2 ^ k) fails block cb userData w = Some (Ok (res, w'))"
  shows "world_ok (2 ^ k) t0 w'"
proof (cases block)
  case None
  with run ok show ?thesis by (simp add: create_whole_def)
next
  case (Some x)
  obtain st n v where cs: "xcp_coroutine_create_stack mmap mprotect munmap (2 ^ k) (w_vm w) = (st, n, v)"
    by (rule prod_cases3)
  note stack = create_stack_ok [OF vm k, of "w_vm w", unfolded cs]
  show ?thesis
  proof (cases st)
    case None
    with stack have "v = w_vm w \<or> (\<exists>a. stack_left munmap (2 ^ k) a (w_vm w) v)" by simp
    with ok have "stacks_ok (2 ^ k) (stacks_of (w_co w)) v" by (auto simp: world_ok_def intro: stacks_ok_left)
    with None run Some cs ok show ?thesis by (auto simp: create_whole_def world_ok_def)
  next
    case st: (Some a)
    obtain s res' where create': "xcp_coroutine_create (Some x) (Some a) cb userData (w_co w) = (res', s)"
      by (cases "xcp_coroutine_create (Some x) (Some a) cb userData (w_co w)")
    have whole: "create_whole mmap mprotect munmap (2 ^ k) fails block cb userData w =
        (case xcp_coroutine_init fails x a n (w_sig w) of
           None \<Rightarrow> None
         | Some r \<Rightarrow> Some (obind r (\<lambda>t. Ok (res', \<lparr>w_co = s, w_vm = v, w_sig = t\<rparr>))))"
      using Some cs st create' by (simp add: create_whole_def split: option.split)
    from run whole obtain t where init: "xcp_coroutine_init fails x a n (w_sig w) = Some (Ok t)"
      and w': "res = res'" "w' = \<lparr>w_co = s, w_vm = v, w_sig = t\<rparr>"
      by (auto split: option.splits)
    note create = create' [folded w'(1)]
    have "enabled (Create (Some x) (Some a) cb userData) (w_co w)"
      using new Some by (simp add: enabled_def)
    moreover have "run_op (Create (Some x) (Some a) cb userData) (w_co w) = Ok s"
      using create by (simp add: run_op_def)
    ultimately have "co_reachable s"
      using ok by (auto simp: world_ok_def intro: reaches.step co_step.op)
    moreover have st_s: "stacks_of s = (stacks_of (w_co w))(x := Some a)"
      using create_stacks [OF create] by simp
    moreover have "has_stack (2 ^ k) a (w_vm w) v" using stack st by simp
    then have "stacks_ok (2 ^ k) (stacks_of s) v"
      using stacks_ok_create [OF _ _ page_fits [OF k], where x = x] ok st_s by (auto simp: world_ok_def)
    moreover have "sig_ok t0 (stacks_of s) t"
      using ok st_s init_effect [OF init] by (simp add: world_ok_def sig_ok_def)
    ultimately show ?thesis using w'(2) by (simp add: world_ok_def)
  qed
qed

lemma call_ok:
  assumes vm: "vm_contract pageSize mmap mprotect munmap" and ok: "world_ok pageSize t0 w"
    and op: "no_create op" "enabled op (w_co w)" "run_op op (w_co w) = Ok t"
    and gone: "destroyed t = gone @ destroyed (w_co w)"
  shows "world_ok pageSize t0
    (w\<lparr>w_co := t, w_vm := foldr (xcp_coroutine_destroy_stack munmap pageSize \<circ> snd) gone (w_vm w)\<rparr>)"
proof -
  have reach: "co_reachable t"
    using ok op by (auto simp: world_ok_def intro: reaches.step co_step.op)
  from run_op_stacks [OF op(3,1)] show ?thesis
  proof
    assume "keeps_stacks (w_co w) t"
    then have "gone = []" "stacks_of t = stacks_of (w_co w)" using gone by (simp_all add: keeps_stacks_def)
    with ok reach show ?thesis by (simp add: world_ok_def)
  next
    assume "frees_stack (w_co w) t"
    then obtain x a where x: "x \<noteq> dummy" "stacks_of (w_co w) x = Some a"
      and t: "stacks_of t = (stacks_of (w_co w))(x := None)" "gone = [(x, a)]"
      using gone by (auto simp: frees_stack_def)
    from ok have "stacks_ok pageSize (stacks_of (w_co w)) (w_vm w)" by (simp add: world_ok_def)
    from stacks_ok_destroy [where st = "stacks_of (w_co w)", OF this x vm] ok reach t show ?thesis
      by (auto simp: world_ok_def sig_ok_def)
  qed
qed

lemma world_ok_reachable:
  assumes vm: "vm_contract (2 ^ k) mmap mprotect munmap" and k: "k \<le> 40"
  shows "world_reachable mmap mprotect munmap (2 ^ k) t0 w \<Longrightarrow> world_ok (2 ^ k) t0 w"
proof (rule invariant.always [where I = "world_ok (2 ^ k) t0"], unfold_locales)
  fix w w'
  have "x = dummy" if "stacks_of co_init x = Some a" for x a
    using that by (auto simp: stacks_of_def co_init_def split: if_splits)
  then show "world_ok (2 ^ k) t0 w" if "world_start t0 w"
    using reaches_refl that
    by (auto simp: world_start_def world_ok_def stacks_ok_def sig_ok_def)
  assume ok: "world_ok (2 ^ k) t0 w"
  assume "world_step mmap mprotect munmap (2 ^ k) w w'"
  then show "world_ok (2 ^ k) t0 w'"
  proof cases
    case create
    from create_ok [OF vm k ok create(1,2)] show ?thesis .
  next
    case call
    from call_ok [OF vm ok call(2-5)] call(1) show ?thesis by simp
  next
    case (other v)
    with ok stacks_ok_other [of "2 ^ k" "w_co w" "w_vm w" v] show ?thesis by (simp add: world_ok_def)
  qed
qed

end
