(* ===== verification/World_Properties.thy ===== *)
theory World_Properties
  imports Coroutine_World Stack_Properties
begin

text \<open>The properties of coroutines together with their stacks and the signal state of the thread.\<close>

text \<open>
  C4: in every state of a thread that creates, resumes and finishes coroutines in any way, and maps and
  unmaps other memory in between, the running coroutine is live, and each coroutine in memory has its
  whole stack mapped, with the page that traps at its lower end and its first context on it; no two stacks
  share a byte; and the signal mask, the action for \<^verbatim>\<open>SIGUSR1\<close> and the alternate stack are those of the start.
\<close>
theorem stacks_stay_mapped:
  assumes "vm_contract (2 ^ k) mmap mprotect munmap" and "k \<le> 40"
    and "world_reachable mmap mprotect munmap (2 ^ k) t0 w"
  shows "objs (w_co w) (fst (xcp_coroutine_get_self (w_co w))) \<noteq> None \<and>
    (\<forall>x c. x \<noteq> dummy \<longrightarrow> objs (w_co w) x = Some c \<longrightarrow>
      (\<forall>z. in_range (co_stack c) (stack_size (2 ^ k)) z \<longrightarrow>
         w_vm w z = Some (if in_range (co_stack c) (2 ^ k) z then PROT_NONE else PROT_READ_WRITE)) \<and>
      co_env_on (w_sig w) x = Some (co_stack c)) \<and>
    (\<forall>x y c d z. x \<noteq> dummy \<longrightarrow> y \<noteq> dummy \<longrightarrow> x \<noteq> y \<longrightarrow>
      objs (w_co w) x = Some c \<longrightarrow> objs (w_co w) y = Some d \<longrightarrow>
      \<not> (in_range (co_stack c) (stack_size (2 ^ k)) z \<and> in_range (co_stack d) (stack_size (2 ^ k)) z)) \<and>
    sig_mask (w_sig w) = sig_mask t0 \<and> usr1 (w_sig w) = usr1 t0 \<and> alt_stack (w_sig w) = alt_stack t0"
proof -
  from world_ok_reachable [OF assms] have reach: "co_reachable (w_co w)"
    and st: "stacks_ok (2 ^ k) (stacks_of (w_co w)) (w_vm w)"
    and sg: "sig_ok t0 (stacks_of (w_co w)) (w_sig w)" by (simp_all add: world_ok_def)
  have has: "stacks_of (w_co w) x = Some (co_stack c)" if "objs (w_co w) x = Some c" for x c
    using that by (simp add: stacks_of_def)
  from reachable_inv [OF reach] obtain y r where inv: "chain_inv (w_co w) (y # r)" by auto
  have self: "objs (w_co w) (fst (xcp_coroutine_get_self (w_co w))) \<noteq> None"
    using chain_inv_live [OF inv, of y] get_self_eq [OF inv] by auto
  have own: "w_vm w z = Some (if in_range (co_stack c) (2 ^ k) z then PROT_NONE else PROT_READ_WRITE)"
    if "x \<noteq> dummy" "objs (w_co w) x = Some c" "in_range (co_stack c) (stack_size (2 ^ k)) z" for x c z
    using stacks_okD(1) [OF st that(1) has [OF that(2)]] that(3) by (simp only: stack_mapped_def)
  have env: "co_env_on (w_sig w) x = Some (co_stack c)" if "x \<noteq> dummy" "objs (w_co w) x = Some c" for x c
    using sg that has [OF that(2)] unfolding sig_ok_def by metis
  have apart: "\<not> (in_range (co_stack c) (stack_size (2 ^ k)) z \<and> in_range (co_stack d) (stack_size (2 ^ k)) z)"
    if "x \<noteq> dummy" "y \<noteq> dummy" "x \<noteq> y" "objs (w_co w) x = Some c" "objs (w_co w) y = Some d" for x y c d z
    using stacks_okD(2) [OF st that(1-3) has [OF that(4)] has [OF that(5)]] unfolding ranges_apart_def by blast
  from sg have "sig_mask (w_sig w) = sig_mask t0" "usr1 (w_sig w) = usr1 t0" "alt_stack (w_sig w) = alt_stack t0"
    unfolding sig_ok_def by simp_all
  then show ?thesis
    by (intro conjI allI impI) (rule self own env apart; assumption)+
qed

text \<open>A thread that has created one coroutine, at address 1.\<close>

definition sig_start :: sig_thread where
  "sig_start = \<lparr>tr_env = None, tr_called = False, tr_coroutine = 0, sig_mask = {}, usr1 = OldAction 0,
     alt_stack = None, usr1_pending = False, co_env_on = (\<lambda>_. None)\<rparr>"

definition world_zero :: world where
  "world_zero = \<lparr>w_co = co_init, w_vm = (\<lambda>_. None), w_sig = sig_start\<rparr>"

lemma one_created:
  "\<exists>w. create_whole mmap_at mprotect_ok munmap_ok (2 ^ 12) (\<lambda>_. False) (Some 1) 0 0 world_zero = Some (Ok (Some 1, w))"
  by (simp add: create_whole_def world_zero_def xcp_coroutine_create_stack_def mmap_at_def mprotect_ok_def Let_def
      xcp_coroutine_init_def wait_called_delivers xcp_coroutine_trampoline_def run_to_start_def xcp_coroutine_create_def)

definition world_one :: world where
  "world_one =
     (case create_whole mmap_at mprotect_ok munmap_ok (2 ^ 12) (\<lambda>_. False) (Some 1) 0 0 world_zero of
        Some (Ok (_, w)) \<Rightarrow> w | _ \<Rightarrow> world_zero)"

lemma world_one_reachable: "world_reachable mmap_at mprotect_ok munmap_ok (2 ^ 12) sig_start world_one"
proof (rule reaches.step)
  show "world_reachable mmap_at mprotect_ok munmap_ok (2 ^ 12) sig_start world_zero"
    by (rule reaches.start) (simp add: world_zero_def world_start_def)
  have "create_whole mmap_at mprotect_ok munmap_ok (2 ^ 12) (\<lambda>_. False) (Some 1) 0 0 world_zero =
      Some (Ok (Some 1, world_one))"
    using one_created by (auto simp: world_one_def)
  then show "world_step mmap_at mprotect_ok munmap_ok (2 ^ 12) world_zero world_one"
    by (rule world_step.create [rotated]) (simp add: world_zero_def co_init_def)
qed

lemma stacks_stay_mapped_witness:
  "objs (w_co world_one) (fst (xcp_coroutine_get_self (w_co world_one))) \<noteq> None \<and>
    sig_mask (w_sig world_one) = {} \<and> alt_stack (w_sig world_one) = None"
  using stacks_stay_mapped [OF vm_contract_at _ world_one_reachable] by (simp add: sig_start_def)

text \<open>
  C22: \<^verbatim>\<open>xcp_coroutine_create\<close>, run while no other thread changes the action for \<^verbatim>\<open>SIGUSR1\<close> (C5 is about
  threads that do), does not wait for ever and aborts only when a system call of the initialisation fails.
  It gives \<^verbatim>\<open>NULL\<close> when memory or a stack cannot be had; the coroutines and the signal state are then as
  before, and so is the address space, unless \<^verbatim>\<open>munmap\<close> failed on the new mapping: only that one is left.
  Otherwise the new coroutine, with empty pending list, can be resumed, and no other coroutine has changed.
\<close>
theorem create_outcomes:
  assumes "vm_contract (2 ^ k) mmap mprotect munmap" and "k \<le> 40"
  shows "case create_whole mmap mprotect munmap (2 ^ k) fails block cb userData w of
      None \<Rightarrow> False
    | Some Undefined \<Rightarrow> False
    | Some Aborts \<Rightarrow> \<exists>i \<in> {1..7}. fails i
    | Some (Ok (None, w')) \<Rightarrow> w' = w \<or> (\<exists>a v. w' = w\<lparr>w_vm := v\<rparr> \<and> stack_left munmap (2 ^ k) a (w_vm w) v)
    | Some (Ok (Some x, w')) \<Rightarrow> block = Some x \<and>
        (\<exists>c. objs (w_co w') x = Some c \<and> ready c \<and> has_stack (2 ^ k) (co_stack c) (w_vm w) (w_vm w')) \<and>
        stailq_holds (links (w_co w')) (PendingsOf x) [] \<and>
        (\<forall>y. y \<noteq> x \<longrightarrow> objs (w_co w') y = objs (w_co w) y)"
proof (cases block)
  case None
  then show ?thesis by (simp add: create_whole_def)
next
  case (Some x)
  obtain st n v where cs: "xcp_coroutine_create_stack mmap mprotect munmap (2 ^ k) (w_vm w) = (st, n, v)"
    by (rule prod_cases3)
  note stack = create_stack_ok [OF assms, of "w_vm w", unfolded cs]
  show ?thesis
  proof (cases st)
    case None
    with stack Some cs show ?thesis by (cases w) (auto simp: create_whole_def)
  next
    case st: (Some a)
    obtain r where init: "xcp_coroutine_init fails x a n (w_sig w) = Some r"
      and r: "r \<noteq> Undefined" "r = Aborts \<Longrightarrow> \<exists>i \<in> {1..7}. fails i"
      using init_returns [of fails x a n "w_sig w"] by blast
    have "xcp_coroutine_create (Some x) (Some a) cb userData s =
      (Some x, set_obj x \<lparr>co_caller = None, co_stack = a, co_env = AtStart, co_cb = cb, co_arg = userData\<rparr>
         ((xcp_coroutine_get_thread_data s)\<lparr>links := STAILQ_INIT (PendingsOf x) (links s)\<rparr>))" for s
      by (simp add: xcp_coroutine_create_def)
    moreover have "objs (xcp_coroutine_get_thread_data s) = objs s" for s
      by (simp add: xcp_coroutine_get_thread_data_def)
    ultimately show ?thesis
      using Some cs st stack init r sq.init_holds [of "PendingsOf x" "links (w_co w)"]
      by (cases r) (auto simp: create_whole_def ready_def)
  qed
qed

text \<open>A \<^verbatim>\<open>mprotect\<close> and a \<^verbatim>\<open>munmap\<close> that fail: a process with too many mappings.\<close>

definition mprotect_no :: "nat \<Rightarrow> 64 word \<Rightarrow> prot \<Rightarrow> vm \<Rightarrow> int \<times> vm" where
  "mprotect_no a n p v = (- 1, v)"

definition munmap_no :: "nat \<Rightarrow> 64 word \<Rightarrow> vm \<Rightarrow> vm" where
  "munmap_no a n v = v"

lemma vm_contract_no: "vm_contract pageSize mmap_at mprotect_no munmap_no"
  by (simp add: vm_contract_def mmap_at_def mprotect_no_def munmap_no_def)

lemma create_outcomes_witness:
  "(\<exists>w. create_whole mmap_at mprotect_ok munmap_ok (2 ^ 12) (\<lambda>_. False) (Some 1) 0 0 world_zero = Some (Ok (Some 1, w)) \<and>
      (\<exists>c. objs (w_co w) 1 = Some c \<and> ready c \<and> has_stack (2 ^ 12) (co_stack c) (\<lambda>_. None) (w_vm w))) \<and>
    (\<exists>a v. stack_left munmap_no (2 ^ 12) a (\<lambda>_. None) v \<and>
      create_whole mmap_at mprotect_no munmap_no (2 ^ 12) (\<lambda>_. False) (Some 1) 0 0 world_zero =
        Some (Ok (None, world_zero\<lparr>w_vm := v\<rparr>)))"
proof
  obtain w where w: "create_whole mmap_at mprotect_ok munmap_ok (2 ^ 12) (\<lambda>_. False) (Some 1) 0 0 world_zero =
      Some (Ok (Some 1, w))"
    using one_created by blast
  from create_outcomes [OF vm_contract_at, where k = 12 and fails = "\<lambda>_. False" and block = "Some 1"
      and cb = 0 and userData = 0 and w = world_zero, unfolded w] w
  show "\<exists>w. create_whole mmap_at mprotect_ok munmap_ok (2 ^ 12) (\<lambda>_. False) (Some 1) 0 0 world_zero = Some (Ok (Some 1, w)) \<and>
      (\<exists>c. objs (w_co w) 1 = Some c \<and> ready c \<and> has_stack (2 ^ 12) (co_stack c) (\<lambda>_. None) (w_vm w))"
    by (auto simp: world_zero_def)
  have "0 < unat (stack_size (2 ^ 12))" using unat_stack_size [of 12] by simp
  then obtain u where u: "create_whole mmap_at mprotect_no munmap_no (2 ^ 12) (\<lambda>_. False) (Some 1) 0 0 world_zero =
      Some (Ok (None, u))" and diff: "w_vm u 1073741824 \<noteq> None"
    by (simp add: create_whole_def world_zero_def xcp_coroutine_create_stack_def mmap_at_def mprotect_no_def
        munmap_no_def Let_def in_range_def)
  from create_outcomes [OF vm_contract_no, where k = 12 and fails = "\<lambda>_. False" and block = "Some 1"
      and cb = 0 and userData = 0 and w = world_zero, unfolded u] diff u
  show "\<exists>a v. stack_left munmap_no (2 ^ 12) a (\<lambda>_. None) v \<and>
      create_whole mmap_at mprotect_no munmap_no (2 ^ 12) (\<lambda>_. False) (Some 1) 0 0 world_zero =
        Some (Ok (None, world_zero\<lparr>w_vm := v\<rparr>))"
    by (auto simp: world_zero_def)
qed

end
