(* ===== verification/Coroutine_Threads.thy ===== *)
theory Coroutine_Threads
  imports Coroutine_World
begin

text \<open>
  \<^verbatim>\<open>xcp_coroutine_init\<close> step by step, one step per system call, and several threads that are in it at
  the same time. The mask, the alternate stack, a signal sent with \<^verbatim>\<open>pthread_kill\<close> and the trampoline data
  belong to a thread; the action for \<^verbatim>\<open>SIGUSR1\<close> belongs to the process.
\<close>

section \<open>The steps of one thread\<close>

text \<open>
  Where a thread is in \<^verbatim>\<open>xcp_coroutine_init\<close>: before \<^verbatim>\<open>pthread_sigmask\<close> (1), \<^verbatim>\<open>sigaction\<close> (2), \<^verbatim>\<open>sigaltstack\<close>
  (3), \<^verbatim>\<open>pthread_kill\<close> (4), in the loop around \<^verbatim>\<open>sigsuspend\<close>, before the four calls that restore the state (6),
  before the jump to the trampoline (8), and behind it (12).
\<close>

datatype init_pc =
    Block | Install | SetAlt | Kill | Wait | DisableAlt | RestoreAlt | RestoreAction | RestoreMask | Jump | Finished

text \<open>The arguments and the local variables of a call.\<close>

record init_frame =
  pc :: init_pc
  arg_coroutine :: cid
  arg_stack :: nat
  arg_size :: "64 word"
  old_set :: "nat set"
  old_sa :: usr1_action
  old_ss :: "(nat \<times> 64 word) option"

definition init_entry :: "cid \<Rightarrow> nat \<Rightarrow> 64 word \<Rightarrow> init_frame" where
  "init_entry coroutine stack stackSize =
     \<lparr>pc = Block, arg_coroutine = coroutine, arg_stack = stack, arg_size = stackSize,
      old_set = {}, old_sa = OldAction 0, old_ss = None\<rparr>"

abbreviation SIG_DFL_USR1 :: usr1_action where
  "SIG_DFL_USR1 \<equiv> OldAction 0"

text \<open>
  The loop around \<^verbatim>\<open>sigsuspend\<close>: it is left when the trampoline has been called. A pending signal is
  delivered to the action that the process has now: the trampoline, the default action, which ends the
  process, or another handler, after which the loop goes on. Without a pending signal the thread sleeps.
\<close>

definition wait_step :: "init_frame \<Rightarrow> sig_thread \<Rightarrow> (init_frame \<times> sig_thread) outcome" where
  "wait_step f t =
     (if tr_called t then Ok (f\<lparr>pc := DisableAlt\<rparr>, t)
      else if \<not> usr1_pending t then Ok (f, t)
      else if usr1 t = Trampoline then Ok (f, xcp_coroutine_trampoline (t\<lparr>usr1_pending := False\<rparr>))
      else if usr1 t = SIG_DFL_USR1 then Aborts
      else Ok (f, t\<lparr>usr1_pending := False\<rparr>))"

definition init_step :: "(nat \<Rightarrow> bool) \<Rightarrow> init_frame \<Rightarrow> sig_thread \<Rightarrow> (init_frame \<times> sig_thread) outcome" where
  "init_step fails f t =
     (case pc f of
        Block \<Rightarrow> if fails 1 then Aborts
          else Ok (f\<lparr>pc := Install, old_set := sig_mask t\<rparr>, t\<lparr>sig_mask := insert SIGUSR1 (sig_mask t)\<rparr>)
      | Install \<Rightarrow> if fails 2 then Aborts
          else Ok (f\<lparr>pc := SetAlt, old_sa := usr1 t\<rparr>, t\<lparr>usr1 := Trampoline\<rparr>)
      | SetAlt \<Rightarrow> if fails 3 then Aborts
          else Ok (f\<lparr>pc := Kill, old_ss := alt_stack t\<rparr>, t\<lparr>alt_stack := Some (arg_stack f, arg_size f)\<rparr>)
      | Kill \<Rightarrow> Ok (f\<lparr>pc := Wait\<rparr>, t\<lparr>tr_called := False, tr_coroutine := arg_coroutine f, usr1_pending := True\<rparr>)
      | Wait \<Rightarrow> wait_step f t
      | DisableAlt \<Rightarrow> if fails 4 then Aborts else Ok (f\<lparr>pc := RestoreAlt\<rparr>, t\<lparr>alt_stack := None\<rparr>)
      | RestoreAlt \<Rightarrow> if fails 5 then Aborts else Ok (f\<lparr>pc := RestoreAction\<rparr>, t\<lparr>alt_stack := old_ss f\<rparr>)
      | RestoreAction \<Rightarrow> if fails 6 then Aborts else Ok (f\<lparr>pc := RestoreMask\<rparr>, t\<lparr>usr1 := old_sa f\<rparr>)
      | RestoreMask \<Rightarrow> if fails 7 then Aborts else Ok (f\<lparr>pc := Jump\<rparr>, t\<lparr>sig_mask := old_set f\<rparr>)
      | Jump \<Rightarrow> obind (run_to_start t) (\<lambda>t. Ok (f\<lparr>pc := Finished\<rparr>, t))
      | Finished \<Rightarrow> Ok (f, t))"

fun init_steps :: "(nat \<Rightarrow> bool) \<Rightarrow> nat \<Rightarrow> init_frame \<Rightarrow> sig_thread \<Rightarrow> (init_frame \<times> sig_thread) outcome" where
  "init_steps fails 0 f t = Ok (f, t)"
| "init_steps fails (Suc n) f t = obind (init_step fails f t) (\<lambda>(f, t). init_steps fails n f t)"

text \<open>
  A thread that nobody disturbs takes eleven steps, and they are \<^const>\<open>xcp_coroutine_init\<close>.
\<close>

lemma eleven_steps:
  "init_steps fails 11 (init_entry c st n) t =
     (case xcp_coroutine_init fails c st n t of
        None \<Rightarrow> Undefined
      | Some r \<Rightarrow> obind r (\<lambda>t'. Ok
          (\<lparr>pc = Finished, arg_coroutine = c, arg_stack = st, arg_size = n, old_set = sig_mask t,
            old_sa = usr1 t, old_ss = alt_stack t\<rparr>, t')))"
  by (simp add: numeral_eq_Suc init_step_def wait_step_def init_entry_def xcp_coroutine_init_def Let_def
      wait_called_delivers xcp_coroutine_trampoline_def run_to_start_def)

section \<open>What holds between the steps\<close>

text \<open>How many steps are left.\<close>

definition steps_left :: "init_frame \<Rightarrow> sig_thread \<Rightarrow> nat" where
  "steps_left f t =
     (case pc f of
        Block \<Rightarrow> 11 | Install \<Rightarrow> 10 | SetAlt \<Rightarrow> 9 | Kill \<Rightarrow> 8 | Wait \<Rightarrow> if tr_called t then 6 else 7
      | DisableAlt \<Rightarrow> 5 | RestoreAlt \<Rightarrow> 4 | RestoreAction \<Rightarrow> 3 | RestoreMask \<Rightarrow> 2 | Jump \<Rightarrow> 1 | Finished \<Rightarrow> 0)"

text \<open>
  The state at each place of a call that nobody disturbs, \<open>a0\<close> being the action of the process and
  \<open>t0\<close> the signal state of the thread when it began.
\<close>

definition restored :: "sig_thread \<Rightarrow> sig_thread \<Rightarrow> bool" where
  "restored t0 t \<longleftrightarrow> sig_mask t = sig_mask t0 \<and> alt_stack t = alt_stack t0"

definition init_at :: "usr1_action \<Rightarrow> sig_thread \<Rightarrow> init_frame \<Rightarrow> sig_thread \<Rightarrow> bool" where
  "init_at a0 t0 f t \<longleftrightarrow>
     (let ours = (usr1 t = Trampoline \<and> old_sa f = a0 \<and> old_set f = sig_mask t0);
          saved = (tr_env t = Some (arg_stack f) \<and> tr_coroutine t = arg_coroutine f)
      in case pc f of
        Block \<Rightarrow> usr1 t = a0 \<and> restored t0 t
      | Install \<Rightarrow> usr1 t = a0 \<and> old_set f = sig_mask t0 \<and> alt_stack t = alt_stack t0
      | SetAlt \<Rightarrow> ours \<and> alt_stack t = alt_stack t0
      | Kill \<Rightarrow> ours \<and> old_ss f = alt_stack t0 \<and> alt_stack t = Some (arg_stack f, arg_size f)
      | Wait \<Rightarrow> ours \<and> old_ss f = alt_stack t0 \<and> alt_stack t = Some (arg_stack f, arg_size f) \<and>
          tr_coroutine t = arg_coroutine f \<and> (if tr_called t then saved else usr1_pending t)
      | DisableAlt \<Rightarrow> ours \<and> old_ss f = alt_stack t0 \<and> saved
      | RestoreAlt \<Rightarrow> ours \<and> old_ss f = alt_stack t0 \<and> saved
      | RestoreAction \<Rightarrow> ours \<and> alt_stack t = alt_stack t0 \<and> saved
      | RestoreMask \<Rightarrow> usr1 t = a0 \<and> old_set f = sig_mask t0 \<and> alt_stack t = alt_stack t0 \<and> saved
      | Jump \<Rightarrow> usr1 t = a0 \<and> restored t0 t \<and> saved
      | Finished \<Rightarrow> usr1 t = a0 \<and> restored t0 t \<and> co_env_on t (arg_coroutine f) = Some (arg_stack f))"

lemmas init_simps = init_at_def init_step_def wait_step_def restored_def xcp_coroutine_trampoline_def
  run_to_start_def steps_left_def Let_def

lemma init_at_entry: "usr1 t = a0 \<Longrightarrow> restored t0 t \<Longrightarrow> init_at a0 t0 (init_entry c st n) t"
  by (simp add: init_at_def init_entry_def)

lemma init_at_step:
  "init_at a0 t0 f t \<Longrightarrow> init_step fails f t = Ok (f', t') \<Longrightarrow> init_at a0 t0 f' t'"
  by (cases "pc f") (auto simp: init_simps split: if_splits)

lemma init_step_args: "init_step fails f t = Ok (f', t') \<Longrightarrow>
    arg_coroutine f' = arg_coroutine f \<and> arg_stack f' = arg_stack f"
  by (cases "pc f") (auto simp: init_step_def wait_step_def split: if_splits)

lemma init_at_finished: "init_at a0 t0 f t \<Longrightarrow> pc f = Finished \<Longrightarrow>
    usr1 t = a0 \<and> restored t0 t \<and> co_env_on t (arg_coroutine f) = Some (arg_stack f)"
  by (simp add: init_at_def)

lemma init_at_progress:
  assumes "init_at a0 t0 f t" and "pc f \<noteq> Finished"
  shows "(\<exists>f' t'. init_step fails f t = Ok (f', t') \<and> steps_left f t = Suc (steps_left f' t')) \<or>
    init_step fails f t = Aborts \<and> (\<exists>i \<in> {1..7}. fails i)"
proof (cases "init_step fails f t")
  case (Ok r)
  moreover from assms Ok have "steps_left f t = Suc (steps_left (fst r) (snd r))"
    by (cases "pc f") (auto simp: init_simps split: if_splits)
  ultimately show ?thesis by (cases r) simp
next
  case Aborts
  with assms have "fails 1 \<or> fails 2 \<or> fails 3 \<or> fails 4 \<or> fails 5 \<or> fails 6 \<or> fails 7"
    by (cases "pc f") (auto simp: init_simps split: if_splits)
  moreover have "\<exists>i \<in> {1..7}. fails i" if "fails k" "k \<in> {1..7}" for k using that by blast
  ultimately have "\<exists>i \<in> {1..7}. fails i" by force
  with Aborts show ?thesis by simp
next
  case Undefined
  with assms have False
    by (cases "pc f") (auto simp: init_simps split: if_splits)
  then show ?thesis ..
qed

lemma init_at_completes:
  assumes "init_at a0 t0 f t"
  shows "case init_steps fails (steps_left f t) f t of
      Ok (f', t') \<Rightarrow> pc f' = Finished \<and> usr1 t' = a0 \<and> restored t0 t' \<and>
        co_env_on t' (arg_coroutine f) = Some (arg_stack f)
    | Aborts \<Rightarrow> \<exists>i \<in> {1..7}. fails i
    | Undefined \<Rightarrow> False"
  using assms
proof (induction "steps_left f t" arbitrary: f t)
  case 0
  then have "pc f = Finished" by (auto simp: steps_left_def split: init_pc.splits if_splits)
  with init_at_finished [OF 0(2)] 0(1) show ?case by simp
next
  case (Suc n)
  then have "pc f \<noteq> Finished" by (auto simp: steps_left_def)
  from init_at_progress [OF Suc.prems this, of fails] show ?case
  proof (elim disjE exE conjE)
    fix f' t' assume step: "init_step fails f t = Ok (f', t')" "steps_left f t = Suc (steps_left f' t')"
    with Suc.hyps(1) [OF _ init_at_step [OF Suc.prems step(1)]] Suc.hyps(2) init_step_args [OF step(1)]
    show ?thesis by (auto split: outcome.splits)
  next
    assume "init_step fails f t = Aborts" "\<exists>i \<in> {1..7}. fails i"
    then show ?thesis by (simp add: Suc.hyps(2) [symmetric])
  qed
qed

section \<open>Several threads\<close>

text \<open>
  \<open>action\<close> is the action of the process for \<^verbatim>\<open>SIGUSR1\<close>, \<open>sigs\<close> what each thread has of its own (the field
  \<^const>\<open>usr1\<close> of it is not used), and \<open>inits\<close> the calls that are under way.
\<close>

record threads =
  action :: usr1_action
  sigs :: "nat \<Rightarrow> sig_thread"
  inits :: "nat \<Rightarrow> init_frame option"

definition view :: "nat \<Rightarrow> threads \<Rightarrow> sig_thread" where
  "view p w = (sigs w p)\<lparr>usr1 := action w\<rparr>"

definition after_move :: "nat \<Rightarrow> init_frame \<times> sig_thread \<Rightarrow> threads \<Rightarrow> threads" where
  "after_move p r w =
     (case r of (f, t) \<Rightarrow> w\<lparr>action := usr1 t, sigs := (sigs w)(p := t), inits := (inits w)(p \<mapsto> f)\<rparr>)"

text \<open>
  A thread calls \<^verbatim>\<open>xcp_coroutine_init\<close>, makes a step of it, or returns from it. With \<open>locked\<close> the calls
  are made under a lock that all threads share.
\<close>

inductive thread_step :: "bool \<Rightarrow> threads \<Rightarrow> threads \<Rightarrow> bool" for locked where
  call: "inits w p = None \<Longrightarrow> locked \<longrightarrow> (\<forall>q. inits w q = None) \<Longrightarrow>
    thread_step locked w (w\<lparr>inits := (inits w)(p \<mapsto> init_entry coroutine stack stackSize)\<rparr>)"
| move: "inits w p = Some f \<Longrightarrow> pc f \<noteq> Finished \<Longrightarrow> init_step fails f (view p w) = Ok r \<Longrightarrow>
    thread_step locked w (after_move p r w)"
| return: "inits w p = Some f \<Longrightarrow> pc f = Finished \<Longrightarrow> thread_step locked w (w\<lparr>inits := (inits w)(p := None)\<rparr>)"

abbreviation threads_reachable :: "bool \<Rightarrow> threads \<Rightarrow> threads \<Rightarrow> bool" where
  "threads_reachable locked w0 \<equiv> reaches ((=) w0) (thread_step locked)"

section \<open>Under a lock\<close>

definition lock_ok :: "threads \<Rightarrow> threads \<Rightarrow> bool" where
  "lock_ok w0 w \<longleftrightarrow>
     (\<forall>p. inits w p = None \<longrightarrow> restored (sigs w0 p) (sigs w p)) \<and>
     ((\<forall>p. inits w p = None) \<and> action w = action w0 \<or>
      (\<exists>p f. inits w = [p \<mapsto> f] \<and> init_at (action w0) (sigs w0 p) f (view p w)))"

lemma view_simps [simp]:
  "usr1 (view p w) = action w" "restored t0 (view p w) \<longleftrightarrow> restored t0 (sigs w p)"
  "view p (after_move p (f, t) w) = t"
  "restored t0 (t\<lparr>usr1 := a\<rparr>) \<longleftrightarrow> restored t0 t"
  by (simp_all add: view_def after_move_def restored_def)

lemma lock_okD:
  assumes "lock_ok w0 w" and "inits w p = Some f"
  shows "inits w = [p \<mapsto> f]" "init_at (action w0) (sigs w0 p) f (view p w)"
proof -
  from assms obtain p' f' where "inits w = [p' \<mapsto> f']" "init_at (action w0) (sigs w0 p') f' (view p' w)"
    by (auto simp: lock_ok_def)
  moreover from this(1) assms(2) have "p' = p" "f' = f" by (auto split: if_splits)
  ultimately show "inits w = [p \<mapsto> f]" "init_at (action w0) (sigs w0 p) f (view p w)" by simp_all
qed

lemma lock_ok_step:
  assumes ok: "lock_ok w0 w" and step: "thread_step True w w'"
  shows "lock_ok w0 w'"
  using step
proof cases
  case (call p c st n)
  then have none: "\<And>q. inits w q = None" by simp
  then have "inits w \<noteq> [q \<mapsto> f]" for q f by (metis fun_upd_same option.distinct(1))
  with ok none have "action w = action w0" and r: "\<And>q. restored (sigs w0 q) (sigs w q)"
    by (auto simp: lock_ok_def)
  then have "init_at (action w0) (sigs w0 p) (init_entry c st n) (view p w')"
    using call by (intro init_at_entry) (simp_all add: view_def)
  moreover have "inits w' = [p \<mapsto> init_entry c st n]" using call none by (auto simp: fun_eq_iff)
  ultimately show ?thesis using r call(1) by (auto simp: lock_ok_def)
next
  case (move p f fails r)
  obtain f' t' where r: "r = (f', t')" by (cases r)
  note one = lock_okD(1) [OF ok move(2)] and at = lock_okD(2) [OF ok move(2)]
  have "init_at (action w0) (sigs w0 p) f' (view p w')"
    using init_at_step [OF at] move r by simp
  moreover have "inits w' = [p \<mapsto> f']" using one move(1) r by (simp add: after_move_def)
  moreover have "restored (sigs w0 q) (sigs w' q)" if "q \<noteq> p" for q
    using that ok one move(1) r by (simp add: lock_ok_def after_move_def)
  ultimately show ?thesis by (auto simp: lock_ok_def)
next
  case (return p f)
  note one = lock_okD(1) [OF ok return(2)] and at = lock_okD(2) [OF ok return(2)]
  from init_at_finished [OF at return(3)] have "action w = action w0" "restored (sigs w0 p) (sigs w p)" by simp_all
  moreover have "restored (sigs w0 q) (sigs w q)" if "q \<noteq> p" for q
    using that ok one by (simp add: lock_ok_def)
  moreover have "inits w' = Map.empty" using return(1) one by simp
  ultimately show ?thesis using return(1) by (auto simp: lock_ok_def) metis
qed

lemma lock_ok_reachable:
  assumes "threads_reachable True w0 w" and "\<And>p. inits w0 p = None"
  shows "lock_ok w0 w"
proof (rule invariant.always [OF _ assms(1)], unfold_locales)
  show "lock_ok w0 s" if "w0 = s" for s
    using that assms(2) by (auto simp: lock_ok_def restored_def)
qed (rule lock_ok_step)

section \<open>Without a lock\<close>

text \<open>A schedule is a list of threads; each entry is a step of that thread's call, or its return.\<close>

definition turn :: "nat \<Rightarrow> threads \<Rightarrow> threads outcome" where
  "turn p w =
     (case inits w p of
        None \<Rightarrow> Undefined
      | Some f \<Rightarrow>
          if pc f = Finished then Ok (w\<lparr>inits := (inits w)(p := None)\<rparr>)
          else obind (init_step (\<lambda>_. False) f (view p w)) (\<lambda>r. Ok (after_move p r w)))"

fun turns :: "nat list \<Rightarrow> threads \<Rightarrow> threads outcome" where
  "turns [] w = Ok w"
| "turns (p # ps) w = obind (turn p w) (turns ps)"

lemma turn_step: "turn p w = Ok w' \<Longrightarrow> thread_step locked w w'"
  by (auto simp: turn_def split: option.splits if_splits intro: thread_step.intros)

lemma turns_reachable: "turns ps w = Ok w' \<Longrightarrow> threads_reachable locked w0 w \<Longrightarrow> threads_reachable locked w0 w'"
  by (induction ps arbitrary: w) (auto intro: reaches.step dest: turn_step)

text \<open>Two threads that have both called \<^verbatim>\<open>xcp_coroutine_init\<close>.\<close>

definition both_called :: "nat \<Rightarrow> cid \<Rightarrow> nat \<Rightarrow> nat \<Rightarrow> cid \<Rightarrow> nat \<Rightarrow> 64 word \<Rightarrow> threads \<Rightarrow> threads" where
  "both_called p c st q d st' n w =
     w\<lparr>inits := (inits w)(p \<mapsto> init_entry c st n, q \<mapsto> init_entry d st' n)\<rparr>"

lemma both_called_reachable:
  assumes "p \<noteq> q" and "\<And>r. inits w r = None"
  shows "threads_reachable False w (both_called p c st q d st' n w)"
proof -
  let ?w1 = "w\<lparr>inits := (inits w)(p \<mapsto> init_entry c st n)\<rparr>"
  have "thread_step False w ?w1" by (rule thread_step.call) (simp_all add: assms)
  moreover have "thread_step False ?w1 (?w1\<lparr>inits := (inits ?w1)(q \<mapsto> init_entry d st' n)\<rparr>)"
    by (rule thread_step.call) (use assms in simp_all)
  then have "thread_step False ?w1 (both_called p c st q d st' n w)" by (simp add: both_called_def)
  ultimately show ?thesis by (rule reaches.step [OF reaches.step [OF reaches_refl]])
qed

lemmas turn_simps = turn_def both_called_def init_entry_def view_def after_move_def init_step_def wait_step_def
  xcp_coroutine_trampoline_def run_to_start_def numeral_eq_Suc

lemma late_restore:
  assumes "p \<noteq> q" and "\<And>r. inits w r = None"
  shows "\<exists>w'. turns ([p, p, q, q] @ replicate 4 q @ replicate 10 p @ replicate 6 q) (both_called p c st q d st' n w) = Ok w' \<and>
    inits w' = Map.empty \<and> action w' = Trampoline \<and>
    co_env_on (sigs w' p) c = Some st \<and> co_env_on (sigs w' q) d = Some st'"
  using assms assms(1) [symmetric] by (simp add: turn_simps fun_eq_iff)

lemma late_signal:
  assumes "p \<noteq> q" and "\<And>r. inits w r = None" and "action w = OldAction a"
  shows "\<exists>w' f. turns ([p, p, q, q] @ replicate 10 p @ [q, q]) (both_called p c st q d st' n w) = Ok w' \<and>
    inits w' p = None \<and> inits w' q = Some f \<and> pc f = Wait \<and> \<not> tr_called (view q w') \<and>
    usr1_pending (view q w') \<and> usr1 (view q w') = OldAction a"
  using assms assms(1) [symmetric] by (simp add: turn_simps fun_eq_iff)

text \<open>A thread that sleeps without a signal and is not called sleeps as long as no other thread wakes it.\<close>

lemma asleep:
  "pc f = Wait \<Longrightarrow> \<not> tr_called t \<Longrightarrow> \<not> usr1_pending t \<Longrightarrow> init_steps fails k f t = Ok (f, t)"
  by (induction k) (simp_all add: init_step_def wait_step_def)

lemma wrong_handler:
  assumes "pc f = Wait" "\<not> tr_called t" "usr1_pending t" "usr1 t = OldAction a"
  shows "init_steps fails (Suc k) f t = (if a = 0 then Aborts else Ok (f, t\<lparr>usr1_pending := False\<rparr>))"
  using assms asleep [of f "t\<lparr>usr1_pending := False\<rparr>" fails k] by (simp add: init_step_def wait_step_def)

end
