(* ===== verification/Thread_Properties.thy ===== *)
theory Thread_Properties
  imports Coroutine_Threads World_Properties
begin

text \<open>The properties of coroutines that several threads of a process create.\<close>

text \<open>
  C6: when the threads of a process create their coroutines under a common lock, then between two
  creations the action of the process for \<^verbatim>\<open>SIGUSR1\<close> and each thread's signal mask and alternate stack are
  those of the start; and from every point of a creation, whichever of its system calls fail, the
  thread gets to one of two ends within eleven more steps: one of the seven checked system calls fails
  and the process aborts, or it returns with all of this restored and the context of the new
  coroutine on its own stack. If none fails it returns.
\<close>
theorem locked_inits_are_sound:
  assumes "threads_reachable True w0 w" and "inits w0 = Map.empty"
  shows "(inits w = Map.empty \<longrightarrow> action w = action w0 \<and> (\<forall>p. restored (sigs w0 p) (sigs w p))) \<and>
    (\<forall>p f. inits w p = Some f \<longrightarrow> inits w = [p \<mapsto> f] \<and>
       (\<forall>fails. \<exists>n \<le> 11. case init_steps fails n f (view p w) of
          Ok (f', t') \<Rightarrow> pc f' = Finished \<and> usr1 t' = action w0 \<and> restored (sigs w0 p) t' \<and>
            co_env_on t' (arg_coroutine f) = Some (arg_stack f)
        | Aborts \<Rightarrow> \<exists>i \<in> {1..7}. fails i
        | Undefined \<Rightarrow> False))"
proof -
  have ok: "lock_ok w0 w" by (rule lock_ok_reachable [OF assms(1)]) (simp add: assms(2))
  have bound: "steps_left f t \<le> 11" for f t by (simp add: steps_left_def split: init_pc.split)
  have "action w = action w0 \<and> (\<forall>p. restored (sigs w0 p) (sigs w p))" if "inits w = Map.empty"
    using ok that unfolding lock_ok_def by (metis map_upd_nonempty)
  moreover have "inits w = [p \<mapsto> f] \<and> (\<forall>fails. \<exists>n \<le> 11. case init_steps fails n f (view p w) of
          Ok (f', t') \<Rightarrow> pc f' = Finished \<and> usr1 t' = action w0 \<and> restored (sigs w0 p) t' \<and>
            co_env_on t' (arg_coroutine f) = Some (arg_stack f)
        | Aborts \<Rightarrow> \<exists>i \<in> {1..7}. fails i
        | Undefined \<Rightarrow> False)" if "inits w p = Some f" for p f
    using lock_okD [OF ok that] init_at_completes bound by blast
  ultimately show ?thesis by blast
qed

definition threads_start :: threads where
  "threads_start = \<lparr>action = OldAction 7, sigs = (\<lambda>_. sig_start), inits = Map.empty\<rparr>"

lemma locked_inits_are_sound_witness:
  "\<exists>w f n f' t'. inits w 5 = Some f \<and> pc f = Kill \<and> action w = Trampoline \<and>
    init_steps (\<lambda>_. False) n f (view 5 w) = Ok (f', t') \<and> pc f' = Finished \<and>
    usr1 t' = OldAction 7 \<and> co_env_on t' 1 = Some 4096"
proof -
  let ?w = "threads_start\<lparr>inits := [5 \<mapsto> init_entry 1 4096 8192]\<rparr>"
  have "thread_step True threads_start ?w"
    using thread_step.call [of threads_start 5 True 1 4096 8192] by (simp add: threads_start_def)
  then have first: "threads_reachable True threads_start ?w"
    by (rule reaches.step [OF reaches_refl])
  obtain w f where w: "turns (replicate 3 5) ?w = Ok w" "inits w 5 = Some f" "pc f = Kill" "arg_coroutine f = 1"
      "arg_stack f = 4096" "action w = Trampoline"
    by (simp add: turn_simps threads_start_def)
  have "inits threads_start = Map.empty" "action threads_start = OldAction 7" by (simp_all add: threads_start_def)
  from conjunct2 [OF conjunct2 [OF locked_inits_are_sound [OF turns_reachable [OF w(1) first]], rule_format, OF _ w(2)],
      rule_format, of "\<lambda>_. False"] this(1)
  obtain n where n: "case init_steps (\<lambda>_. False) n f (view 5 w) of
      Ok (f', t') \<Rightarrow> pc f' = Finished \<and> usr1 t' = action threads_start \<and>
        restored (sigs threads_start 5) t' \<and> co_env_on t' (arg_coroutine f) = Some (arg_stack f)
    | Aborts \<Rightarrow> \<exists>i \<in> {1..7::nat}. False | Undefined \<Rightarrow> False" by blast
  then obtain r where "init_steps (\<lambda>_. False) n f (view 5 w) = Ok r"
    by (cases "init_steps (\<lambda>_. False) n f (view 5 w)") auto
  with n w(4,5) \<open>action threads_start = OldAction 7\<close> obtain f' t' where
    "init_steps (\<lambda>_. False) n f (view 5 w) = Ok (f', t')" "pc f' = Finished"
    "usr1 t' = OldAction 7" "co_env_on t' 1 = Some 4096" by (cases r) auto
  with w show ?thesis by blast
qed

text \<open>
  C5: without a lock two threads that create coroutines at the same time disturb each other, because the
  action for \<^verbatim>\<open>SIGUSR1\<close> belongs to the process. Both may succeed and leave the action at the library's own
  trampoline for good. Or the first may put the old action back before the signal of the second is
  delivered: then the default action kills the process, and with any other action the second thread
  waits for ever.
\<close>
theorem concurrent_inits_race:
  assumes "p \<noteq> q" and "inits w0 = Map.empty" and "action w0 = OldAction a"
  shows "(\<exists>w. threads_reachable False w0 w \<and> inits w = Map.empty \<and> action w = Trampoline) \<and>
    (\<exists>w f. threads_reachable False w0 w \<and> inits w p = None \<and> inits w q = Some f \<and> pc f = Wait \<and>
       (\<forall>fails k. init_steps fails (Suc k) f (view q w) =
          (if a = 0 then Aborts else Ok (f, (view q w)\<lparr>usr1_pending := False\<rparr>))))"
proof -
  let ?w = "both_called p 1 4096 q 2 65536 8192 w0"
  have none: "\<And>r. inits w0 r = None" using assms(2) by simp
  have first: "threads_reachable False w0 ?w" by (rule both_called_reachable [OF assms(1) none])
  from late_restore [OF assms(1) none] obtain w1 where
    "turns ([p, p, q, q] @ replicate 4 q @ replicate 10 p @ replicate 6 q) ?w = Ok w1"
    "inits w1 = Map.empty" "action w1 = Trampoline" by blast
  moreover from late_signal [OF assms(1) none assms(3)] obtain w2 f where
    w2: "turns ([p, p, q, q] @ replicate 10 p @ [q, q]) ?w = Ok w2" "inits w2 p = None" "inits w2 q = Some f"
      "pc f = Wait" "\<not> tr_called (view q w2)" "usr1_pending (view q w2)" "usr1 (view q w2) = OldAction a" by blast
  moreover have "\<forall>fails k. init_steps fails (Suc k) f (view q w2) =
      (if a = 0 then Aborts else Ok (f, (view q w2)\<lparr>usr1_pending := False\<rparr>))"
    using wrong_handler [OF w2(4-7)] by blast
  ultimately show ?thesis using turns_reachable [OF _ first] by blast
qed

lemma concurrent_inits_race_witness:
  "(\<exists>w. threads_reachable False threads_start w \<and> inits w = Map.empty \<and> action w = Trampoline) \<and>
    (\<exists>w f. threads_reachable False threads_start w \<and> inits w 3 = None \<and> inits w 4 = Some f \<and> pc f = Wait \<and>
       (\<forall>k. init_steps (\<lambda>_. False) (Suc k) f (view 4 w) = Ok (f, (view 4 w)\<lparr>usr1_pending := False\<rparr>)))"
proof -
  have "3 \<noteq> (4 :: nat)" "inits threads_start = Map.empty" "action threads_start = OldAction 7"
    by (simp_all add: threads_start_def)
  from concurrent_inits_race [OF this] show ?thesis by fastforce
qed

end
