(* ===== verification/Coroutine_Valgrind.thy ===== *)
theory Coroutine_Valgrind
  imports Coroutine_World
begin

text \<open>
  The build with \<^verbatim>\<open>HAVE_VALGRIND\<close> of \<^verbatim>\<open>src/coroutine.c\<close>: \<^verbatim>\<open>xcp_coroutine_init\<close> registers the stack of a coroutine
  with Valgrind and keeps the identifier in the coroutine, \<^verbatim>\<open>xcp_coroutine_destroy\<close> gives it back. The client
  requests of Valgrind are parameters; what they do is stated in \<open>valgrind_contract\<close>.
\<close>

section \<open>The state and the operations\<close>

text \<open>What Valgrind knows: the registered stacks, by their identifiers, as first and last address.\<close>

type_synonym stack_regs = "nat \<Rightarrow> (nat \<times> nat) option"
type_synonym register_call = "nat \<Rightarrow> nat \<Rightarrow> stack_regs \<Rightarrow> nat \<times> stack_regs"
type_synonym deregister_call = "nat \<Rightarrow> stack_regs \<Rightarrow> stack_regs"

text \<open>The fields \<^verbatim>\<open>valgrindStackId\<close> are kept beside the coroutines, by the coroutine they belong to.\<close>

record vworld =
  v_world :: world
  valgrindStackId :: "cid \<Rightarrow> nat"
  v_regs :: stack_regs

definition register_stack :: "register_call \<Rightarrow> cid \<Rightarrow> nat \<Rightarrow> 64 word \<Rightarrow> vworld \<Rightarrow> vworld" where
  "register_stack VALGRIND_STACK_REGISTER coroutine stack stackSize v =
     (case VALGRIND_STACK_REGISTER stack (stack + unat stackSize) (v_regs v) of
        (stackId, regs) \<Rightarrow> v\<lparr>valgrindStackId := (valgrindStackId v)(coroutine := stackId), v_regs := regs\<rparr>)"

definition deregister_stack :: "deregister_call \<Rightarrow> (cid \<Rightarrow> nat) \<Rightarrow> cid \<Rightarrow> stack_regs \<Rightarrow> stack_regs" where
  "deregister_stack VALGRIND_STACK_DEREGISTER ids coroutine regs = VALGRIND_STACK_DEREGISTER (ids coroutine) regs"

definition register_new ::
  "register_call \<Rightarrow> 64 word \<Rightarrow> cid option \<Rightarrow> world \<Rightarrow> vworld \<Rightarrow> vworld" where
  "register_new VALGRIND_STACK_REGISTER pageSize res w v =
     (case res of
        None \<Rightarrow> v\<lparr>v_world := w\<rparr>
      | Some coroutine \<Rightarrow>
          register_stack VALGRIND_STACK_REGISTER coroutine
            (co_stack (the (objs (w_co w) coroutine))) (stack_size pageSize) (v\<lparr>v_world := w\<rparr>))"

text \<open>
  The whole of \<^verbatim>\<open>xcp_coroutine_create\<close> in this build. In the code the registration stands between the call of the
  trampoline and the restoration of the signal state; the two touch different things, and when the
  restoration fails the process ends.
\<close>

definition create_valgrind ::
  "register_call \<Rightarrow> mmap_call \<Rightarrow> mprotect_call \<Rightarrow> munmap_call \<Rightarrow> 64 word \<Rightarrow> (nat \<Rightarrow> bool) \<Rightarrow> cid option \<Rightarrow> nat \<Rightarrow> nat
    \<Rightarrow> vworld \<Rightarrow> (cid option \<times> vworld) outcome option" where
  "create_valgrind VALGRIND_STACK_REGISTER mmap mprotect munmap pageSize fails block cb userData v =
     (case create_whole mmap mprotect munmap pageSize fails block cb userData (v_world v) of
        None \<Rightarrow> None
      | Some r \<Rightarrow> Some (obind r (\<lambda>(res, w). Ok (res, register_new VALGRIND_STACK_REGISTER pageSize res w v))))"

text \<open>Between two calls the rest of the program does what it likes with other memory.\<close>

inductive v_step :: "register_call \<Rightarrow> deregister_call \<Rightarrow> mmap_call \<Rightarrow> mprotect_call \<Rightarrow> munmap_call \<Rightarrow> 64 word
    \<Rightarrow> vworld \<Rightarrow> vworld \<Rightarrow> bool"
  for register deregister mmap mprotect munmap pageSize where
  create: "(\<And>x. block = Some x \<Longrightarrow> x \<noteq> dummy \<and> objs (w_co (v_world v)) x = None) \<Longrightarrow>
    create_valgrind register mmap mprotect munmap pageSize fails block cb userData v = Some (Ok (res, v')) \<Longrightarrow>
    v_step register deregister mmap mprotect munmap pageSize v v'"
| call: "no_create op \<Longrightarrow> enabled op (w_co (v_world v)) \<Longrightarrow> run_op op (w_co (v_world v)) = Ok t \<Longrightarrow>
    destroyed t = gone @ destroyed (w_co (v_world v)) \<Longrightarrow>
    v_step register deregister mmap mprotect munmap pageSize v
      (v\<lparr>v_world := (v_world v)\<lparr>w_co := t,
           w_vm := foldr (xcp_coroutine_destroy_stack munmap pageSize \<circ> snd) gone (w_vm (v_world v))\<rparr>,
         v_regs := foldr (deregister_stack deregister (valgrindStackId v) \<circ> fst) gone (v_regs v)\<rparr>)"
| other: "(\<And>z. z \<in> stack_bytes pageSize (w_co (v_world v)) \<Longrightarrow> m z = w_vm (v_world v) z) \<Longrightarrow>
    v_step register deregister mmap mprotect munmap pageSize v (v\<lparr>v_world := (v_world v)\<lparr>w_vm := m\<rparr>\<rparr>)"

definition v_start :: "sig_thread \<Rightarrow> stack_regs \<Rightarrow> vworld \<Rightarrow> bool" where
  "v_start t0 r0 v \<longleftrightarrow> world_start t0 (v_world v) \<and> v_regs v = r0"

abbreviation v_reachable :: "register_call \<Rightarrow> deregister_call \<Rightarrow> mmap_call \<Rightarrow> mprotect_call \<Rightarrow> munmap_call \<Rightarrow> 64 word
    \<Rightarrow> sig_thread \<Rightarrow> stack_regs \<Rightarrow> vworld \<Rightarrow> bool" where
  "v_reachable register deregister mmap mprotect munmap pageSize t0 r0 \<equiv>
     reaches (v_start t0 r0) (v_step register deregister mmap mprotect munmap pageSize)"

text \<open>
  A registration gives an identifier that is not in use, of which there is always one as finitely many stacks are
  registered; giving one back removes its stack.
\<close>

definition valgrind_contract :: "register_call \<Rightarrow> deregister_call \<Rightarrow> bool" where
  "valgrind_contract register deregister \<longleftrightarrow>
     (\<forall>lo hi m. finite (dom m) \<longrightarrow> m (fst (register lo hi m)) = None \<and>
        snd (register lo hi m) = m(fst (register lo hi m) \<mapsto> (lo, hi))) \<and>
     (\<forall>i m. deregister i m = m(i := None))"

section \<open>Without Valgrind nothing else changes\<close>

lemma register_stack_world [simp]: "v_world (register_stack register coroutine stack n v) = v_world v"
  by (simp add: register_stack_def split: prod.split)

lemma register_new_world [simp]: "v_world (register_new register pageSize res w v) = w"
  by (simp add: register_new_def split: option.split)

lemma register_new_None [simp]:
  "valgrindStackId (register_new register pageSize None w v) = valgrindStackId v"
  "v_regs (register_new register pageSize None w v) = v_regs v"
  by (simp_all add: register_new_def)

lemma register_new_Some:
  assumes "register a (a + unat (stack_size pageSize)) (v_regs v) = (i, m)" and "co_stack (the (objs (w_co w) x)) = a"
  shows "valgrindStackId (register_new register pageSize (Some x) w v) = (valgrindStackId v)(x := i)"
    "v_regs (register_new register pageSize (Some x) w v) = m"
  using assms by (simp_all add: register_new_def register_stack_def)

lemma create_valgrind_world:
  "create_valgrind register mmap mprotect munmap pageSize fails block cb userData v = Some (Ok (res, v')) \<Longrightarrow>
   create_whole mmap mprotect munmap pageSize fails block cb userData (v_world v) = Some (Ok (res, v_world v')) \<and>
   v' = register_new register pageSize res (v_world v') v"
  by (auto simp: create_valgrind_def Let_def split: option.splits)

interpretation vg: projection "v_start t0 r0" "v_step register deregister mmap mprotect munmap pageSize"
    "world_start t0" "world_step mmap mprotect munmap pageSize" v_world
  for t0 r0 register deregister mmap mprotect munmap pageSize
proof
  show "world_start t0 (v_world v)" if "v_start t0 r0 v" for v
    using that by (simp add: v_start_def)
  show "world_step mmap mprotect munmap pageSize (v_world v) (v_world v') \<or> v_world v' = v_world v"
    if "v_step register deregister mmap mprotect munmap pageSize v v'" for v v'
    using that
  proof cases
    case create
    from world_step.create [OF create(1) conjunct1 [OF create_valgrind_world [OF create(2)]]] show ?thesis by blast
  next
    case call
    from world_step.call [OF call(2-5)] call(1) show ?thesis by simp
  next
    case (other m)
    from world_step.other [OF other(2)] other(1) show ?thesis by simp
  qed
qed

section \<open>What Valgrind knows\<close>

definition stack_range :: "64 word \<Rightarrow> nat \<Rightarrow> nat \<times> nat" where
  "stack_range pageSize a = (a, a + unat (stack_size pageSize))"

text \<open>
  Each coroutine in memory but the dummy has its stack registered under its own identifier, and otherwise
  the registrations are those of the start, \<open>r0\<close>.
\<close>

definition regs_ok :: "64 word \<Rightarrow> stack_regs \<Rightarrow> (cid \<Rightarrow> nat option) \<Rightarrow> (cid \<Rightarrow> nat) \<Rightarrow> stack_regs \<Rightarrow> bool" where
  "regs_ok pageSize r0 st ids m \<longleftrightarrow> finite (dom m) \<and>
     (\<forall>x a. x \<noteq> dummy \<longrightarrow> st x = Some a \<longrightarrow> m (ids x) = Some (stack_range pageSize a) \<and> r0 (ids x) = None) \<and>
     (\<forall>x y a b. x \<noteq> dummy \<longrightarrow> y \<noteq> dummy \<longrightarrow> x \<noteq> y \<longrightarrow> st x = Some a \<longrightarrow> st y = Some b \<longrightarrow> ids x \<noteq> ids y) \<and>
     (\<forall>i. m i \<noteq> r0 i \<longrightarrow> (\<exists>x a. x \<noteq> dummy \<and> st x = Some a \<and> ids x = i))"

lemma regs_okI:
  assumes "finite (dom m)" and "\<And>x a. x \<noteq> dummy \<Longrightarrow> st x = Some a \<Longrightarrow> m (ids x) = Some (stack_range pageSize a) \<and> r0 (ids x) = None"
    and "\<And>x y a b. x \<noteq> dummy \<Longrightarrow> y \<noteq> dummy \<Longrightarrow> x \<noteq> y \<Longrightarrow> st x = Some a \<Longrightarrow> st y = Some b \<Longrightarrow> ids x \<noteq> ids y"
    and "\<And>i. m i \<noteq> r0 i \<Longrightarrow> \<exists>x a. x \<noteq> dummy \<and> st x = Some a \<and> ids x = i"
  shows "regs_ok pageSize r0 st ids m"
  unfolding regs_ok_def by (intro conjI allI impI) (use assms in blast)+

lemma regs_okD:
  assumes "regs_ok pageSize r0 st ids m"
  shows "x \<noteq> dummy \<Longrightarrow> st x = Some a \<Longrightarrow> m (ids x) = Some (stack_range pageSize a) \<and> r0 (ids x) = None"
    and "x \<noteq> dummy \<Longrightarrow> y \<noteq> dummy \<Longrightarrow> x \<noteq> y \<Longrightarrow> st x = Some a \<Longrightarrow> st y = Some b \<Longrightarrow> ids x \<noteq> ids y"
    and "m i \<noteq> r0 i \<Longrightarrow> \<exists>x a. x \<noteq> dummy \<and> st x = Some a \<and> ids x = i"
    and "finite (dom m)"
  using assms unfolding regs_ok_def by metis+

lemma regs_ok_create:
  assumes ok: "regs_ok pageSize r0 st ids m" and x: "x \<noteq> dummy" "st x = None" and i: "m i = None"
  shows "regs_ok pageSize r0 (st(x \<mapsto> a)) (ids(x := i)) (m(i \<mapsto> stack_range pageSize a))"
proof -
  have fresh: "ids y \<noteq> i" if "y \<noteq> dummy" "st y = Some b" for y b
    using regs_okD(1) [OF ok that] i by auto
  have "r0 i = None" using regs_okD(1,3) [OF ok] i by (metis option.distinct(1))
  with regs_okD(1,4) [OF ok] fresh x(1) show ?thesis
  proof (intro regs_okI)
    fix y z b c assume "y \<noteq> dummy" "z \<noteq> dummy" "y \<noteq> z" "(st(x \<mapsto> a)) y = Some b" "(st(x \<mapsto> a)) z = Some c"
    with fresh regs_okD(2) [OF ok] show "(ids(x := i)) y \<noteq> (ids(x := i)) z"
      by (auto split: if_splits)
  next
    fix j assume "(m(i \<mapsto> stack_range pageSize a)) j \<noteq> r0 j"
    then consider "j = i" | "j \<noteq> i" "m j \<noteq> r0 j" by (auto split: if_splits)
    then show "\<exists>y b. y \<noteq> dummy \<and> (st(x \<mapsto> a)) y = Some b \<and> (ids(x := i)) y = j"
    proof cases
      case 1
      with x(1) show ?thesis by (rule_tac exI [of _ x]) simp
    next
      case 2
      from regs_okD(3) [OF ok 2(2)] obtain y b where "y \<noteq> dummy" "st y = Some b" "ids y = j" by blast
      with x(2) show ?thesis by (rule_tac exI [of _ y]) auto
    qed
  qed (auto split: if_splits)
qed

lemma regs_ok_destroy:
  assumes ok: "regs_ok pageSize r0 st ids m" and x: "x \<noteq> dummy" "st x = Some a"
  shows "regs_ok pageSize r0 (st(x := None)) ids (m(ids x := None))"
proof (rule regs_okI)
  fix y b assume y: "y \<noteq> dummy" "(st(x := None)) y = Some b"
  then have "ids y \<noteq> ids x" using regs_okD(2) [OF ok, of y x] x by (auto split: if_splits)
  with y regs_okD(1) [OF ok, of y] show "(m(ids x := None)) (ids y) = Some (stack_range pageSize b) \<and> r0 (ids y) = None"
    by (auto split: if_splits)
next
  show "finite (dom (m(ids x := None)))" using regs_okD(4) [OF ok] by simp
next
  fix i assume "(m(ids x := None)) i \<noteq> r0 i"
  then have i: "i \<noteq> ids x" "m i \<noteq> r0 i" using regs_okD(1) [OF ok x] by (auto split: if_splits)
  from regs_okD(3) [OF ok i(2)] i(1) show "\<exists>y b. y \<noteq> dummy \<and> (st(x := None)) y = Some b \<and> ids y = i" by fastforce
qed (use regs_okD(2) [OF ok] in \<open>auto split: if_splits\<close>)

text \<open>What a creation does to the coroutines.\<close>

lemma create_whole_stacks:
  assumes "create_whole mmap mprotect munmap pageSize fails block cb userData w = Some (Ok (res, w'))"
  shows "res = None \<and> w_co w' = w_co w \<or>
    (\<exists>x a. res = Some x \<and> block = Some x \<and> stacks_of (w_co w') = (stacks_of (w_co w))(x \<mapsto> a))"
proof (cases block)
  case None
  with assms show ?thesis by (simp add: create_whole_def)
next
  case (Some x)
  obtain st n v where cs: "xcp_coroutine_create_stack mmap mprotect munmap pageSize (w_vm w) = (st, n, v)"
    by (rule prod_cases3)
  show ?thesis
  proof (cases st)
    case None
    with assms Some cs show ?thesis by (auto simp: create_whole_def)
  next
    case st: (Some a)
    obtain s where s: "xcp_coroutine_create (Some x) (Some a) cb userData (w_co w) = (Some x, s)"
      "stacks_of s = (stacks_of (w_co w))(x := Some a)"
      using create_stacks [of x a cb userData "w_co w"]
      by (cases "xcp_coroutine_create (Some x) (Some a) cb userData (w_co w)") auto
    with assms Some cs st show ?thesis by (auto simp: create_whole_def split: option.splits)
  qed
qed

lemma stacks_of_obj: "stacks_of s x = Some a \<Longrightarrow> co_stack (the (objs s x)) = a"
  by (auto simp: stacks_of_def)

lemma regs_ok_reachable:
  assumes vg: "valgrind_contract register deregister"
    and "v_reachable register deregister mmap mprotect munmap pageSize t0 r0 v" and r0: "finite (dom r0)"
  shows "regs_ok pageSize r0 (stacks_of (w_co (v_world v))) (valgrindStackId v) (v_regs v)"
    (is "?ok v")
proof (rule invariant.always [OF _ assms(2)], unfold_locales)
  show "?ok v" if "v_start t0 r0 v" for v
    using that r0 by (auto simp: v_start_def world_start_def regs_ok_def stacks_of_def co_init_def split: if_splits)
next
  fix v v'
  assume ok: "?ok v" and "v_step register deregister mmap mprotect munmap pageSize v v'"
  from this(2) show "?ok v'"
  proof cases
    case (create block fails cb userData res)
    note whole = conjunct1 [OF create_valgrind_world [OF create(2)]]
      and v' = conjunct2 [OF create_valgrind_world [OF create(2)]]
    from create_whole_stacks [OF whole] show ?thesis
    proof (elim disjE exE conjE)
      assume "res = None" "w_co (v_world v') = w_co (v_world v)"
      moreover from this(1) have "valgrindStackId v' = valgrindStackId v" "v_regs v' = v_regs v"
        using arg_cong [OF v', of valgrindStackId] arg_cong [OF v', of v_regs] by simp_all
      ultimately show ?thesis using ok by simp
    next
      fix x a
      assume res: "res = Some x" "block = Some x" and
        st: "stacks_of (w_co (v_world v')) = (stacks_of (w_co (v_world v)))(x \<mapsto> a)"
      obtain i m where reg: "register a (a + unat (stack_size pageSize)) (v_regs v) = (i, m)"
        by (cases "register a (a + unat (stack_size pageSize)) (v_regs v)")
      with vg regs_okD(4) [OF ok] have im: "v_regs v i = None" "m = (v_regs v)(i \<mapsto> stack_range pageSize a)"
        unfolding valgrind_contract_def stack_range_def by (metis fst_conv, metis fst_conv snd_conv)
      have "co_stack (the (objs (w_co (v_world v')) x)) = a" using st by (intro stacks_of_obj) simp
      from register_new_Some [of register a pageSize v i m "v_world v'" x, OF reg this] res(1)
      have new: "valgrindStackId v' = (valgrindStackId v)(x := i)" "v_regs v' = m"
        using arg_cong [OF v', of valgrindStackId] arg_cong [OF v', of v_regs] by simp_all
      have "x \<noteq> dummy" "stacks_of (w_co (v_world v)) x = None"
        using create(1) [OF res(2)] by (auto simp: stacks_of_def)
      from regs_ok_create [OF ok this im(1), of a] show ?thesis unfolding st new im(2) .
    qed
  next
    case (call op t gone)
    from run_op_stacks [OF call(4,2)] show ?thesis
    proof
      assume "keeps_stacks (w_co (v_world v)) t"
      then have "gone = []" "stacks_of t = stacks_of (w_co (v_world v))" using call(5) by (simp_all add: keeps_stacks_def)
      with ok call(1) show ?thesis by simp
    next
      assume "frees_stack (w_co (v_world v)) t"
      then obtain x a where x: "x \<noteq> dummy" "stacks_of (w_co (v_world v)) x = Some a"
        and t: "stacks_of t = (stacks_of (w_co (v_world v)))(x := None)" "gone = [(x, a)]"
        using call(5) by (auto simp: frees_stack_def)
      from vg have "deregister i m = m(i := None)" for i m by (simp add: valgrind_contract_def)
      with regs_ok_destroy [OF ok x] call(1) t show ?thesis by (simp add: deregister_stack_def fun_upd_def)
    qed
  next
    case other
    with ok show ?thesis by simp
  qed
qed

end
