(* ===== verification/Valgrind_Properties.thy ===== *)
theory Valgrind_Properties
  imports Coroutine_Valgrind World_Properties
begin

text \<open>The properties of coroutines in the build that registers their stacks with Valgrind.\<close>

text \<open>
  C7: in every state of a thread, what Valgrind knows are the stacks that were registered at the start and
  those of the coroutines in memory: each of these is registered with its first and last address under
  the identifier that the coroutine holds, no two share one, and no registration is left behind: its bytes are mapped.
\<close>
theorem valgrind_knows_live_stacks:
  assumes "vm_contract (2 ^ k) mmap mprotect munmap" and "valgrind_contract register deregister" and "k \<le> 40"
    and "v_reachable register deregister mmap mprotect munmap (2 ^ k) t0 r0 v" and "finite (dom r0)"
  shows "(\<forall>x c. x \<noteq> dummy \<longrightarrow> objs (w_co (v_world v)) x = Some c \<longrightarrow>
      v_regs v (valgrindStackId v x) = Some (co_stack c, co_stack c + unat (stack_size (2 ^ k)))) \<and>
    (\<forall>x y. x \<noteq> dummy \<longrightarrow> y \<noteq> dummy \<longrightarrow> x \<noteq> y \<longrightarrow> objs (w_co (v_world v)) x \<noteq> None \<longrightarrow>
      objs (w_co (v_world v)) y \<noteq> None \<longrightarrow> valgrindStackId v x \<noteq> valgrindStackId v y) \<and>
    (\<forall>i. r0 i \<noteq> None \<longrightarrow> v_regs v i = r0 i) \<and>
    (\<forall>i lo hi. r0 i = None \<longrightarrow> v_regs v i = Some (lo, hi) \<longrightarrow>
      (\<exists>x. x \<noteq> dummy \<and> objs (w_co (v_world v)) x \<noteq> None \<and> valgrindStackId v x = i) \<and>
      (\<forall>z. lo \<le> z \<longrightarrow> z < hi \<longrightarrow> w_vm (v_world v) z \<noteq> None))"
proof -
  let ?s = "w_co (v_world v)"
  have ok: "regs_ok (2 ^ k) r0 (stacks_of ?s) (valgrindStackId v) (v_regs v)"
    by (rule regs_ok_reachable [OF assms(2,4,5)])
  from world_ok_reachable [OF assms(1,3) vg.projects [OF assms(4)]]
  have st: "stacks_ok (2 ^ k) (stacks_of ?s) (w_vm (v_world v))" by (simp add: world_ok_def)
  have has: "stacks_of ?s x = Some (co_stack c)" if "objs ?s x = Some c" for x c
    using that by (simp add: stacks_of_def)
  have live: "objs ?s x \<noteq> None" if "stacks_of ?s x = Some a" for x a using that by (auto simp: stacks_of_def)
  have mapped: "w_vm (v_world v) z \<noteq> None"
    if "r0 i = None" "v_regs v i = Some (lo, hi)" "lo \<le> z" "z < hi" for i lo hi z
  proof -
    from that(1,2) regs_okD(3) [OF ok, of i] obtain x a where x: "x \<noteq> dummy" "stacks_of ?s x = Some a" "valgrindStackId v x = i"
      by auto
    with regs_okD(1) [OF ok x(1,2)] that have "in_range a (stack_size (2 ^ k)) z"
      by (simp add: stack_range_def in_range_def)
    with stacks_okD(1) [OF st x(1,2)] show ?thesis by (simp add: stack_mapped_def)
  qed
  have owned: "\<exists>x. x \<noteq> dummy \<and> objs ?s x \<noteq> None \<and> valgrindStackId v x = i"
    if "r0 i = None" "v_regs v i = Some r" for i r
  proof -
    from that have "v_regs v i \<noteq> r0 i" by simp
    from regs_okD(3) [OF ok this] live show ?thesis by blast
  qed
  have kept: "v_regs v i = r0 i" if "r0 i \<noteq> None" for i
  proof (rule ccontr)
    assume "v_regs v i \<noteq> r0 i"
    from regs_okD(3) [OF ok this] obtain x a where "x \<noteq> dummy" "stacks_of ?s x = Some a" "valgrindStackId v x = i" by blast
    with regs_okD(1) [OF ok this(1,2)] that show False by simp
  qed
  have known: "v_regs v (valgrindStackId v x) = Some (co_stack c, co_stack c + unat (stack_size (2 ^ k)))"
    if "x \<noteq> dummy" "objs ?s x = Some c" for x c
    using regs_okD(1) [OF ok that(1) has [OF that(2)]] by (simp add: stack_range_def)
  have apart: "valgrindStackId v x \<noteq> valgrindStackId v y"
    if "x \<noteq> dummy" "y \<noteq> dummy" "x \<noteq> y" "objs ?s x \<noteq> None" "objs ?s y \<noteq> None" for x y
    using that regs_okD(2) [OF ok that(1-3)] has by blast
  show ?thesis
    by (intro conjI allI impI) (rule known apart kept owned mapped; assumption)+
qed

text \<open>A Valgrind that counts, in a program that has registered one stack of its own.\<close>

definition count_register :: register_call where
  "count_register lo hi m = (let i = Suc (Max (insert 0 (dom m))) in (i, m(i \<mapsto> (lo, hi))))"

definition count_deregister :: deregister_call where
  "count_deregister i m = m(i := None)"

lemma valgrind_contract_count: "valgrind_contract count_register count_deregister"
proof -
  have "m (Suc (Max (insert 0 (dom m)))) = None" if "finite (dom m)" for m :: stack_regs
  proof (rule ccontr)
    assume "m (Suc (Max (insert 0 (dom m)))) \<noteq> None"
    then have "Suc (Max (insert 0 (dom m))) \<le> Max (insert 0 (dom m))" using that by (intro Max_ge) auto
    then show False by simp
  qed
  then show ?thesis by (simp add: valgrind_contract_def count_register_def count_deregister_def Let_def)
qed

definition v_zero :: vworld where
  "v_zero = \<lparr>v_world = world_zero, valgrindStackId = (\<lambda>_. 0), v_regs = [3 \<mapsto> (10, 20)]\<rparr>"

definition v_one :: vworld where
  "v_one = register_new count_register (2 ^ 12) (Some 1) world_one v_zero"

lemma v_one_reachable:
  "v_reachable count_register count_deregister mmap_at mprotect_ok munmap_ok (2 ^ 12) sig_start [3 \<mapsto> (10, 20)] v_one"
proof (rule reaches.step)
  show "v_reachable count_register count_deregister mmap_at mprotect_ok munmap_ok (2 ^ 12) sig_start [3 \<mapsto> (10, 20)] v_zero"
    by (rule reaches.start) (simp add: v_start_def v_zero_def world_zero_def world_start_def)
  have "create_whole mmap_at mprotect_ok munmap_ok (2 ^ 12) (\<lambda>_. False) (Some 1) 0 0 world_zero =
      Some (Ok (Some 1, world_one))"
    using one_created by (auto simp: world_one_def)
  then have "create_valgrind count_register mmap_at mprotect_ok munmap_ok (2 ^ 12) (\<lambda>_. False) (Some 1) 0 0 v_zero =
      Some (Ok (Some 1, v_one))"
    by (simp add: create_valgrind_def v_one_def v_zero_def)
  then show "v_step count_register count_deregister mmap_at mprotect_ok munmap_ok (2 ^ 12) v_zero v_one"
    by (rule v_step.create [rotated]) (simp add: v_zero_def world_zero_def co_init_def)
qed

lemma valgrind_knows_live_stacks_witness:
  "objs (w_co (v_world v_one)) 1 \<noteq> None \<and> valgrindStackId v_one 1 = 4 \<and> v_regs v_one 3 = Some (10, 20) \<and>
    (\<exists>lo hi. v_regs v_one 4 = Some (lo, hi) \<and> hi = lo + 1052672)"
proof -
  note known = valgrind_knows_live_stacks [OF vm_contract_at valgrind_contract_count _ v_one_reachable]
  have "create_whole mmap_at mprotect_ok munmap_ok (2 ^ 12) (\<lambda>_. False) (Some 1) 0 0 world_zero =
      Some (Ok (Some 1, world_one))"
    using one_created by (auto simp: world_one_def)
  from create_whole_stacks [OF this] obtain a where "stacks_of (w_co world_one) 1 = Some a" by auto
  then obtain c where c: "objs (w_co world_one) 1 = Some c" by (auto simp: stacks_of_def)
  have w: "v_world v_one = world_one" by (simp add: v_one_def)
  have id: "valgrindStackId v_one 1 = 4"
    by (simp add: v_one_def register_new_def register_stack_def count_register_def v_zero_def Let_def)
  have "unat (stack_size (2 ^ 12)) = 1052672" using unat_stack_size [of 12] by (simp add: ceil_to_def)
  moreover from conjunct1 [OF known] c w have "v_regs v_one (valgrindStackId v_one 1) =
      Some (co_stack c, co_stack c + unat (stack_size (2 ^ 12)))" by simp
  moreover from known have "v_regs v_one 3 = Some (10, 20)" by simp
  ultimately show ?thesis using c w id by simp
qed

end
