(* ===== verification/Spec2Isabelle.thy ===== *)
theory Spec2Isabelle
  imports IO_Properties Math_Properties Coroutine_Properties Stack_Properties Path_Properties
    String_Properties Endian_Properties File_Properties Network_Properties Algorithm_Properties
    Stacktrace_Properties Sched_Properties World_Properties Thread_Properties
    Valgrind_Properties
begin

text \<open>
  A verification library for \<^verbatim>\<open>xcp-ng-generic-lib\<close>, the C support library of XCP-ng: coroutines,
  file descriptor transfers, paths, strings, files, sockets, byte order, integer macros and stack
  traces. Sources are named relative to the repository: \<^verbatim>\<open>src/*.c\<close> and \<^verbatim>\<open>include/xcp-ng/generic/*.h\<close>.

  \<^bold>\<open>Conventions.\<close> The C integers are those of x86-64 Linux. Sizes and addresses are \<^typ>\<open>nat\<close>, signed
  integers are \<^typ>\<open>int\<close>, and every conversion or operation that may leave the range of its type goes
  through \<^const>\<open>u64\<close>, \<^const>\<open>s64\<close> or \<^const>\<open>s32\<close>; arithmetic whose wrap-around is the point
  (\<^verbatim>\<open>math.h\<close>, \<^verbatim>\<open>endian.h\<close>, the size of a stack) is done on words of the width of the C type.
  Operations that may read or write out of bounds, loop for ever or are undefined otherwise return an
  \<^verbatim>\<open>option\<close>, \<^const>\<open>None\<close> being that case; a property that says \<^const>\<open>Some\<close> therefore says that the
  code returns and stays inside its objects. Two things are simpler than in C: \<^const>\<open>get_first_slash\<close> (\<^verbatim>\<open>path.c\<close>)
  may form the pointer before a string, kept as the offset \<open>- 1\<close>, without using it, and the counter of characters in
  \<^verbatim>\<open>stacktrace_symbols\<close> is a \<^typ>\<open>nat\<close>, the strings it adds up being in memory at once. System calls, the C library's allocator, BFD and the
  dynamic linker are parameters of the definitions that call them. What the code relies on is a named
  contract (\<^const>\<open>read_contract\<close>, \<^const>\<open>poll_contract\<close>, \<^const>\<open>idle_poll\<close>, \<^const>\<open>write_contract\<close>,
  \<^const>\<open>sendmsg_contract\<close>, \<^const>\<open>link_contract\<close>, \<^const>\<open>vm_contract\<close>, \<^const>\<open>valgrind_contract\<close>, \<^const>\<open>malloc_ok\<close>,
  \<^const>\<open>realloc_ok\<close>), which states documented behaviour and is satisfied by a concrete environment in each witness.
  Calls may fail at any time, and transiently for ever: no contract says that \<^verbatim>\<open>EAGAIN\<close> or \<^verbatim>\<open>EINTR\<close> ends. Where
  a loop may therefore not return, the property says exactly when (\<^const>\<open>stalled\<close>, \<^const>\<open>never_settles\<close> and
  what is built on them). \<^const>\<open>munmap_succeeds\<close> is the one hypothesis that a call works. A call is a total
  function of the state, so one that blocks for ever is outside of the model: what is said of a function that
  returns is said for calls that do.

  \<^bold>\<open>The parts and their theories.\<close>
  \<^item> \<open>C_Prelude\<close>: integers, error codes of \<^verbatim>\<open>global.h\<close>, the process state a system call may change
    (\<^verbatim>\<open>errno\<close>, memory, the kernel), the C loop \<^verbatim>\<open>do { ... } while\<close> with a body that may return, and heap
    blocks with bounds. The loop is a \<^theory_text>\<open>partial_function (option)\<close>: no fuel. That a loop returns is
    proved by rules on a measure that the bodies decrease, or it returns \<^const>\<open>None\<close> exactly when it \<^const>\<open>goes_round\<close>
    without end.
  \<^item> \<open>Retry\<close>: the shape \<^verbatim>\<open>do { ret = call; if good return } while (errno is transient)\<close>, as the locale
    \<open>retry_call\<close>: such a loop is \<^const>\<open>first_settled\<close>, the answer of the first call that does not fail transiently,
    and does not return if there is none. \<open>Xcp_IO\<close>, \<open>Xcp_File\<close> and \<open>Xcp_Network\<close> interpret it for \<^verbatim>\<open>close\<close>, \<^verbatim>\<open>dup2\<close>, \<^verbatim>\<open>read\<close>,
    \<^verbatim>\<open>write\<close>, \<^verbatim>\<open>pread\<close>, \<^verbatim>\<open>preadv\<close>, \<^verbatim>\<open>poll\<close>, \<^verbatim>\<open>fclose\<close> and \<^verbatim>\<open>connect\<close>.
  \<^item> \<open>Xcp_IO\<close>: every function of \<^verbatim>\<open>io.c\<close>. \<open>Byte_Streams\<close> states what its transfer loops rely on as
    two interfaces, a byte source and a byte sink, and proves the loops over them; \<open>Fd_Transfer\<close>
    derives these interfaces (\<^theory_text>\<open>sublocale\<close>) for the library's own \<^verbatim>\<open>xcp_fd_wait_read\<close> and
    \<^verbatim>\<open>xcp_fd_write\<close> from the contracts of the system calls; \<open>Pipe_Kernel\<close> is a kernel with one pipe that
    serves requests in parts and with interruptions, on which everything is evaluated;
    \<open>IO_Properties\<close> holds the properties. The transfers need \<open>count < 2 ^ 63\<close>, what \<^verbatim>\<open>ssize_t\<close> can report.
  \<^item> \<open>Stailq\<close>: the intrusive queues of \<^verbatim>\<open>sys/queue.h\<close> as pointers (a head with its first and last
    pointers, one \<^verbatim>\<open>next\<close> field per element), and the locale \<open>fifo\<close> that they implement as long as no
    element is queued twice.
  \<^item> \<open>Simulation\<close>: outcomes of operations (return, \<^verbatim>\<open>abort\<close>, undefined behaviour), runs of operations that
    respect a duty, reachable states, and three interfaces: \<open>invariant\<close>, \<open>projection\<close> (a system seen through a
    function of its state) and \<open>simulation\<close>: when each operation has the outcome of an abstract one,
    so has each run. The two refinements of the coroutines are interpretations of the last.
  \<^item> \<open>Coroutine\<close>: \<^verbatim>\<open>coroutine.c\<close> for one thread. A coroutine's record has its caller, its saved context,
    its pending queue; the saved context says where in the library the coroutine left the processor and
    which variables are live there, so that a switch continues the code behind the \<^verbatim>\<open>sigsetjmp\<close>
    that it returns from. The user's callbacks are not part of the library: each function that they
    may call is an operation (\<^typ>\<open>co_op\<close>), as is returning from the callback. An operation ends in
    user code again, in \<^verbatim>\<open>abort\<close>, or in undefined behaviour. The queues are merged before the status
    of a switch is looked at, so a resumption of the dummy aborts only after \<^const>\<open>merge_pendings\<close>, which is
    undefined when a freed coroutine is still on the queue it has to write behind. The operations are those of
    a build with assertions; \<^const>\<open>xcp_coroutine_process_ndebug\<close> is the other build, in which a coroutine that
    queues itself resumes itself with its next yield.
    \<open>Coroutine_Inv\<close>: the chain of callers is an invariant of all operations.
    \<open>Coroutine_Spec\<close>: an abstract machine that is a call stack and a set of suspended coroutines, and the
    simulation: as long as nothing is put on a pending queue each operation of the code has the outcome
    of the abstract one. \<open>Coroutine_Pending\<close>: what the pending queues add. \<open>Coroutine_Properties\<close>: the
    properties, with two defects of the pending queues.
    \<open>Coroutine_Sched\<close> and \<open>Sched_Properties\<close>: the abstract machine with the pending queues as lists, and the
    simulation for every operation, \<^verbatim>\<open>xcp_coroutine_process\<close> included, for callers that keep the duty
    of the interface (\<^const>\<open>allowed\<close>, \<^const>\<open>obeys\<close>): only a coroutine that is on no queue is resumed or put
    on one, and the memory of a coroutine that is still queued is not used for a new one.
  \<^item> \<open>Coroutine_Stack\<close> and \<open>Stack_Properties\<close>: the other half of \<^verbatim>\<open>coroutine.c\<close>, the mapping of a stack
    with its guard page (page sizes up to \<open>2 ^ 40\<close>) and the way \<^verbatim>\<open>xcp_coroutine_init\<close> gets onto it
    through a signal handler on an alternate stack, with the signal mask, the action and the pending
    signal as state. \<open>Coroutine_World\<close> and \<open>World_Properties\<close>: both halves together, the coroutines, the
    mapped memory and the signal state of the thread in one state; \<^const>\<open>create_whole\<close> is
    \<^verbatim>\<open>xcp_coroutine_create\<close> with all its system calls, a step is an operation or a change that the rest
    of the program makes, and the stack of each live coroutine is mapped in every reachable state.
    \<open>Coroutine_Threads\<close> and \<open>Thread_Properties\<close>: \<^verbatim>\<open>xcp_coroutine_init\<close> again, one system call per step
    (\<^const>\<open>init_step\<close>; eleven steps are \<^const>\<open>xcp_coroutine_init\<close>), so that several threads of a process can be
    in it at once. What belongs to a thread is in \<^const>\<open>sigs\<close>, the action for \<^verbatim>\<open>SIGUSR1\<close> is shared.
    With a common lock an invariant holds at each place of the program and every call returns; without one
    the threads race for the action.
    \<open>Coroutine_Valgrind\<close> and \<open>Valgrind_Properties\<close>: the build with \<^verbatim>\<open>HAVE_VALGRIND\<close>, as a system that projects to
    the one of \<open>Coroutine_World\<close>: \<^const>\<open>create_valgrind\<close> registers the new stack and each destroyed coroutine
    gives its registration back, so that Valgrind knows the stacks of the coroutines in memory and no other.
  \<^item> \<open>C_String\<close>: the functions of \<^verbatim>\<open>string.h\<close> on character blocks with bounds. \<open>Xcp_Path\<close> and
    \<open>Path_Properties\<close>: \<^verbatim>\<open>path.c\<close> and a reference definition of the parent directory on lists.
    \<open>Xcp_String\<close> and \<open>String_Properties\<close>: \<^verbatim>\<open>string.c\<close>, with \<^verbatim>\<open>strtoll\<close> from the C standard.
  \<^item> \<open>Xcp_File\<close> and \<open>File_Properties\<close>: \<^verbatim>\<open>file.c\<close>; the loop that grows the buffer of \<^verbatim>\<open>xcp_readlink\<close>
    ends because the target of a link is shorter than \<open>2 ^ 61\<close>. \<open>Xcp_Network\<close> and
    \<open>Network_Properties\<close>: \<^verbatim>\<open>network.c\<close>, a message with a descriptor whose rest goes out with
    \<^verbatim>\<open>xcp_fd_write_all\<close>, and what the peer gets when it reads with \<^verbatim>\<open>xcp_fd_read_all\<close>.
  \<^item> \<open>Xcp_Endian\<close>, \<open>Xcp_Math\<close>, \<open>Xcp_Algorithm\<close> with their properties: \<^verbatim>\<open>endian.h\<close> on words and on memory,
    \<^verbatim>\<open>math.h\<close> on words of every length, \<^verbatim>\<open>algorithm.h\<close> with the address arithmetic of the search.
  \<^item> \<open>Xcp_Stacktrace\<close> and \<open>Stacktrace_Properties\<close>: \<^verbatim>\<open>stacktrace/stacktrace.c\<close>, the crash handlers, and
    \<^verbatim>\<open>stacktrace/platform/bfd-stacktrace.c\<close>, the description of an address from its object file and
    the one-block table of strings with its clean-up, and \<^verbatim>\<open>std-stacktrace.c\<close>. Traces have fewer than \<open>2 ^ 31\<close> frames.
  \<^item> \<open>Xcp_Global\<close>: the macros of \<^verbatim>\<open>global.h\<close> and \<^verbatim>\<open>network.h\<close> that compute.
  \<^item> This theory: what the functions that repeat one system call return, from the answer of the call that
    settles it, and a whole crash report, from the loaded objects to the lines.

  \<^bold>\<open>How the parts interact.\<close> The transfer loops call the retrying calls; the network code builds a
  message and falls back to writing; the stack of a coroutine is rounded with \<^verbatim>\<open>math.h\<close>; the coroutines
  queue one another with \<^verbatim>\<open>STAILQ\<close>; the crash handler prints the table of strings that the BFD backend
  builds, which finds the executable with \<^verbatim>\<open>xcp_readlink\<close> (\<open>process_symbols\<close> below). Everything else is independent, and imports the prelude only.

  \<^bold>\<open>What the lemmas show.\<close> For the transfers: nothing is lost, duplicated or written elsewhere, exactly
  when a loop does not return, each error branch. For the coroutines: the chain invariant on all reachable states,
  every outcome of a resumption, the refinement of a call stack and of a scheduler, the order in which
  pending coroutines run, that no live coroutine loses its stack, and that threads which create coroutines
  under a lock do not disturb each other. For the string code: memory safety, equality with a reference definition, round trips. For
  stack traces: blocks are filled exactly, and exactly when cleaning up is undefined. For the macros:
  exactness with the bounds under which there is no wrap-around.

  \<^bold>\<open>What modelling showed.\<close> A callback that returns in a coroutine that was run from a pending queue
  frees the wrong coroutine (\<open>return_frees_the_argument\<close>); a coroutine put on a pending queue twice makes
  a cyclic queue or loses the coroutines between (\<open>process_twice_corrupts_queue\<close>); two threads that create coroutines at the same time lose
  the action for \<^verbatim>\<open>SIGUSR1\<close>, are killed, or wait for ever (\<open>concurrent_inits_race\<close>); \<^verbatim>\<open>xcp_fd_read_all\<close> hides a timeout; a wait that a signal
  interrupts starts again with its whole time-out (\<open>wait_restarts_timeout\<close>); \<^verbatim>\<open>close\<close> and \<^verbatim>\<open>fclose\<close> are
  called again after \<^verbatim>\<open>EINTR\<close>; the value of a successful \<^verbatim>\<open>xcp_sock_send_shared_fd\<close>
  depends on how the kernel split it, and with \<open>count = 0\<close> it reports success though no descriptor is passed;
  \<^verbatim>\<open>xcp_fd_write_all\<close> does not return while \<^verbatim>\<open>write\<close> takes nothing; two failure paths of
  \<^verbatim>\<open>stacktrace_symbols\<close> free pointers that they do not own, and an object file without symbols makes
  \<^verbatim>\<open>bfd-stacktrace.c\<close> use and free an uninitialised one; \<^verbatim>\<open>xcp_str_trim_end\<close> passes negative characters to
  \<^verbatim>\<open>isspace\<close> and forms the pointer before an empty string; \<^verbatim>\<open>XCP_DIV_ROUND_UP\<close> overflows for the least signed
  number over \<open>- 1\<close>; a failing \<^verbatim>\<open>munmap\<close> leaves the stack of a failed creation mapped.

  \<^bold>\<open>What is not modelled.\<close> The attribute and pragma macros of \<^verbatim>\<open>global.h\<close> and the names it gives to integer
  types, the declarations of the headers, the build files, padding and alignment of structures, and several threads that use
  one and the same coroutine: the data of the coroutines is thread-local, a coroutine belongs to the thread
  that runs it, and each of the other functions touches only what it is given.
\<close>

section \<open>What the retrying functions return\<close>

text \<open>The failures after which a call is repeated, as tests on what a call answers.\<close>

lemma settled_by_sign:
  "(\<lambda>(ret, \<tau>). \<not> 0 \<le> ret \<and> again_or_eintr (errno \<tau>)) = transient_failure"
  by (rule ext) (auto simp: transient_failure_def)

lemma settled_poll:
  "(\<lambda>(ret, s). \<not> 0 \<le> ret \<and> again_or_eintr (errno (snd s))) = poll_failure"
  by (rule ext) (auto simp: poll_failure_def transient_failure_def)

lemma settled_eintr:
  "(\<lambda>(ret :: int, \<tau>). \<not> 0 \<le> ret \<and> eintr (errno \<tau>)) = (\<lambda>(ret, \<tau>). ret < 0 \<and> errno \<tau> = EINTR)"
  "(\<lambda>(ret :: int, \<tau>). ret \<noteq> 0 \<and> eintr (errno \<tau>)) = (\<lambda>(ret, \<tau>). ret \<noteq> 0 \<and> errno \<tau> = EINTR)"
  by (rule ext, auto simp: eintr_def)+

lemma wait_for_rdata_settled:
  "xcp_fd_wait_for_rdata poll fd timeout \<sigma> =
     map_option (\<lambda>(ret, _, \<tau>). (if 0 < ret then XCP_ERR_OK else if ret = 0 then XCP_ERR_TIMEOUT else XCP_ERR_ERRNO, \<tau>))
       (first_settled (poll 1 timeout) poll_failure ([\<lparr>pfd_fd = fd, pfd_events = POLLIN, pfd_revents = 0\<rparr>], \<sigma>))"
  unfolding xcp_fd_wait_for_rdata_def wt.is_first_settled settled_poll
  by (auto simp: wt.answer_def split: option.split)

lemma poll_settled:
  "xcp_poll poll fds nfds timeout \<sigma> =
     map_option (\<lambda>(ret, fds', \<tau>). (if 0 < ret then ret else if ret = 0 then XCP_ERR_TIMEOUT else XCP_ERR_ERRNO, fds', \<tau>))
       (first_settled (poll nfds timeout) poll_failure (fds, \<sigma>))"
  using pl.is_first_settled [of poll nfds timeout "(fds, \<sigma>)"] unfolding settled_poll
  by (cases "first_settled (poll nfds timeout) poll_failure (fds, \<sigma>)") (auto simp: pl.answer_def)

text \<open>
  C23: what the ten functions that repeat an interrupted system call return, exactly. Of the calls they
  make the first that does not fail transiently decides (\<^verbatim>\<open>EINTR\<close> for \<^verbatim>\<open>close\<close>, \<^verbatim>\<open>dup2\<close>,
  \<^verbatim>\<open>fclose\<close> and \<^verbatim>\<open>connect\<close>, \<^verbatim>\<open>EAGAIN\<close> too for the others), and they return in its state, without a
  further call: \<^verbatim>\<open>XCP_ERR_ERRNO\<close> if it failed; else \<^verbatim>\<open>XCP_ERR_OK\<close> for the closing functions; for
  \<^verbatim>\<open>xcp_fd_wait_for_rdata\<close> \<^verbatim>\<open>XCP_ERR_OK\<close> when \<^verbatim>\<open>poll\<close> was positive and \<^verbatim>\<open>XCP_ERR_TIMEOUT\<close> when it was 0; for
  \<^verbatim>\<open>xcp_poll\<close> its value when positive and \<^verbatim>\<open>XCP_ERR_TIMEOUT\<close> when it was 0; for the others its value. If
  every call fails transiently they do not return.
\<close>
theorem first_settled_call_decides:
  "xcp_fd_close close fd \<sigma> =
     map_option (\<lambda>(ret, \<tau>). (if ret = 0 then XCP_ERR_OK else XCP_ERR_ERRNO, \<tau>))
       (first_settled (close fd) (\<lambda>(ret, \<tau>). ret \<noteq> 0 \<and> errno \<tau> = EINTR) \<sigma>) \<and>
   xcp_fd_dup dup2 fd fd2 \<sigma> =
     map_option (\<lambda>(ret, \<tau>). (if 0 \<le> ret then ret else XCP_ERR_ERRNO, \<tau>))
       (first_settled (dup2 fd fd2) (\<lambda>(ret, \<tau>). ret < 0 \<and> errno \<tau> = EINTR) \<sigma>) \<and>
   xcp_fd_wait_for_rdata poll fd timeout \<sigma> =
     map_option (\<lambda>(ret, _, \<tau>). (if 0 < ret then XCP_ERR_OK else if ret = 0 then XCP_ERR_TIMEOUT else XCP_ERR_ERRNO, \<tau>))
       (first_settled (poll 1 timeout) poll_failure ([\<lparr>pfd_fd = fd, pfd_events = POLLIN, pfd_revents = 0\<rparr>], \<sigma>)) \<and>
   xcp_fd_read read fd buf count \<sigma> =
     map_option (\<lambda>(ret, \<tau>). (if 0 \<le> ret then ret else XCP_ERR_ERRNO, \<tau>))
       (first_settled (read fd buf count) transient_failure \<sigma>) \<and>
   xcp_fd_write write' fd buf count \<sigma> =
     map_option (\<lambda>(ret, \<tau>). (if 0 \<le> ret then ret else XCP_ERR_ERRNO, \<tau>))
       (first_settled (write' fd buf count) transient_failure \<sigma>) \<and>
   xcp_fd_pread pread fd buf count offset \<sigma> =
     map_option (\<lambda>(ret, \<tau>). (if 0 \<le> ret then ret else XCP_ERR_ERRNO, \<tau>))
       (first_settled (pread fd buf count offset) transient_failure \<sigma>) \<and>
   xcp_fd_preadv preadv fd iovs iovCount offset \<sigma> =
     map_option (\<lambda>(ret, \<tau>). (if 0 \<le> ret then ret else XCP_ERR_ERRNO, \<tau>))
       (first_settled (preadv fd iovs (s32 (int iovCount)) offset) transient_failure \<sigma>) \<and>
   xcp_poll poll fds nfds timeout \<sigma> =
     map_option (\<lambda>(ret, fds', \<tau>). (if 0 < ret then ret else if ret = 0 then XCP_ERR_TIMEOUT else XCP_ERR_ERRNO, fds', \<tau>))
       (first_settled (poll nfds timeout) poll_failure (fds, \<sigma>)) \<and>
   xcp_file_close fclose fp \<sigma> =
     map_option (\<lambda>(ret, \<tau>). (if ret = 0 then XCP_ERR_OK else XCP_ERR_ERRNO, \<tau>))
       (first_settled (fclose fp) (\<lambda>(ret, \<tau>). ret \<noteq> 0 \<and> errno \<tau> = EINTR) \<sigma>) \<and>
   xcp_sock_connect connect sock addr \<sigma> =
     map_option (\<lambda>(ret, \<tau>). (if 0 \<le> ret then ret else XCP_ERR_ERRNO, \<tau>))
       (first_settled (connect sock addr) (\<lambda>(ret, \<tau>). ret < 0 \<and> errno \<tau> = EINTR) \<sigma>)"
  unfolding close.is_first_settled dup.is_first_settled rd.is_first_settled wr.is_first_settled
    prd.is_first_settled prdv.is_first_settled fcl.is_first_settled con.is_first_settled
    wait_for_rdata_settled poll_settled settled_by_sign settled_eintr
    close.answer_def dup.answer_def rd.answer_def wr.answer_def prd.answer_def prdv.answer_def
    fcl.answer_def con.answer_def
  by (intro conjI refl)

section \<open>A whole crash report\<close>

text \<open>
  The lookup of an address in an object file, as step 2 of \<^verbatim>\<open>stacktrace_symbols\<close> uses its result: the
  string in the block, if there is one. A lookup that is undefined (C37 says when) gives no string
  here; the property below is about lookups that give one.
\<close>

definition lookup_in_file ::
  "(string \<Rightarrow> bfd option) \<Rightarrow> (nat \<Rightarrow> char list ptr) \<Rightarrow> string \<Rightarrow> 64 word \<Rightarrow> string option" where
  "lookup_in_file bfd_openr malloc filename pa =
     (case physical_addr_to_str_from_file bfd_openr malloc filename pa 0 of
        Some (Ptr b, _) \<Rightarrow> Some (takeWhile (\<lambda>c. c \<noteq> NUL) b)
      | _ \<Rightarrow> None)"

text \<open>
  What a line of the report says about an address: the formatted answer of BFD (\<^const>\<open>bfd_text\<close>, with
  \<^const>\<open>bfd_line\<close> for the file, the function and the line) for the address relative to the base of the
  first object that contains it, in that object's file and with the table of symbols read from it.
\<close>

definition describes ::
  "dl_phdr_info list \<Rightarrow> (string \<Rightarrow> bfd option) \<Rightarrow> string \<Rightarrow> 64 word \<Rightarrow> string \<Rightarrow> bool" where
  "describes objects bfd_openr self a line \<longleftrightarrow>
     (case find (covers a) objects of
        None \<Rightarrow> line = ''[0x????] ??:??  ??()''
      | Some info \<Rightarrow>
          (case bfd_openr (if dlpi_name info \<noteq> [] then dlpi_name info else self) of
             None \<Rightarrow> False
           | Some bin \<Rightarrow>
               (case snd (read_symbols bin None) of
                  None \<Rightarrow> False
                | Some table \<Rightarrow>
                    line = takeWhile (\<lambda>c. c \<noteq> NUL) (bfd_text bin table (a - dlpi_addr info)))))"

lemma is_str_takeWhile: "is_str (takeWhile (\<lambda>c. c \<noteq> NUL) s)"
  by (auto simp: is_str_def dest: set_takeWhileD)

lemma takeWhile_end: "takeWhile (\<lambda>c. c \<noteq> NUL) (s @ [NUL]) = takeWhile (\<lambda>c. c \<noteq> NUL) s"
  by (induction s) auto

lemma lookup_describes:
  assumes "malloc_ok malloc" and "lookup_in_file bfd_openr malloc filename pa = Some s"
  shows "\<exists>bin table. bfd_openr filename = Some bin \<and> snd (read_symbols bin None) = Some table \<and>
    s = takeWhile (\<lambda>c. c \<noteq> NUL) (bfd_text bin table pa)"
  using assms(2) unfolding lookup_in_file_def description_of_file [OF assms(1)]
  by (auto simp: Let_def takeWhile_end split: option.splits ptr.splits if_splits)

lemma locate_describes:
  assumes "malloc_ok malloc" and "\<And>s. asprintf s = Some s"
    and "locate objects asprintf (lookup_in_file bfd_openr malloc) self a \<noteq> NullCell"
  shows "\<exists>s. locate objects asprintf (lookup_in_file bfd_openr malloc) self a = StrCell s \<and> is_str s \<and>
    describes objects bfd_openr self a s"
proof (cases "find (covers a) objects")
  case None
  then have "dl_iterate_phdr objects (symbol_of a) = None" by (simp add: dl_iterate_find symbol_of_def)
  with None assms(2) show ?thesis by (simp add: locate_def describes_def is_str_def)
next
  case (Some info)
  let ?file = "if dlpi_name info \<noteq> [] then dlpi_name info else self"
  have d: "dl_iterate_phdr objects (symbol_of a) =
      Some \<lparr>sym_filepath = Some (dlpi_name info), sym_baseAddress = dlpi_addr info, sym_address = a\<rparr>"
    using Some by (simp add: dl_iterate_find symbol_of_def)
  with assms(3) obtain s where s: "lookup_in_file bfd_openr malloc ?file (a - dlpi_addr info) = Some s"
    by (auto simp: locate_def Let_def split: option.splits)
  from lookup_describes [OF assms(1) s] d s Some show ?thesis
    by (auto simp: locate_def describes_def is_str_takeWhile)
qed

text \<open>
  What \<^verbatim>\<open>xcp_stacktrace_symbols\<close> does in a process: step 2 asks \<^verbatim>\<open>xcp_readlink\<close> for the path of the executable
  and looks the addresses up in the files of the loaded objects.
\<close>

definition process_symbols ::
  "'k readlink_call \<Rightarrow> (nat \<Rightarrow> char list ptr) \<Rightarrow> (nat \<Rightarrow> char list \<Rightarrow> char list ptr) \<Rightarrow> 'k sys \<Rightarrow> (nat \<Rightarrow> bool) \<Rightarrow>
   (nat \<Rightarrow> char) \<Rightarrow> dl_phdr_info list \<Rightarrow> (string \<Rightarrow> string option) \<Rightarrow> (string \<Rightarrow> bfd option) \<Rightarrow> 64 word list
   \<Rightarrow> strings option" where
  "process_symbols readlink malloc realloc \<sigma> can_alloc junk objects asprintf bfd_openr buffer =
     (case xcp_readlink readlink malloc realloc 0 \<sigma> of
        None \<Rightarrow> None
      | Some (path, _, _) \<Rightarrow>
          xcp_stacktrace_symbols
            (case path of NULL \<Rightarrow> None | Ptr b \<Rightarrow> Some (takeWhile (\<lambda>c. c \<noteq> NUL) b))
            can_alloc junk (locate objects asprintf (lookup_in_file bfd_openr malloc)) buffer)"

lemma process_symbols_eq:
  assumes "link_contract readlink t" and "malloc_ok malloc" and "realloc_ok realloc" and "length t < 2 ^ 61"
    and "is_str t" and "\<And>live \<tau>. xcp_readlink readlink malloc realloc 0 \<sigma> \<noteq> Some (NULL, live, \<tau>)"
  shows "process_symbols readlink malloc realloc \<sigma> can_alloc junk objects asprintf bfd_openr =
    xcp_stacktrace_symbols (Some t) can_alloc junk (locate objects asprintf (lookup_in_file bfd_openr malloc))"
proof -
  obtain r live \<tau> where "xcp_readlink readlink malloc realloc 0 \<sigma> = Some (Ptr (t @ NUL # r), live, \<tau>)"
    using readlink_completes [OF assms(1-4), of 0 \<sigma>] assms(6) by blast
  moreover have "takeWhile (\<lambda>c. c \<noteq> NUL) (t @ NUL # r) = t"
    using assms(5) by (simp add: takeWhile_str)
  ultimately show ?thesis by (intro ext) (simp add: process_symbols_def)
qed

text \<open>
  C19: the report of a crash, from the addresses to the lines: when memory suffices, the link to the executable
  can be read and the lookup of each frame gives a string, the default crash handler prints for each
  frame, in order, its number in a column as wide as the greatest number needs, and the line of
  \<^const>\<open>describes\<close>: the address relative to the first loaded object that contains it, with the
  file, line and function that BFD's first allocated section containing that address answers for
  its offset in the section (unknown ones if none answers), in the file of the object or, when it
  has no name, the executable; question marks when no object contains the address. Before that it has restored
  the default actions of the crash signals, and it exits with 128 plus the signal; the default
  action is not executed, though \<^verbatim>\<open>stacktrace.h\<close> says so.
\<close>
theorem crash_report:
  assumes "length (backtrace 128) = n" and "n < 2 ^ 31" and "\<And>k. can_alloc k" and "malloc_ok malloc"
    and "\<And>s. asprintf s = Some s" and "link_contract readlink self" and "realloc_ok realloc"
    and "length self < 2 ^ 61" and "is_str self"
    and "\<And>live \<tau>. xcp_readlink readlink malloc realloc 0 \<sigma> \<noteq> Some (NULL, live, \<tau>)"
    and "\<And>a. a \<in> set (backtrace 128) \<Longrightarrow> locate objects asprintf (lookup_in_file bfd_openr malloc) self a \<noteq> NullCell"
  shows "\<exists>lines. default_crash_handler backtrace
      (process_symbols readlink malloc realloc \<sigma> can_alloc junk objects asprintf bfd_openr) signum tbl =
    Some (128 + signum, map (\<lambda>k. frame_prefix (size_length n) k @ lines k) [0..<n],
      \<lambda>s. if s \<in> set crash_signals then SIG_DFL else tbl s) \<and>
    (\<forall>k < n. describes objects bfd_openr self (backtrace 128 ! k) (lines k))"
proof -
  let ?loc = "locate objects asprintf (lookup_in_file bfd_openr malloc)"
  have "\<exists>s. ?loc self (backtrace 128 ! k) = StrCell s \<and> is_str s \<and> describes objects bfd_openr self (backtrace 128 ! k) s"
    if "k < n" for k
    using that assms(1) by (intro locate_describes [OF assms(4,5)] assms(11)) simp
  then obtain f where f: "\<And>k. k < n \<Longrightarrow> ?loc self (backtrace 128 ! k) = StrCell (f k) \<and> is_str (f k) \<and>
      describes objects bfd_openr self (backtrace 128 ! k) (f k)" by metis
  then have "default_crash_handler backtrace (xcp_stacktrace_symbols (Some self) can_alloc junk ?loc) signum tbl =
    Some (128 + signum, map (\<lambda>k. frame_prefix (size_length n) k @ f k) [0..<n],
      \<lambda>s. if s \<in> set crash_signals then SIG_DFL else tbl s)"
    using default_crash_handler_exits [where loc = ?loc and backtrace = backtrace and can_alloc = can_alloc,
        OF assms(1-3)] by blast
  with f show ?thesis unfolding process_symbols_eq [OF assms(6,4,7-10)] by blast
qed

text \<open>A program of one segment, and a frame in it and one outside.\<close>

definition one_object :: "dl_phdr_info list" where
  "one_object = [\<lparr>dlpi_addr = 0x4000, dlpi_name = [],
     dlpi_phdr = [\<lparr>p_type = 1, p_vaddr = 0x1000, p_memsz = 0x100\<rparr>]\<rparr>]"

lemma one_object_located: 
  "dl_iterate_phdr one_object (symbol_of 0x5010) =
     Some \<lparr>sym_filepath = Some [], sym_baseAddress = 0x4000, sym_address = 0x5010\<rparr>"
  "dl_iterate_phdr one_object (symbol_of 7) = None"
  by (simp_all add: one_object_def symbol_of_def find_symbol_location_def PT_LOAD_def)

lemma tiny_found: "lookup_in_file tiny_bfd malloc_z ''/bin/x'' 0x1010 \<noteq> None"
  unfolding lookup_in_file_def description_of_file [OF malloc_z_ok]
  by (simp add: tiny_bfd_def tiny_symbols tiny_text malloc_z_def) (simp add: tiny_file_def)

lemma tiny_described:
  "describes one_object tiny_bfd ''/bin/x'' 0x5010 line \<longleftrightarrow> line = ''[0x00000000001010] a.c:16  main() in /bin/x''"
proof -
  have "covers 0x5010 (hd one_object)" by (simp add: covers_def one_object_def PT_LOAD_def)
  then have "find (covers 0x5010) one_object = Some (hd one_object)" by (simp add: one_object_def)
  moreover have "dlpi_name (hd one_object) = []" "0x5010 - dlpi_addr (hd one_object) = 0x1010"
    by (simp_all add: one_object_def)
  ultimately show ?thesis
    by (simp add: describes_def tiny_bfd_def tiny_symbols tiny_text)
qed

lemma self_link_read:
  "\<exists>b. xcp_readlink (some_link ''/bin/x'') malloc_z realloc_y 0 file_start = Some (Ptr b, 1, file_start)"
proof -
  let ?b = "\<lparr>lb_size = 16, lb_block = replicate 16 (CHR ''z''), lb_live = 1\<rparr>"
  have "blk_copy (replicate 16 (CHR ''z'')) 0 ''/bin/x'' = Some (''/bin/x'' @ replicate 10 (CHR ''z''))"
    by (simp add: blk_copy_def)
  then have "readlink_body (some_link ''/bin/x'') realloc_y (?b, file_start) =
      Some (Leave (Some 6) (?b\<lparr>lb_block := ''/bin/x'' @ replicate 10 (CHR ''z'')\<rparr>, file_start))"
    by (simp add: readlink_body_def some_link_def u64_def)
  from do_while_Leave [where body = "readlink_body (some_link ''/bin/x'') realloc_y", OF this]
  show ?thesis by (simp add: xcp_readlink_def malloc_z_def blk_write_def)
qed

lemma crash_report_witness:
  "\<exists>lines. default_crash_handler (\<lambda>_. [0x5010, 7])
      (process_symbols (some_link ''/bin/x'') malloc_z realloc_y file_start (\<lambda>_. True) (\<lambda>_. NUL) one_object Some tiny_bfd)
      11 (\<lambda>_. DefaultCrashHandler) =
    Some (128 + 11, map (\<lambda>k. frame_prefix (size_length 2) k @ lines k) [0..<2],
      \<lambda>s. if s \<in> set crash_signals then SIG_DFL else DefaultCrashHandler) \<and>
    lines 0 = ''[0x00000000001010] a.c:16  main() in /bin/x'' \<and> lines 1 = ''[0x????] ??:??  ??()''"
  (is "\<exists>lines. ?run lines \<and> ?one lines \<and> ?two lines")
proof -
  have "\<exists>lines. ?run lines \<and> (\<forall>k < 2. describes one_object tiny_bfd ''/bin/x'' ([0x5010, 7] ! k) (lines k))"
  proof (rule crash_report)
    show "malloc_ok malloc_z" by (rule malloc_z_ok)
    show "link_contract (some_link ''/bin/x'') ''/bin/x''" by (rule some_link_contract)
    show "realloc_ok realloc_y" by (rule realloc_y_ok)
    show "is_str ''/bin/x''" by (simp add: is_str_def)
    show "xcp_readlink (some_link ''/bin/x'') malloc_z realloc_y 0 file_start \<noteq> Some (NULL, live, \<tau>)" for live \<tau>
      using self_link_read by auto
    show "locate one_object Some (lookup_in_file tiny_bfd malloc_z) ''/bin/x'' a \<noteq> NullCell"
      if "a \<in> set [0x5010, 7]" for a
      using that tiny_found by (auto simp: locate_def one_object_located split: option.split)
  qed simp_all
  then obtain lines where run: "?run lines"
    and all: "\<forall>k < 2. describes one_object tiny_bfd ''/bin/x'' ([0x5010, 7] ! k) (lines k)" by blast
  have "?one lines" using all [rule_format, of 0] by (simp add: tiny_described)
  moreover have "find (covers 7) one_object = None" by (simp add: covers_def one_object_def PT_LOAD_def)
  then have "?two lines" using all [rule_format, of 1] by (simp add: describes_def)
  ultimately have "?one lines" "?two lines" by simp_all
  with run show ?thesis by blast
qed

end
